(* ===== verification/Compact.thy ===== *)
theory Compact
  imports Prelude
begin

text \<open>
  CompactSize and unsigned LEB128 of \<open>crates/rbitcoin-primitives/src/compact.rs\<close>. A
  \<open>&mut Vec<u8>\<close> output is returned extended; a \<open>&mut [u8]\<close> destination is returned updated; a
  panic (the \<open>expect\<close> of \<open>write_uleb128\<close>) is \<open>None\<close>. The locale \<open>byte_codec\<close> is the contract a reader
  of such a stream relies on; both encodings are interpreted in it.
\<close>

section \<open>Model\<close>

datatype pack_error = PackError string

definition compact_size_len :: "u64 \<Rightarrow> nat" where
  "compact_size_len n =
    (if n < 253 then 1
     else if n \<le> 0xFFFF then 3
     else if n \<le> 0xFFFFFFFF then 5
     else 9)"

definition write_compact_size :: "bytes \<Rightarrow> u64 \<Rightarrow> bytes" where
  "write_compact_size out n =
    (if n < 253 then out @ [ucast n]
     else if n \<le> 0xFFFF then out @ [253] @ to_le 2 (unat n)
     else if n \<le> 0xFFFFFFFF then out @ [254] @ to_le 4 (unat n)
     else out @ [255] @ to_le 8 (unat n))"

definition read_compact_size :: "bytes \<Rightarrow> pack_error + u64 \<times> nat" where
  "read_compact_size buf =
    (case buf of
       [] \<Rightarrow> Inl (PackError ''compact size empty'')
     | b # rest \<Rightarrow>
         if b \<le> 252 then Inr (ucast b, 1)
         else if b = 253 then
           (if length buf < 3 then Inl (PackError ''compact size u16 truncated'')
            else Inr (word_of_nat (of_le (take 2 rest)), 3))
         else if b = 254 then
           (if length buf < 5 then Inl (PackError ''compact size u32 truncated'')
            else Inr (word_of_nat (of_le (take 4 rest)), 5))
         else
           (if length buf < 9 then Inl (PackError ''compact size u64 truncated'')
            else Inr (word_of_nat (of_le (take 8 rest)), 9)))"

definition read_compact_size_from :: "bytes \<Rightarrow> (pack_error + u64) \<times> bytes" where
  "read_compact_size_from rdr =
    (case read_compact_size rdr of
       Inl e \<Rightarrow> (Inl e, rdr)
     | Inr (v, n) \<Rightarrow> (Inr v, drop n rdr))"

function uleb128_len_loop :: "u64 \<Rightarrow> nat \<Rightarrow> nat" where
  "uleb128_len_loop n len = (if 0x80 \<le> n then uleb128_len_loop (drop_bit 7 n) (len + 1) else len)"
  by pat_completeness auto
termination
proof (relation "measure (\<lambda>(n, _). unat n)")
  show "((drop_bit 7 n, len + 1), n, len) \<in> measure (\<lambda>(n, _). unat n)"
    if "0x80 \<le> n" for n :: u64 and len :: nat
  proof -
    have "0 < unat n" using that by (simp add: word_le_nat_alt)
    then show ?thesis by (simp add: unat_drop_bit)
  qed
qed simp

definition uleb128_len :: "u64 \<Rightarrow> nat" where
  "uleb128_len n = uleb128_len_loop n 1"

function write_uleb128_loop :: "bytes \<Rightarrow> u64 \<Rightarrow> nat \<Rightarrow> pack_error + nat \<times> bytes" where
  "write_uleb128_loop dst n i =
    (if length dst \<le> i then Inl (PackError ''uleb128 dest short'')
     else
       let b = ucast (n AND 0x7F) :: u8;
           n = drop_bit 7 n;
           b = (if n \<noteq> 0 then b OR 0x80 else b);
           dst = dst[i := b];
           i = i + 1
       in if n = 0 then Inr (i, dst) else write_uleb128_loop dst n i)"
  by pat_completeness auto
termination
  by (relation "measure (\<lambda>(dst, _, i). length dst - i)") auto

definition write_uleb128_into :: "bytes \<Rightarrow> u64 \<Rightarrow> pack_error + nat \<times> bytes" where
  "write_uleb128_into dst n = write_uleb128_loop dst n 0"

definition write_uleb128 :: "bytes \<Rightarrow> u64 \<Rightarrow> bytes option" where
  "write_uleb128 out n =
    (case write_uleb128_into (replicate 10 0) n of
       Inl _ \<Rightarrow> None
     | Inr (used, tmp) \<Rightarrow> Some (out @ take used tmp))"

fun read_uleb128_loop :: "bytes \<Rightarrow> nat \<Rightarrow> u64 \<Rightarrow> nat \<Rightarrow> pack_error + u64 \<times> nat" where
  "read_uleb128_loop [] i result shift = Inl (PackError ''uleb128 truncated'')"
| "read_uleb128_loop (b # bs) i result shift =
    (if 64 \<le> shift then Inl (PackError ''uleb128 overflow'')
     else
       let piece = ucast (b AND 0x7F) :: u64
       in if shift = 63 \<and> 1 < piece then Inl (PackError ''uleb128 overflow'')
          else
            let result = result OR push_bit shift piece
            in if b AND 0x80 = 0 then Inr (result, i + 1)
               else read_uleb128_loop bs (i + 1) result (shift + 7))"

definition read_uleb128 :: "bytes \<Rightarrow> pack_error + u64 \<times> nat" where
  "read_uleb128 buf = read_uleb128_loop buf 0 0 0"

section \<open>The codec contract\<close>

text \<open>What a client of a self-delimiting encoding relies on, and what follows from it.\<close>

locale byte_codec =
  fixes enc :: "'a \<Rightarrow> bytes" and dec :: "bytes \<Rightarrow> 'e + 'a \<times> nat"
  assumes dec_enc: "dec (enc a @ rest) = Inr (a, length (enc a))"
    and enc_nonempty: "enc a \<noteq> []"
begin

lemma prefix_free: "enc a @ r = enc b @ s \<Longrightarrow> a = b \<and> r = s"
  by (metis dec_enc Inr_inject Pair_inject append_eq_append_conv)

lemma enc_inj: "enc a = enc b \<longleftrightarrow> a = b"
  using prefix_free [of a "[]" b "[]"] by auto

lemma stream_inj: "concat (map enc as) = concat (map enc bs) \<Longrightarrow> as = bs"
proof (induction as arbitrary: bs)
  case Nil
  then show ?case by (cases bs) (auto simp: enc_nonempty)
next
  case (Cons a as)
  then obtain b bs' where "bs = b # bs'"
    by (cases bs) (auto simp: enc_nonempty)
  then show ?case
    using Cons.IH [of bs'] Cons.prems prefix_free [of a "concat (map enc as)" b "concat (map enc bs')"] by simp
qed

end

section \<open>CompactSize\<close>

lemma length_write_compact_size:
  "length (write_compact_size out n) = length out + compact_size_len n"
  by (simp add: write_compact_size_def compact_size_len_def)

lemma word64_of_le:
  "k \<le> 8 \<Longrightarrow> unat n < 256 ^ k \<Longrightarrow> word_of_nat (of_le (to_le k (unat n))) = (n :: u64)"
  by (simp add: of_le_to_le_id)

lemma read_write_compact_size:
  "read_compact_size (write_compact_size [] n @ rest) = Inr (n, compact_size_len n)"
proof -
  consider "n < 253" | "\<not> n < 253" "n \<le> 0xFFFF" | "\<not> n \<le> 0xFFFF" "n \<le> 0xFFFFFFFF"
    | "\<not> n \<le> 0xFFFFFFFF" by blast
  then show ?thesis
  proof cases
    case 1
    then have "unat n < 253" by (simp add: word_less_nat_alt)
    then have "(ucast n :: u8) \<le> 252" "ucast (ucast n :: u8) = n"
      by (simp_all add: word_le_nat_alt unat_ucast_mod word_unat_eq_iff)
    with 1 show ?thesis
      by (simp add: write_compact_size_def read_compact_size_def compact_size_len_def)
  next
    case 2
    then have "unat n < 256 ^ 2" by (simp add: word_le_nat_alt)
    with 2 show ?thesis
      by (simp add: write_compact_size_def read_compact_size_def compact_size_len_def word64_of_le
          del: to_le.simps)
  next
    case 3
    then have "unat n < 256 ^ 4" "\<not> n < 253" by (simp_all add: word_le_nat_alt word_less_nat_alt)
    with 3 show ?thesis
      by (simp add: write_compact_size_def read_compact_size_def compact_size_len_def word64_of_le
          del: to_le.simps)
  next
    case 4
    have "unat n < 256 ^ 8" using unsigned_less [of n, where ?'a = nat] by simp
    moreover have "\<not> n < 253" "\<not> n \<le> 0xFFFF" using 4 by (simp_all add: word_le_nat_alt word_less_nat_alt)
    ultimately show ?thesis using 4
      by (simp add: write_compact_size_def read_compact_size_def compact_size_len_def word64_of_le
          del: to_le.simps)
  qed
qed

interpretation compact_codec: byte_codec "write_compact_size []" read_compact_size
  by unfold_locales
    (auto simp: read_write_compact_size length_write_compact_size,
     auto simp: write_compact_size_def split: if_splits)

lemma read_compact_size_len:
  "read_compact_size buf = Inr (v, n) \<Longrightarrow> n \<le> length buf \<and> compact_size_len v \<le> n"
proof -
  assume r: "read_compact_size buf = Inr (v, n)"
  have small: "unat (word_of_nat (of_le (take k xs)) :: u64) < 256 ^ k" if "k \<le> 7" for k xs
  proof -
    have "of_le (take k xs) < 256 ^ length (take k xs)" by (rule of_le_bound)
    also have "\<dots> \<le> 256 ^ k" by (simp add: power_increasing)
    finally have "of_le (take k xs) < 256 ^ k" .
    moreover have "(256 :: nat) ^ k \<le> 256 ^ 7" by (rule power_increasing) (use that in auto)
    ultimately show ?thesis by (simp add: unat_of_nat)
  qed
  have small2: "unat (word_of_nat (of_le (take 2 xs)) :: u64) \<le> 0xFFFF" for xs
    using small [of 2 xs] by simp
  have small2': "unat (word_of_nat (of_le (take 2 xs)) :: u64) \<le> 0xFFFFFFFF" for xs
    by (rule le_trans [OF small2]) simp
  have small4: "unat (word_of_nat (of_le (take 4 xs)) :: u64) \<le> 0xFFFFFFFF" for xs
    using small [of 4 xs] by simp
  have "\<not> (253 :: u64) \<le> ucast b" if "b \<le> 252" for b :: u8
    using that by (simp add: word_le_nat_alt unat_ucast_mod)
  then show ?thesis
    using r small2 small4 small2'
    by (auto simp: read_compact_size_def compact_size_len_def word_le_nat_alt word_less_nat_alt
        unat_ucast_mod split: list.splits if_splits)
qed

section \<open>ULEB128\<close>

text \<open>The bytes \<open>write_uleb128_loop\<close> stores, and the number a byte sequence stands for.\<close>

function uleb_bytes :: "nat \<Rightarrow> bytes" where
  "uleb_bytes n =
    (if n < 128 then [word_of_nat n] else word_of_nat (n mod 128 + 128) # uleb_bytes (n div 128))"
  by pat_completeness auto
termination by (relation "measure id") auto

declare uleb_bytes.simps [simp del] write_uleb128_loop.simps [simp del] uleb128_len_loop.simps [simp del]

fun uleb_value :: "bytes \<Rightarrow> nat" where
  "uleb_value [] = 0"
| "uleb_value (b # bs) = unat b mod 128 + 128 * uleb_value bs"

lemma uleb_bytes_nonempty [simp]: "uleb_bytes n \<noteq> []"
  by (subst uleb_bytes.simps) simp

lemma uleb_bytes_length: "0 < k \<Longrightarrow> n < 128 ^ k \<Longrightarrow> length (uleb_bytes n) \<le> k"
proof (induction n arbitrary: k rule: uleb_bytes.induct)
  case (1 n)
  show ?case
  proof (cases "n < 128")
    case True
    then show ?thesis using 1 by (simp add: uleb_bytes.simps [of n])
  next
    case False
    then obtain j where j: "k = Suc j" "0 < j"
      using 1 by (cases k; cases "k - 1") auto
    then have "n div 128 < 128 ^ j"
      using 1 by (simp add: less_mult_imp_div_less mult.commute)
    then show ?thesis using 1 False j by (simp add: uleb_bytes.simps [of n])
  qed
qed

lemma u64_bytes_le_10: "length (uleb_bytes (unat (n :: u64))) \<le> 10"
proof (rule uleb_bytes_length)
  show "unat n < 128 ^ 10"
    using unsigned_less [of n, where ?'a = nat] by simp
qed simp

lemma shift7_eq_0: "drop_bit 7 n = 0 \<longleftrightarrow> unat n < 128" for n :: u64
  by (simp add: word_unat_eq_iff unat_drop_bit div_eq_0_iff)

lemma low7: "ucast (n AND 0x7F) = (word_of_nat (unat n mod 128) :: u8)" for n :: u64
proof -
  have "unat (n AND 0x7F) = unat n mod 128"
    using unat_and_mask [of n 7] by (simp add: mask_eq_exp_minus_1)
  then show ?thesis by (simp add: word_unat_eq_iff unat_ucast_mod unat_of_nat)
qed

lemma or_80: "n < 128 \<Longrightarrow> (word_of_nat n :: u8) OR 0x80 = word_of_nat (n + 128)"
proof -
  assume n: "n < 128"
  have "unat ((word_of_nat n :: u8) OR push_bit 7 1) = unat (word_of_nat n :: u8) + unat (1 :: u8) * 2 ^ 7"
    using n by (intro unat_or_push_bit) auto
  then show ?thesis using n by (simp add: word_unat_eq_iff unat_of_nat del: of_nat_add)
qed

lemma write_uleb128_loop_ok:
  "i + length (uleb_bytes (unat n)) \<le> length dst \<Longrightarrow>
   write_uleb128_loop dst n i =
     Inr (i + length (uleb_bytes (unat n)),
          take i dst @ uleb_bytes (unat n) @ drop (i + length (uleb_bytes (unat n))) dst)"
proof (induction dst n i rule: write_uleb128_loop.induct)
  case (1 dst n i)
  have i: "i < length dst" using 1(2) by (cases "uleb_bytes (unat n)") auto
  show ?case
  proof (cases "unat n < 128")
    case True
    then show ?thesis using i
      by (simp add: write_uleb128_loop.simps [of dst n i] uleb_bytes.simps [of "unat n"]
          shift7_eq_0 low7 upd_conv_take_nth_drop Let_def)
  next
    case False
    let ?b = "word_of_nat (unat n mod 128 + 128) :: u8"
    have tail: "uleb_bytes (unat n) = ?b # uleb_bytes (unat (drop_bit 7 n))"
      using False by (simp add: uleb_bytes.simps [of "unat n"] unat_drop_bit)
    have "write_uleb128_loop dst n i = write_uleb128_loop (dst[i := ?b]) (drop_bit 7 n) (i + 1)"
      using False i
      by (simp add: write_uleb128_loop.simps [of dst n i] shift7_eq_0 low7 or_80 Let_def)
    also have "\<dots> = Inr (i + length (uleb_bytes (unat n)),
          take i dst @ uleb_bytes (unat n) @ drop (i + length (uleb_bytes (unat n))) dst)"
      using 1 False i tail
      by (simp add: shift7_eq_0 low7 or_80 take_Suc_conv_app_nth)
    finally show ?thesis .
  qed
qed

lemma write_uleb128_eq: "write_uleb128 out n = Some (out @ uleb_bytes (unat n))"
  using write_uleb128_loop_ok [of 0 n "replicate 10 0"] u64_bytes_le_10 [of n]
  by (simp add: write_uleb128_def write_uleb128_into_def)

lemma uleb128_len_loop_eq: "uleb128_len_loop n len = len + length (uleb_bytes (unat n)) - 1"
proof (induction n len rule: uleb128_len_loop.induct)
  case (1 n len)
  show ?case
    using 1 uleb_bytes_nonempty [of "unat n div 128"]
    by (auto simp: uleb128_len_loop.simps [of n len] uleb_bytes.simps [of "unat n"] word_le_nat_alt
        unat_drop_bit Suc_leI)
qed

lemma piece_fits:
  assumes "7 dvd shift" "shift < 64" "p < 128" "shift = 63 \<Longrightarrow> p \<le> (1 :: nat)"
  shows "p * 2 ^ shift < 2 ^ 64"
proof (cases "shift = 63")
  case True
  then show ?thesis using assms by simp
next
  case False
  with assms have "shift \<le> 56" by (auto elim!: dvdE)
  then have "p * 2 ^ shift \<le> p * 2 ^ 56" by (intro mult_le_mono power_increasing) auto
  also have "\<dots> < 128 * 2 ^ 56" using assms by simp
  finally show ?thesis by simp
qed

lemma piece_unat: "unat (ucast (b AND 0x7F) :: u64) = unat b mod 128" for b :: u8
  by (simp add: unat_ucast_mod)

lemma acc_bound:
  assumes "unat r < 2 ^ shift" "p < 128"
  shows "unat r + p * 2 ^ shift < 2 ^ (shift + 7)"
proof -
  have "unat r + p * 2 ^ shift < 2 ^ shift + p * 2 ^ shift" using assms by simp
  also have "\<dots> = (p + 1) * 2 ^ shift" by simp
  also have "\<dots> \<le> 128 * 2 ^ shift" using assms by (intro mult_le_mono) auto
  finally show ?thesis by (simp add: power_add)
qed

lemma read_uleb128_loop_value:
  "read_uleb128_loop bs i result shift = Inr (v, n) \<Longrightarrow> 7 dvd shift \<Longrightarrow> unat result < 2 ^ shift \<Longrightarrow>
   i < n \<and> n - i \<le> length bs \<and> unat v = unat result + uleb_value (take (n - i) bs) * 2 ^ shift"
proof (induction bs i result shift rule: read_uleb128_loop.induct)
  case (1 i result shift)
  then show ?case by simp
next
  case (2 b bs i result shift)
  let ?p = "ucast (b AND 0x7F) :: u64"
  let ?r = "result OR push_bit shift ?p"
  have sh: "shift < 64" and one: "\<not> (shift = 63 \<and> 1 < ?p)"
    using 2(2) by (auto split: if_splits simp: Let_def)
  have le: "shift = 63 \<Longrightarrow> unat ?p \<le> 1"
    using one by (simp add: word_less_nat_alt)
  have fits: "unat b mod 128 * 2 ^ shift < 2 ^ 64"
    using 2(3) sh le by (intro piece_fits) (auto simp: piece_unat)
  have r: "unat ?r = unat result + unat b mod 128 * 2 ^ shift"
    using unat_or_push_bit [of result shift ?p] 2(4) fits by (simp add: piece_unat)
  show ?case
  proof (cases "b AND 0x80 = 0")
    case True
    then have "v = ?r" "n = i + 1" using 2(2) sh one by (auto simp: Let_def)
    then show ?thesis using r by simp
  next
    case False
    then have rec: "read_uleb128_loop bs (i + 1) ?r (shift + 7) = Inr (v, n)"
      using 2(2) sh one by (auto simp: Let_def)
    have "unat ?r < 2 ^ (shift + 7)"
      unfolding r using 2(4) by (intro acc_bound) auto
    then have ih: "i + 1 < n \<and> n - (i + 1) \<le> length bs \<and>
        unat v = unat ?r + uleb_value (take (n - (i + 1)) bs) * 2 ^ (shift + 7)"
      using 2(1) rec sh one False 2(3) by (simp add: not_le)
    then obtain m where "n = Suc (i + m)" "0 < m"
      by (metis Suc_eq_plus1 add_Suc less_iff_Suc_add zero_less_Suc add.assoc)
    with ih r show ?thesis by (simp add: power_add algebra_simps)
  qed
qed

lemma read_uleb128_loop_bytes:
  "7 dvd shift \<Longrightarrow> unat result < 2 ^ shift \<Longrightarrow> shift < 64 \<Longrightarrow> m * 2 ^ shift < 2 ^ 64 \<Longrightarrow>
   read_uleb128_loop (uleb_bytes m @ rest) i result shift =
     Inr (word_of_nat (unat result + m * 2 ^ shift), i + length (uleb_bytes m))"
proof (induction m arbitrary: i result shift rule: uleb_bytes.induct)
  case (1 m)
  define b where "b = (if m < 128 then word_of_nat m else word_of_nat (m mod 128 + 128) :: u8)"
  let ?p = "ucast (b AND 0x7F) :: u64"
  let ?r = "result OR push_bit shift ?p"
  have b: "unat b mod 128 = m mod 128"
    by (auto simp: b_def unat_of_nat mod_mod_cancel simp del: of_nat_add)
  have bound: "m mod 128 * 2 ^ shift < 2 ^ 64"
    by (rule le_less_trans [OF _ 1(5)]) simp
  have r: "unat ?r = unat result + m mod 128 * 2 ^ shift"
    using unat_or_push_bit [of result shift ?p] 1(3) bound b by (simp add: piece_unat)
  have one: "\<not> (shift = 63 \<and> 1 < ?p)"
    using bound b by (auto simp: word_less_nat_alt piece_unat)
  show ?case
  proof (cases "m < 128")
    case True
    then have "b AND 0x80 = 0" by (simp add: and_80_eq_0_iff b_def unat_of_nat)
    then have "read_uleb128_loop (b # rest) i result shift = Inr (?r, i + 1)"
      using 1(4) one by (simp add: Let_def)
    moreover have "?r = word_of_nat (unat result + m * 2 ^ shift)"
    proof -
      have "?r = word_of_nat (unat ?r)" by simp
      also have "\<dots> = word_of_nat (unat result + m * 2 ^ shift)" unfolding r using True by simp
      finally show ?thesis .
    qed
    ultimately show ?thesis using True by (simp add: uleb_bytes.simps [of m] b_def)
  next
    case False
    then have "b AND 0x80 \<noteq> 0" by (simp add: and_80_eq_0_iff b_def unat_of_nat del: of_nat_add)
    then have "read_uleb128_loop (b # uleb_bytes (m div 128) @ rest) i result shift =
        read_uleb128_loop (uleb_bytes (m div 128) @ rest) (i + 1) ?r (shift + 7)"
      using 1(4) one by (auto simp: Let_def)
    also have "\<dots> = Inr (word_of_nat (unat ?r + m div 128 * 2 ^ (shift + 7)), i + 1 + length (uleb_bytes (m div 128)))"
    proof (rule 1(1) [OF False])
      show "unat ?r < 2 ^ (shift + 7)" unfolding r using 1(3) by (intro acc_bound) auto
      have "m div 128 * 2 ^ (shift + 7) = m div 128 * 128 * 2 ^ shift" by (simp add: power_add)
      also have "\<dots> \<le> m * 2 ^ shift" by (intro mult_le_mono) auto
      finally show m: "m div 128 * 2 ^ (shift + 7) < 2 ^ 64" using 1(5) by simp
      have "1 \<le> m div 128" using False by (simp add: Suc_leI div_greater_zero_iff)
      then have "2 ^ (shift + 7) \<le> m div 128 * 2 ^ (shift + 7)" by simp
      then have "(2 :: nat) ^ (shift + 7) < 2 ^ 64" using m by (rule le_less_trans)
      then show "shift + 7 < 64" by (simp only: power_strict_increasing_iff)
    qed (use 1(2) in simp)
    also have "unat ?r + m div 128 * 2 ^ (shift + 7) = unat result + m * 2 ^ shift"
    proof -
      define t q where tq: "t = m mod 128" "q = m div 128"
      then have m: "m = t + 128 * q" by simp
      show ?thesis
        unfolding r tq [symmetric] power_add by (subst m) (simp add: algebra_simps)
    qed
    finally show ?thesis using False by (simp add: uleb_bytes.simps [of m] b_def)
  qed
qed

lemma read_write_uleb128:
  "read_uleb128 (uleb_bytes (unat n) @ rest) = Inr (n, length (uleb_bytes (unat n)))"
  using read_uleb128_loop_bytes [of 0 0 "unat n" rest 0] unsigned_less [of n, where ?'a = nat]
  by (simp add: read_uleb128_def)

interpretation uleb_codec: byte_codec "\<lambda>n. the (write_uleb128 [] n)" read_uleb128
  by unfold_locales (auto simp: write_uleb128_eq read_write_uleb128)

section \<open>Properties\<close>

text \<open>
  C40. CompactSize round trip: reading what \<open>write_compact_size\<close> appended returns the number and
  exactly the number of bytes \<open>compact_size_len\<close> predicts, whatever follows; and two
  concatenations of encodings are equal only if the sequences of numbers are.
\<close>

theorem compact_size_roundtrip:
  "read_compact_size (write_compact_size [] n @ rest) = Inr (n, compact_size_len n)
   \<and> read_compact_size_from (write_compact_size [] n @ rest) = (Inr n, rest)
   \<and> length (write_compact_size out n) = length out + compact_size_len n
   \<and> (concat (map (write_compact_size []) ns) = concat (map (write_compact_size []) ms) \<longleftrightarrow> ns = ms)"
  using compact_codec.stream_inj length_write_compact_size [of "[]" n]
  by (auto simp: read_write_compact_size read_compact_size_from_def length_write_compact_size)

text \<open>
  ULEB128 round trip: \<open>write_uleb128\<close> never hits its \<open>expect\<close>, appends \<open>uleb128_len\<close> bytes (at most
  ten), and \<open>read_uleb128\<close> reads back the number and that length, whatever follows.
\<close>

theorem uleb128_roundtrip:
  "\<exists>w. write_uleb128 out n = Some (out @ w) \<and> length w = uleb128_len n \<and> uleb128_len n \<le> 10
     \<and> read_uleb128 (w @ rest) = Inr (n, uleb128_len n)"
proof -
  have "uleb128_len n = length (uleb_bytes (unat n))"
    by (simp add: uleb128_len_def uleb128_len_loop_eq)
  then show ?thesis
    using u64_bytes_le_10 [of n] by (simp add: write_uleb128_eq read_write_uleb128)
qed

text \<open>
  ULEB128 decoding loses no bit: an accepted sequence lies within the buffer and the returned
  \<open>u64\<close> is the mathematical value of all its seven-bit groups, so no payload is shifted away.
\<close>

theorem read_uleb128_exact:
  assumes "read_uleb128 buf = Inr (v, n)"
  shows "0 < n \<and> n \<le> length buf \<and> unat v = uleb_value (take n buf)"
  using read_uleb128_loop_value [of buf 0 0 0 v n] assms by (simp add: read_uleb128_def)

theorem read_uleb128_exact_witness:
  "read_uleb128 [0xE5, 0x8E, 0x26, 7] = Inr (624485, 3) \<and> uleb_value [0xE5, 0x8E, 0x26] = 624485"
proof -
  have "read_uleb128 [0xE5, 0x8E, 0x26, 7] = Inr (624485, 3)" by code_simp
  from read_uleb128_exact [OF this] this show ?thesis by simp
qed

end
