(* ===== verification/ScriptNum.thy ===== *)
theory ScriptNum
  imports Prelude
begin

text \<open>
  Script integers of \<open>crates/rbitcoin-primitives/src/scriptnum.rs\<close>. An \<open>i64\<close> is an \<open>int\<close>; the
  operations stay inside the \<open>i64\<close> range for every \<open>max_len\<close> up to 7 (the code uses 4 and 5) and for
  every argument of \<open>scriptnum_encode\<close> other than \<open>i64::MIN\<close>, whose negation has no \<open>i64\<close> value.
\<close>

section \<open>Model\<close>

datatype scriptnum_error = Overflow | NonMinimal

function scriptnum_encode_loop :: "int \<Rightarrow> bytes" where
  "scriptnum_encode_loop n =
    (if 0 < n then word_of_int (n AND 0xFF) # scriptnum_encode_loop (drop_bit 8 n) else [])"
  by pat_completeness auto
termination
  by (relation "measure nat") (auto simp: drop_bit_eq_div)

definition scriptnum_encode :: "int \<Rightarrow> bytes" where
  "scriptnum_encode n =
    (if n = 0 then []
     else
       let neg = n < 0;
           out = scriptnum_encode_loop (if neg then - n else n)
       in if out \<noteq> [] \<and> last out AND 0x80 \<noteq> 0 then out @ [if neg then 0x80 else 0]
          else if neg then butlast out @ [last out OR 0x80]
          else out)"

definition scriptnum_is_minimal :: "bytes \<Rightarrow> bool" where
  "scriptnum_is_minimal vch =
    (if vch = [] then True
     else if vch ! (length vch - 1) AND 0x7F = 0
          \<and> (length vch \<le> 1 \<or> vch ! (length vch - 2) AND 0x80 = 0) then False
     else True)"

definition scriptnum_bits :: "bytes \<Rightarrow> int" where
  "scriptnum_bits v = fold (\<lambda>(i, b) result. result OR push_bit (8 * i) (uint b)) (enumerate 0 v) 0"

definition scriptnum_decode_width :: "bytes \<Rightarrow> nat \<Rightarrow> bool \<Rightarrow> scriptnum_error + int" where
  "scriptnum_decode_width v max_len require_minimal =
    (if length v > max_len then Inl Overflow
     else if require_minimal \<and> \<not> scriptnum_is_minimal v then Inl NonMinimal
     else if v = [] then Inr 0
     else
       let result = scriptnum_bits v
       in if last v AND 0x80 \<noteq> 0
          then Inr (- (result AND NOT (push_bit (8 * (length v - 1)) 0x80)))
          else Inr result)"

definition scriptnum_decode :: "bytes \<Rightarrow> bool \<Rightarrow> scriptnum_error + int" where
  "scriptnum_decode v require_minimal = scriptnum_decode_width v 4 require_minimal"

section \<open>Magnitudes\<close>

function le_min :: "nat \<Rightarrow> bytes" where
  "le_min n = (if n = 0 then [] else word_of_nat (n mod 256) # le_min (n div 256))"
  by pat_completeness auto
termination by (relation "measure id") auto

declare le_min.simps [simp del] scriptnum_encode_loop.simps [simp del]

lemma le_min_0 [simp]: "le_min 0 = []"
  by (simp add: le_min.simps)

lemma scriptnum_encode_loop_nat: "scriptnum_encode_loop (int m) = le_min m"
proof (induction m rule: le_min.induct)
  case (1 m)
  have "int m AND 0xFF = int (m mod 256)"
    using take_bit_eq_mask [of 8 "int m"] by (simp add: take_bit_eq_mod mask_eq_exp_minus_1 zmod_int)
  moreover have "drop_bit 8 (int m) = int (m div 256)"
    by (simp add: drop_bit_eq_div zdiv_int)
  ultimately show ?case
    using 1 by (simp add: scriptnum_encode_loop.simps [of "int m"] le_min.simps [of m])
qed

lemma of_le_le_min [simp]: "of_le (le_min m) = m"
  by (induction m rule: le_min.induct) (subst le_min.simps, auto)

lemma le_min_of_le: "v = [] \<or> last v \<noteq> 0 \<Longrightarrow> le_min (of_le v) = v"
proof (induction v)
  case Nil
  then show ?case by simp
next
  case (Cons b v)
  have rec: "le_min (of_le v) = v" using Cons by (cases v) auto
  have "of_le (b # v) \<noteq> 0"
  proof (cases v)
    case Nil
    then show ?thesis using Cons.prems by (simp add: unat_eq_0)
  next
    case (Cons c w)
    then have "of_le v \<noteq> 0" using rec by (metis le_min_0 list.distinct(1))
    then show ?thesis by simp
  qed
  then show ?case
    using rec by (subst le_min.simps) (simp add: word_unat_eq_iff unat_of_nat)
qed

lemma last_le_min: "m \<noteq> 0 \<Longrightarrow> le_min m \<noteq> [] \<and> last (le_min m) \<noteq> 0"
proof (induction m rule: le_min.induct)
  case (1 m)
  show ?case
  proof (cases "m div 256 = 0")
    case True
    then have "m < 256" by (simp add: div_eq_0_iff)
    then show ?thesis using 1(2) by (simp add: le_min.simps [of m] True word_unat_eq_iff)
  next
    case False
    then show ?thesis using 1 by (simp add: le_min.simps [of m])
  qed
qed

lemma scriptnum_bits_eq: "scriptnum_bits v = int (of_le v)"
proof (induction v rule: rev_induct)
  case Nil
  then show ?case by (simp add: scriptnum_bits_def)
next
  case (snoc b v)
  have "of_le v < 2 ^ (8 * length v)"
    using of_le_bound [of v] by (simp add: power_mult)
  then have "int (of_le v) < int (2 ^ (8 * length v))"
    by (simp only: of_nat_less_iff)
  then show ?case
    using snoc by (simp add: scriptnum_bits_def enumerate_append_eq or_push_bit_int of_le_append power_mult)
qed

section \<open>Value of an encoding\<close>

definition scriptnum_value :: "bytes \<Rightarrow> int" where
  "scriptnum_value v =
    (if v = [] then 0
     else
       let m = int (of_le (butlast v) + 256 ^ (length v - 1) * (unat (last v) mod 128))
       in if unat (last v) < 128 then m else - m)"

lemma and_not_80_top:
  "128 \<le> b \<Longrightarrow> b < 256 \<Longrightarrow> lo < 2 ^ k \<Longrightarrow> 0 \<le> lo \<Longrightarrow>
   (lo + 2 ^ k * b) AND NOT (push_bit k 0x80) = lo + 2 ^ k * (b - 128)" for lo b :: int
proof -
  assume b: "128 \<le> b" "b < 256" and lo: "lo < 2 ^ k" "0 \<le> lo"
  have top: "b - 128 < 2 ^ 7" "0 \<le> b - 128" using b by auto
  let ?y = "lo + 2 ^ k * (b - 128)"
  have y: "?y < 2 ^ (k + 7)" "0 \<le> ?y"
  proof -
    have "lo + 2 ^ k * (b - 128) < 2 ^ k + 2 ^ k * (b - 128)" using lo by simp
    also have "\<dots> = 2 ^ k * (b - 127)" by (simp add: algebra_simps)
    also have "\<dots> \<le> 2 ^ k * 128" using b by (intro mult_left_mono) auto
    finally show "?y < 2 ^ (k + 7)" by (simp add: power_add)
    show "0 \<le> ?y" using lo top by simp
  qed
  then have "?y = take_bit (k + 7) ?y" by (simp add: take_bit_int_eq_self)
  then have dis: "\<not> bit ?y n \<or> \<not> bit (push_bit (k + 7) 1 :: int) n" for n
    by (metis bit_take_bit_iff bit_push_bit_iff not_le)
  have e: "push_bit k 0x80 = (push_bit (k + 7) 1 :: int)"
    by (simp add: push_bit_eq_mult power_add)
  have "lo + 2 ^ k * b = ?y + push_bit (k + 7) 1"
    by (simp add: push_bit_eq_mult power_add algebra_simps)
  also have "\<dots> = ?y OR push_bit (k + 7) 1" using dis by (rule disjunctive_add)
  finally have "(lo + 2 ^ k * b) AND NOT (push_bit k 0x80) = (?y OR push_bit (k + 7) 1) AND NOT (push_bit (k + 7) 1)"
    unfolding e by simp
  also have "\<dots> = ?y"
    using dis by (intro bit_eqI) (auto simp: bit_and_iff bit_or_iff bit_not_iff)
  finally show ?thesis .
qed

lemma scriptnum_decode_width_eq:
  "scriptnum_decode_width v max_len require_minimal =
    (if length v > max_len then Inl Overflow
     else if require_minimal \<and> \<not> scriptnum_is_minimal v then Inl NonMinimal
     else Inr (scriptnum_value v))"
proof (cases v rule: rev_exhaust)
  case Nil
  then show ?thesis by (simp add: scriptnum_decode_width_def scriptnum_value_def)
next
  case (snoc xs c)
  have of: "scriptnum_bits v = int (of_le xs) + 2 ^ (8 * length xs) * uint c"
    by (simp add: snoc scriptnum_bits_eq of_le_append power_mult)
  have "scriptnum_bits v AND NOT (push_bit (8 * length xs) 0x80)
      = int (of_le xs) + 2 ^ (8 * length xs) * (uint c - 128)" if "128 \<le> unat c"
  proof -
    have "of_le xs < 2 ^ (8 * length xs)" using of_le_bound [of xs] by (simp add: power_mult)
    then have "int (of_le xs) < int (2 ^ (8 * length xs))" by (simp only: of_nat_less_iff)
    moreover have "128 \<le> uint c"
      using that by (metis uint_nat of_nat_le_iff of_nat_numeral)
    moreover have "uint c < 256"
      using unsigned_less [of c, where ?'a = int] by simp
    ultimately show ?thesis unfolding of by (intro and_not_80_top) auto
  qed
  moreover have "int (unat c mod 128) = uint c - 128" if "128 \<le> unat c"
  proof -
    have "unat c mod 128 = unat c - 128"
      using that unat_u8_less [of c] by (simp add: le_mod_geq)
    then show ?thesis using that by (simp add: of_nat_diff)
  qed
  ultimately show ?thesis
    using of unat_u8_less [of c]
    by (auto simp: scriptnum_decode_width_def scriptnum_value_def snoc and_80_eq_0_iff power_mult Let_def)
qed

section \<open>Minimal encodings\<close>

lemma scriptnum_is_minimal_snoc:
  "scriptnum_is_minimal (xs @ [c]) \<longleftrightarrow>
    unat c mod 128 \<noteq> 0 \<or> (xs \<noteq> [] \<and> 128 \<le> unat (last xs))"
proof -
  have "c AND 0x7F = 0 \<longleftrightarrow> unat c mod 128 = 0"
    by (metis unat_and_7f unat_eq_0)
  then show ?thesis
    by (cases xs rule: rev_exhaust)
      (auto simp: scriptnum_is_minimal_def and_80_eq_0_iff nth_append)
qed

lemma or_80_unat: "unat b < 128 \<Longrightarrow> unat (b OR 0x80 :: u8) = unat b + 128"
  using unat_or_push_bit [of b 7 1] by simp

lemma scriptnum_encode_eq:
  "scriptnum_encode n =
    (let out = le_min (nat \<bar>n\<bar>)
     in if n = 0 then []
        else if 128 \<le> unat (last out) then out @ [if n < 0 then 0x80 else 0]
        else if n < 0 then butlast out @ [last out OR 0x80]
        else out)"
proof (cases "n = 0")
  case True
  then show ?thesis by (simp add: scriptnum_encode_def)
next
  case False
  have "scriptnum_encode_loop (if n < 0 then - n else n) = le_min (nat \<bar>n\<bar>)"
    using scriptnum_encode_loop_nat [of "nat \<bar>n\<bar>"] by (auto split: if_splits)
  then show ?thesis
    using False last_le_min [of "nat \<bar>n\<bar>"]
    by (auto simp: scriptnum_encode_def Let_def and_80_eq_0_iff not_less)
qed

text \<open>The nonzero case of the encoder, in terms of the top byte \<open>b\<close> of the magnitude.\<close>

lemma scriptnum_encode_cases:
  assumes "n \<noteq> 0"
  obtains (hi) xs b where "nat \<bar>n\<bar> = of_le xs + 256 ^ length xs * unat b" "128 \<le> unat b"
      "scriptnum_encode n = (xs @ [b]) @ [if n < 0 then 0x80 else 0]"
  | (lo) xs b where "nat \<bar>n\<bar> = of_le xs + 256 ^ length xs * unat b" "unat b < 128" "b \<noteq> 0"
      "scriptnum_encode n = xs @ [if n < 0 then b OR 0x80 else b]"
proof -
  let ?out = "le_min (nat \<bar>n\<bar>)"
  define xs b where xb: "xs = butlast ?out" "b = last ?out"
  have ne: "?out \<noteq> []" "b \<noteq> 0" using last_le_min [of "nat \<bar>n\<bar>"] assms xb by auto
  then have out: "?out = xs @ [b]" using xb by simp
  then have "of_le (xs @ [b]) = nat \<bar>n\<bar>" by (metis of_le_le_min)
  then have m: "nat \<bar>n\<bar> = of_le xs + 256 ^ length xs * unat b" by (simp add: of_le_append)
  show thesis
  proof (cases "unat b < 128")
    case True
    with assms have "scriptnum_encode n = xs @ [if n < 0 then b OR 0x80 else b]"
      by (simp add: scriptnum_encode_eq out)
    with m True ne show thesis using lo by blast
  next
    case False
    with assms have "scriptnum_encode n = (xs @ [b]) @ [if n < 0 then 0x80 else 0]"
      by (simp add: scriptnum_encode_eq out)
    with m False show thesis using hi by force
  qed
qed

lemma scriptnum_value_encode: "scriptnum_value (scriptnum_encode n) = n"
proof (cases "n = 0")
  case True
  then show ?thesis by (simp add: scriptnum_value_def scriptnum_encode_def)
next
  case False
  have n: "(if n < 0 then - int (nat \<bar>n\<bar>) else int (nat \<bar>n\<bar>)) = n" by simp
  from False show ?thesis
  proof (cases rule: scriptnum_encode_cases)
    case (hi xs b)
    then have "scriptnum_value (scriptnum_encode n) = (if n < 0 then - int (nat \<bar>n\<bar>) else int (nat \<bar>n\<bar>))"
      unfolding hi(1) hi(3) by (simp add: scriptnum_value_def of_le_append butlast_append)
    then show ?thesis unfolding n .
  next
    case (lo xs b)
    then have "scriptnum_value (scriptnum_encode n) = (if n < 0 then - int (nat \<bar>n\<bar>) else int (nat \<bar>n\<bar>))"
      unfolding lo(1) lo(4) by (simp add: scriptnum_value_def or_80_unat)
    then show ?thesis unfolding n .
  qed
qed

lemma scriptnum_encode_minimal: "scriptnum_is_minimal (scriptnum_encode n)"
proof (cases "n = 0")
  case True
  then show ?thesis by (simp add: scriptnum_is_minimal_def scriptnum_encode_def)
next
  case False
  then show ?thesis
  proof (cases rule: scriptnum_encode_cases)
    case (hi xs b)
    then show ?thesis unfolding hi(3) scriptnum_is_minimal_snoc by simp
  next
    case (lo xs b)
    then have "unat b \<noteq> 0" by (simp add: unat_eq_0)
    then show ?thesis using lo unfolding lo(4) scriptnum_is_minimal_snoc by (auto simp: or_80_unat)
  qed
qed

lemma scriptnum_encode_length:
  assumes "\<bar>n\<bar> < 2 ^ (8 * k + 7)"
  shows "length (scriptnum_encode n) \<le> k + 1"
proof (cases "n = 0")
  case True
  then show ?thesis by (simp add: scriptnum_encode_def)
next
  case False
  have bound: "nat \<bar>n\<bar> < 256 ^ k * 128"
    using assms by (simp add: power_add power_mult nat_less_iff)
  from False show ?thesis
  proof (cases rule: scriptnum_encode_cases)
    case (hi xs b)
    have "256 ^ length xs * 128 \<le> 256 ^ length xs * unat b" using hi by simp
    also have "\<dots> < 256 ^ k * 128" using bound hi by simp
    finally have "256 ^ length xs < (256 :: nat) ^ k" by simp
    then have "length xs < k" by (simp only: power_strict_increasing_iff)
    then show ?thesis unfolding hi(3) by simp
  next
    case (lo xs b)
    have "1 \<le> unat b" using lo by (simp add: Suc_le_eq unat_gt_0)
    then have "256 ^ length xs * 1 \<le> 256 ^ length xs * unat b" by (intro mult_le_mono) auto
    also have "\<dots> < 256 ^ k * 128" using bound lo by simp
    also have "\<dots> < 256 ^ Suc k" by simp
    finally have "256 ^ length xs < (256 :: nat) ^ Suc k" by simp
    then have "length xs < Suc k" by (simp only: power_strict_increasing_iff)
    then show ?thesis unfolding lo(4) by simp
  qed
qed

lemma abs_scriptnum_value:
  "\<bar>scriptnum_value (xs @ [c])\<bar> = int (of_le xs + 256 ^ length xs * (unat c mod 128))"
proof -
  have "\<bar>if b then int m else - int m\<bar> = int m" for b m by simp
  then show ?thesis by (simp add: scriptnum_value_def Let_def del: of_nat_add of_nat_mult)
qed

lemma scriptnum_value_neg:
  "scriptnum_value (xs @ [c]) < 0 \<longleftrightarrow> 128 \<le> unat c \<and> of_le xs + 256 ^ length xs * (unat c mod 128) \<noteq> 0"
proof -
  have "(if b then int m else - int m) < 0 \<longleftrightarrow> \<not> b \<and> m \<noteq> 0" for b m by simp
  then show ?thesis
    unfolding scriptnum_value_def Let_def by (simp add: not_less del: of_nat_add of_nat_mult)
qed

lemma scriptnum_value_bound: "length v \<le> k + 1 \<Longrightarrow> \<bar>scriptnum_value v\<bar> < 2 ^ (8 * k + 7)"
proof (cases v rule: rev_exhaust)
  case Nil
  then show ?thesis by (simp add: scriptnum_value_def)
next
  case (snoc xs c)
  assume "length v \<le> k + 1"
  then have len: "length xs \<le> k" using snoc by simp
  let ?t = "unat c mod 128"
  have "of_le xs + 256 ^ length xs * ?t < 256 ^ length xs * (?t + 1)"
    using of_le_bound [of xs] by simp
  also have "\<dots> \<le> 256 ^ length xs * 128"
    using pos_mod_bound [of 128 "int (unat c)"] by (intro mult_le_mono) (auto simp: Suc_le_eq)
  also have "\<dots> \<le> 256 ^ k * 128" using len by (intro mult_le_mono power_increasing) auto
  finally have "int (of_le xs + 256 ^ length xs * ?t) < int (256 ^ k * 128)"
    by (simp only: of_nat_less_iff)
  then show ?thesis
    unfolding snoc abs_scriptnum_value by (simp add: power_add power_mult)
qed

lemma of_le_pos: "v \<noteq> [] \<Longrightarrow> last v \<noteq> 0 \<Longrightarrow> 0 < of_le v"
  by (metis le_min_0 le_min_of_le neq0_conv)

lemma scriptnum_encode_value:
  assumes "scriptnum_is_minimal v"
  shows "scriptnum_encode (scriptnum_value v) = v"
proof (cases v rule: rev_exhaust)
  case Nil
  then show ?thesis by (simp add: scriptnum_value_def scriptnum_encode_def)
next
  case (snoc xs c)
  let ?t = "unat c mod 128"
  define n where "n = scriptnum_value v"
  have mag: "nat \<bar>n\<bar> = of_le xs + 256 ^ length xs * ?t"
    unfolding n_def snoc abs_scriptnum_value by (rule nat_int)
  have c: "unat c = (if unat c < 128 then ?t else ?t + 128)"
    using unat_u8_less [of c] by (simp add: le_mod_geq)
  have min: "?t \<noteq> 0 \<or> (xs \<noteq> [] \<and> 128 \<le> unat (last xs))"
    using assms by (simp add: snoc scriptnum_is_minimal_snoc)
  then have pos: "nat \<bar>n\<bar> \<noteq> 0"
    unfolding mag using of_le_pos [of xs] by (cases "last xs = 0") auto
  then have neg: "n < 0 \<longleftrightarrow> 128 \<le> unat c"
    unfolding n_def snoc scriptnum_value_neg mag [unfolded n_def snoc] by auto
  show ?thesis
  proof (cases "?t = 0")
    case True
    then have "nat \<bar>n\<bar> = of_le xs" using mag by simp
    then have "le_min (nat \<bar>n\<bar>) = xs"
      using min True le_min_of_le [of xs] by (cases "last xs = 0") auto
    moreover have "c = (if n < 0 then 0x80 else 0)"
      using c True by (auto simp: neg word_unat_eq_iff)
    ultimately have "scriptnum_encode n = xs @ [c]"
      using pos min True by (simp add: scriptnum_encode_eq)
    then show ?thesis by (simp add: n_def snoc)
  next
    case False
    let ?b = "word_of_nat ?t :: u8"
    have b: "unat ?b = ?t" by (simp add: less_trans [OF mod_less_divisor])
    have "?b \<noteq> 0" using False b by (metis unat_0)
    then have L: "le_min (nat \<bar>n\<bar>) = xs @ [?b]"
      using le_min_of_le [of "xs @ [?b]"] b unfolding mag by (simp add: of_le_append)
    have "\<not> 128 \<le> ?t" by (simp add: not_le)
    then have "scriptnum_encode n = (if n < 0 then xs @ [?b OR 0x80] else xs @ [?b])"
      using pos b unfolding scriptnum_encode_eq Let_def L by simp
    also have "\<dots> = xs @ [c]"
      using c b by (auto simp: neg word_unat_eq_iff or_80_unat)
    finally have "scriptnum_encode n = xs @ [c]" .
    then show ?thesis by (simp add: n_def snoc)
  qed
qed

section \<open>Properties\<close>



text \<open>
  Canonicity: under the minimality rule every number has exactly one accepted encoding, the one
  \<open>scriptnum_encode\<close> produces; and a decoded number is below \<open>2 ^ (8 k - 1)\<close> in magnitude, so no
  arithmetic on two decoded operands leaves the \<open>i64\<close> range.
\<close>

theorem scriptnum_decode_canonical:
  assumes "scriptnum_decode_width v (k + 1) require_minimal = Inr n"
  shows "\<bar>n\<bar> < 2 ^ (8 * k + 7) \<and> (require_minimal \<longrightarrow> v = scriptnum_encode n)"
  using assms scriptnum_value_bound [of v k] scriptnum_encode_value [of v]
  by (auto simp: scriptnum_decode_width_eq split: if_splits)

theorem scriptnum_decode_canonical_witness:
  "scriptnum_decode_width [0x80, 0x00] (1 + 1) True = Inr 128 \<and> [0x80, 0x00] = scriptnum_encode 128"
proof -
  have "scriptnum_decode_width [0x80, 0x00] (1 + 1) True = Inr 128" by code_simp
  with scriptnum_decode_canonical [OF this] show ?thesis by simp
qed

end
