(* ===== verification/Merkle.thy ===== *)
theory Merkle
  imports Prelude
begin

text \<open>
  Block merkle trees of \<open>crates/rbitcoin-primitives/src/merkle.rs\<close>. SHA-256 (crate
  \<open>bitcoin_hashes\<close>) is the parameter \<open>sha256\<close>: feeding an engine twice and finishing it is the hash of
  the concatenation. Nothing is assumed about it: where collision resistance matters the theorem
  exhibits the collision.
\<close>

section \<open>Model\<close>

definition hash256_concat :: "(bytes \<Rightarrow> bytes) \<Rightarrow> bytes \<Rightarrow> bytes \<Rightarrow> bytes" where
  "hash256_concat sha256 a b = sha256 (sha256 (a @ b))"

text \<open>\<open>chunks_exact(2)\<close> of a slice.\<close>

fun pairs :: "'a list \<Rightarrow> ('a \<times> 'a) list" where
  "pairs (a # b # rest) = (a, b) # pairs rest"
| "pairs _ = []"

definition merkle_pad :: "'a list \<Rightarrow> 'a list" where
  "merkle_pad level = (if length level mod 2 = 1 then level @ [level ! (length level - 1)] else level)"

definition merkle_parent_level :: "(bytes \<Rightarrow> bytes) \<Rightarrow> bytes list \<Rightarrow> bytes list" where
  "merkle_parent_level sha256 level = map (\<lambda>(a, b). hash256_concat sha256 a b) (pairs (merkle_pad level))"

lemma length_pairs [simp]: "length (pairs xs) = length xs div 2"
  by (induction xs rule: pairs.induct) auto

lemma length_merkle_pad: "length (merkle_pad xs) = 2 * ((length xs + 1) div 2)"
  by (auto simp: merkle_pad_def) presburger+

lemma length_merkle_parent_level [simp]:
  "length (merkle_parent_level sha xs) = (length xs + 1) div 2"
  by (simp add: merkle_parent_level_def length_merkle_pad)

function merkle_root_loop :: "(bytes \<Rightarrow> bytes) \<Rightarrow> bytes list \<Rightarrow> bool \<Rightarrow> bytes \<times> bool" where
  "merkle_root_loop sha256 level mutated =
    (if 1 < length level
     then merkle_root_loop sha256 (merkle_parent_level sha256 level)
            (mutated \<or> list_ex (\<lambda>(a, b). a = b) (pairs level))
     else (level ! 0, mutated))"
  by pat_completeness auto
termination by (relation "measure (\<lambda>(_, level, _). length level)") auto

definition merkle_root_mutated :: "(bytes \<Rightarrow> bytes) \<Rightarrow> bytes list \<Rightarrow> bytes \<times> bool" where
  "merkle_root_mutated sha256 leaves =
    (if leaves = [] then (replicate 32 0, False) else merkle_root_loop sha256 leaves False)"

definition merkle_root_from_txids :: "(bytes \<Rightarrow> bytes) \<Rightarrow> bytes list \<Rightarrow> bytes" where
  "merkle_root_from_txids sha256 leaves = fst (merkle_root_mutated sha256 leaves)"

function merkle_branch :: "(bytes \<Rightarrow> bytes) \<Rightarrow> bytes list \<Rightarrow> nat \<Rightarrow> bytes list" where
  "merkle_branch sha256 level index =
    (if 1 < length level
     then level ! min (index XOR 1) (length level - 1)
            # merkle_branch sha256 (merkle_parent_level sha256 level) (index div 2)
     else [])"
  by pat_completeness auto
termination by (relation "measure (\<lambda>(_, level, _). length level)") auto

definition merkle_root_from_branch :: "(bytes \<Rightarrow> bytes) \<Rightarrow> bytes \<Rightarrow> bytes list \<Rightarrow> nat \<Rightarrow> bytes" where
  "merkle_root_from_branch sha256 leaf branch index =
    fold (\<lambda>(depth, sibling) acc.
        if drop_bit depth index AND 1 = 0 then hash256_concat sha256 acc sibling
        else hash256_concat sha256 sibling acc)
      (enumerate 0 branch) leaf"

section \<open>Levels\<close>

declare merkle_root_loop.simps [simp del] merkle_branch.simps [simp del]

lemma nth_pairs: "i < length xs div 2 \<Longrightarrow> pairs xs ! i = (xs ! (2 * i), xs ! (2 * i + 1))"
proof (induction xs arbitrary: i rule: pairs.induct)
  case (1 a b rest)
  then show ?case by (cases i) auto
qed auto

lemma nth_merkle_parent_level:
  assumes "i < (length xs + 1) div 2"
  shows "merkle_parent_level sha xs ! i =
    hash256_concat sha (xs ! (2 * i)) (xs ! min (2 * i + 1) (length xs - 1))"
proof -
  have "merkle_parent_level sha xs ! i = (\<lambda>(a, b). hash256_concat sha a b) (pairs (merkle_pad xs) ! i)"
    unfolding merkle_parent_level_def using assms by (intro nth_map) (simp add: length_merkle_pad)
  also have "pairs (merkle_pad xs) ! i = (merkle_pad xs ! (2 * i), merkle_pad xs ! (2 * i + 1))"
    using assms by (intro nth_pairs) (simp add: length_merkle_pad)
  also have "merkle_pad xs ! (2 * i) = xs ! (2 * i)"
    using assms by (auto simp: merkle_pad_def nth_append)
  also have "merkle_pad xs ! (2 * i + 1) = xs ! min (2 * i + 1) (length xs - 1)"
  proof (cases "2 * i + 1 < length xs")
    case True
    then show ?thesis by (auto simp: merkle_pad_def nth_append min_def)
  next
    case False
    with assms have "length xs = 2 * i + 1" by simp
    then show ?thesis by (simp add: merkle_pad_def nth_append min_def)
  qed
  finally show ?thesis by simp
qed

section \<open>Branches\<close>

lemma fold_branch_shift:
  "fold (\<lambda>(depth, sibling) acc. if drop_bit depth (index :: nat) AND 1 = 0 then f acc sibling else f sibling acc)
     (enumerate (Suc n) bs) x =
   fold (\<lambda>(depth, sibling) acc. if drop_bit depth (index div 2) AND 1 = 0 then f acc sibling else f sibling acc)
     (enumerate n bs) x"
  by (induction bs arbitrary: n x) (auto simp: drop_bit_Suc)

lemma merkle_root_from_branch_Cons:
  "merkle_root_from_branch sha leaf (s # bs) index =
   merkle_root_from_branch sha (if even index then hash256_concat sha leaf s else hash256_concat sha s leaf)
     bs (index div 2)"
  by (simp add: merkle_root_from_branch_def fold_branch_shift [unfolded One_nat_def]
      and_Suc_0_eq even_iff_mod_2_eq_zero fold_branch_shift [unfolded One_nat_def and_Suc_0_eq])

lemma merkle_branch_folds:
  "index < length level \<Longrightarrow>
   merkle_root_from_branch sha (level ! index) (merkle_branch sha level index) index
     = fst (merkle_root_loop sha level mutated)"
proof (induction sha level index arbitrary: mutated rule: merkle_branch.induct)
  case (1 sha level index)
  show ?case
  proof (cases "1 < length level")
    case True
    have half: "index div 2 < (length level + 1) div 2" using 1(2) by simp
    have "(if even index then hash256_concat sha (level ! index) (level ! min (index XOR 1) (length level - 1))
           else hash256_concat sha (level ! min (index XOR 1) (length level - 1)) (level ! index))
        = merkle_parent_level sha level ! (index div 2)"
      unfolding nth_merkle_parent_level [OF half] using 1(2)
      by (cases "even index") (auto simp: xor_Suc_0_eq elim!: evenE oddE)
    then show ?thesis
      using 1(1) [OF True] half True
      by (simp add: merkle_branch.simps [of sha level] merkle_root_loop.simps [of sha level]
          merkle_root_from_branch_Cons del: One_nat_def)
  next
    case False
    then have "level ! index = level ! 0" using 1(2) by (cases level) auto
    then show ?thesis using False
      by (simp add: merkle_branch.simps [of sha level] merkle_root_loop.simps [of sha level]
          merkle_root_from_branch_def)
  qed
qed

section \<open>Mutation\<close>

definition hash_collision :: "(bytes \<Rightarrow> bytes) \<Rightarrow> bool" where
  "hash_collision sha = (\<exists>a b c d. hash256_concat sha a b = hash256_concat sha c d \<and> (a, b) \<noteq> (c, d))"

lemma merkle_root_loop_flag: "snd (merkle_root_loop sha level True)"
proof -
  have "snd (merkle_root_loop sha level m)" if m for m
    using that
  proof (induction sha level m rule: merkle_root_loop.induct)
    case (1 sha level mutated)
    then show ?case by (cases "1 < length level") (auto simp: merkle_root_loop.simps [of sha level])
  qed
  then show ?thesis by simp
qed

lemma merkle_root_loop_unmutated:
  assumes "1 < length level" "merkle_root_loop sha level False = (r, False)"
  shows "\<not> list_ex (\<lambda>(a, b). a = b) (pairs level)"
    "merkle_root_loop sha (merkle_parent_level sha level) False = (r, False)"
proof -
  have e: "merkle_root_loop sha (merkle_parent_level sha level) (list_ex (\<lambda>(a, b). a = b) (pairs level)) = (r, False)"
    using assms by (simp add: merkle_root_loop.simps [of sha level])
  then show n: "\<not> list_ex (\<lambda>(a, b). a = b) (pairs level)"
    using merkle_root_loop_flag [of sha "merkle_parent_level sha level"] by (metis snd_conv)
  show "merkle_root_loop sha (merkle_parent_level sha level) False = (r, False)"
    using e n by simp
qed

lemma pairs_inj: "even (length xs) \<Longrightarrow> even (length ys) \<Longrightarrow> pairs xs = pairs ys \<Longrightarrow> xs = ys"
proof (induction xs arbitrary: ys rule: pairs.induct)
  case (1 a b rest)
  then show ?case by (cases ys rule: pairs.cases) auto
next
  case "2_1"
  then show ?case by (cases ys rule: pairs.cases) auto
qed simp

lemma parent_level_inj:
  assumes "merkle_parent_level sha xs = merkle_parent_level sha ys"
  shows "merkle_pad xs = merkle_pad ys \<or> hash_collision sha"
proof (rule disjCI)
  assume no: "\<not> hash_collision sha"
  have "inj (\<lambda>(a, b). hash256_concat sha a b)"
  proof (rule injI)
    fix p q
    assume eq: "(case p of (a, b) \<Rightarrow> hash256_concat sha a b) = (case q of (a, b) \<Rightarrow> hash256_concat sha a b)"
    obtain a b c d where pq: "p = (a, b)" "q = (c, d)" by (cases p; cases q)
    with eq have "hash256_concat sha a b = hash256_concat sha c d" by simp
    then show "p = q" using no pq unfolding hash_collision_def by blast
  qed
  then have "pairs (merkle_pad xs) = pairs (merkle_pad ys)"
    using assms by (simp add: merkle_parent_level_def inj_map_eq_map)
  then show "merkle_pad xs = merkle_pad ys"
    by (rule pairs_inj [rotated 2]) (simp_all add: length_merkle_pad)
qed

text \<open>An unmutated level of even length is not the padding of a level of odd length.\<close>

lemma padded_pair:
  assumes "odd (length xs)" "1 < length xs"
  shows "list_ex (\<lambda>(a, b). a = b) (pairs (merkle_pad xs))"
proof -
  obtain k where k: "length xs = 2 * k + 1" using assms by (auto elim: oddE)
  then have "pairs (merkle_pad xs) ! k = (xs ! (2 * k), xs ! (2 * k))"
    by (subst nth_pairs) (auto simp: merkle_pad_def nth_append)
  moreover have "k < length (pairs (merkle_pad xs))" using k by (simp add: length_merkle_pad)
  ultimately show ?thesis
    by (auto simp: list_ex_iff in_set_conv_nth intro!: bexI [where x = "pairs (merkle_pad xs) ! k"])
qed

lemma merkle_pad_inj:
  assumes "merkle_pad xs = merkle_pad ys" "1 < length xs" "1 < length ys"
    "\<not> list_ex (\<lambda>(a, b). a = b) (pairs xs)" "\<not> list_ex (\<lambda>(a, b). a = b) (pairs ys)"
  shows "xs = ys"
proof -
  have ev: "merkle_pad zs = zs" if "even (length zs)" for zs :: "'a list"
    using that by (auto simp: merkle_pad_def)
  have od: "odd (length zs) \<Longrightarrow> \<exists>z. merkle_pad zs = zs @ [z]" for zs :: "'a list"
    by (auto simp: merkle_pad_def odd_iff_mod_2_eq_one)
  have same: "even (length xs) \<longleftrightarrow> even (length ys)"
    using assms padded_pair [of xs] padded_pair [of ys] by (metis ev)
  show ?thesis
  proof (cases "even (length xs)")
    case True
    then show ?thesis using same assms(1) ev by metis
  next
    case False
    then obtain x y where "xs @ [x] = ys @ [y]" using same assms(1) od by metis
    then show ?thesis by simp
  qed
qed

lemma merkle_root_loop_inj:
  "merkle_root_loop sha xs False = (r, False) \<Longrightarrow> merkle_root_loop sha ys False = (r, False) \<Longrightarrow>
   length (merkle_branch sha xs 0) = length (merkle_branch sha ys 0) \<Longrightarrow> xs \<noteq> [] \<Longrightarrow> ys \<noteq> [] \<Longrightarrow>
   xs = ys \<or> hash_collision sha"
proof (induction sha xs "0 :: nat" arbitrary: ys rule: merkle_branch.induct)
  case (1 sha xs)
  show ?case
  proof (cases "1 < length xs")
    case True
    then have ly: "1 < length ys"
      using 1(4) by (auto simp: merkle_branch.simps [of sha xs] merkle_branch.simps [of sha ys] split: if_splits)
    have "merkle_parent_level sha xs = merkle_parent_level sha ys \<or> hash_collision sha"
    proof (rule 1(1) [OF True])
      show "length (merkle_branch sha (merkle_parent_level sha xs) 0) =
          length (merkle_branch sha (merkle_parent_level sha ys) 0)"
        using 1(4) True ly by (simp add: merkle_branch.simps [of sha xs] merkle_branch.simps [of sha ys])
      show "merkle_parent_level sha xs \<noteq> []" "merkle_parent_level sha ys \<noteq> []"
        using True ly by (auto simp flip: length_greater_0_conv)
    qed (use 1 True ly merkle_root_loop_unmutated(2) in auto)
    then show ?thesis
      using parent_level_inj [of sha xs ys] merkle_pad_inj [of xs ys] True ly
        merkle_root_loop_unmutated(1) [OF True 1(2)] merkle_root_loop_unmutated(1) [OF ly 1(3)] by blast
  next
    case False
    then have "\<not> 1 < length ys"
      using 1(4) by (auto simp: merkle_branch.simps [of sha xs] merkle_branch.simps [of sha ys] split: if_splits)
    with False 1(5,6) obtain x y where "xs = [x]" "ys = [y]" by (cases xs; cases ys) auto
    with 1(2,3) show ?thesis by (simp add: merkle_root_loop.simps)
  qed
qed

lemma merkle_root_loop_fst: "fst (merkle_root_loop sha level m) = fst (merkle_root_loop sha level False)"
proof (induction sha level m rule: merkle_root_loop.induct)
  case (1 sha level mutated)
  show ?case
  proof (cases "1 < length level")
    case True
    have "fst (merkle_root_loop sha level b) =
        fst (merkle_root_loop sha (merkle_parent_level sha level) (b \<or> list_ex (\<lambda>(a, b). a = b) (pairs level)))" for b
      using True by (simp add: merkle_root_loop.simps [of sha level])
    then show ?thesis using 1 True by metis
  qed (simp add: merkle_root_loop.simps [of sha level])
qed

section \<open>Properties\<close>





text \<open>
  The duplicate-tail attack is flagged: appending the last hash of an odd list of at least three
  leaves keeps the root, and sets the mutation flag.
\<close>

theorem merkle_duplicate_tail_flagged:
  assumes "odd (length xs)" "1 < length xs"
  shows "merkle_root_mutated sha256 (xs @ [last xs]) = (merkle_root_from_txids sha256 xs, True)"
proof -
  let ?ys = "xs @ [last xs]"
  have "xs \<noteq> []" using assms by auto
  then have pad: "merkle_pad xs = ?ys" "merkle_pad ?ys = ?ys"
    using assms by (auto simp: merkle_pad_def odd_iff_mod_2_eq_one last_conv_nth)
  have parent: "merkle_parent_level sha256 ?ys = merkle_parent_level sha256 xs"
    unfolding merkle_parent_level_def pad ..
  have dup: "list_ex (\<lambda>(a, b). a = b) (pairs ?ys)"
    using padded_pair [OF assms] unfolding pad .
  let ?p = "merkle_parent_level sha256 xs"
  have "merkle_root_mutated sha256 ?ys = merkle_root_loop sha256 ?p True"
    using assms dup parent \<open>xs \<noteq> []\<close>
    by (simp add: merkle_root_mutated_def merkle_root_loop.simps [of sha256 ?ys])
  moreover have "fst (merkle_root_loop sha256 ?p True) = merkle_root_from_txids sha256 xs"
  proof -
    have "merkle_root_from_txids sha256 xs = fst (merkle_root_loop sha256 ?p (list_ex (\<lambda>(a, b). a = b) (pairs xs)))"
      using assms by (auto simp: merkle_root_from_txids_def merkle_root_mutated_def
          merkle_root_loop.simps [of sha256 xs])
    then show ?thesis by (metis merkle_root_loop_fst)
  qed
  ultimately show ?thesis
    using merkle_root_loop_flag [of sha256 ?p] by (metis prod.collapse)
qed

theorem merkle_duplicate_tail_flagged_witness:
  "merkle_root_mutated (\<lambda>x. x) [[1], [2], [3], [3]] = (merkle_root_from_txids (\<lambda>x. x) [[1], [2], [3]], True)"
  using merkle_duplicate_tail_flagged [of "[[1], [2], [3]]" "\<lambda>x. x"] by simp

end
