(* ===== verification/Errors.thy ===== *)
theory Errors
  imports Prelude "HOL-Library.Sublist"
begin

text \<open>
  The consensus error type with its public reject reasons
  (\<open>crates/rbitcoin-consensus/src/error.rs\<close>) and the \<open>--trust-peer\<close> collector that turns
  warn-and-apply faults into warnings (\<open>trust.rs\<close>). The thread-local cells of the collector are the
  record \<open>trust_state\<close>, threaded explicitly; a check that may call \<open>soften\<close> is a state transformer
  that returns a result.
\<close>

section \<open>Errors\<close>

datatype consensus_error =
    Internal string
  | BadHeader string
  | BadBlock string
  | BadTx string
  | Script string
  | MissingPrevout
  | PrevoutSpent
  | InvalidPow
  | BadPrev
  | BadVersion u32
  | Cancelled
  | Panic string

text \<open>
  \<open>Panic\<close> is not a variant of the Rust enum: it is the outcome of a slice index or an \<open>expect\<close> that
  unwinds the thread, kept as a value so that its absence can be stated.
\<close>

type_synonym 'a consensus = "consensus_error + 'a"

text \<open>Formatting of the standard library: \<open>{:02x}\<close> of a byte and \<open>{:08x}\<close> of an \<open>i32\<close>.\<close>

definition hex_digit :: "nat \<Rightarrow> char" where
  "hex_digit n = (if n < 10 then char_of (48 + n) else char_of (87 + n))"

definition hex2 :: "u8 \<Rightarrow> string" where
  "hex2 b = [hex_digit (unat b div 16), hex_digit (unat b mod 16)]"

definition hex8 :: "u32 \<Rightarrow> string" where
  "hex8 v = concat (map (\<lambda>i. hex2 (ucast (drop_bit (8 * i) v))) [3, 2, 1, 0])"

definition starts_with :: "'a list \<Rightarrow> 'a list \<Rightarrow> bool" where
  "starts_with s p = (take (length p) s = p)"

fun contains :: "'a list \<Rightarrow> 'a list \<Rightarrow> bool" where
  "contains [] p = (p = [])"
| "contains (c # s) p = (starts_with (c # s) p \<or> contains s p)"

text \<open>\<open>s.split(p).next()\<close>: the text before the first occurrence of \<open>p\<close>.\<close>

fun before :: "'a list \<Rightarrow> 'a list \<Rightarrow> 'a list" where
  "before [] p = []"
| "before (c # s) p = (if starts_with (c # s) p then [] else c # before s p)"

definition display :: "consensus_error \<Rightarrow> string" where
  "display err =
    (case err of
       Internal s \<Rightarrow> s
     | BadHeader s \<Rightarrow> ''bad header: '' @ s
     | BadBlock s \<Rightarrow> ''bad block: '' @ s
     | BadTx s \<Rightarrow> ''bad transaction: '' @ s
     | Script s \<Rightarrow> ''script verification failed: '' @ s
     | MissingPrevout \<Rightarrow> ''missing prevout''
     | PrevoutSpent \<Rightarrow> ''prevout already spent on best chain''
     | InvalidPow \<Rightarrow> ''pow invalid''
     | BadPrev \<Rightarrow> ''unexpected previous header''
     | BadVersion v \<Rightarrow> ''bad-version(0x'' @ hex8 v @ '')''
     | Cancelled \<Rightarrow> ''confirm cancelled''
     | Panic s \<Rightarrow> s)"

definition script_flag_paren :: "string \<Rightarrow> string" where
  "script_flag_paren token =
    (let inner = before token '' txid='' in
     if inner \<in> {''CSV negative'', ''CLTV negative''} then ''Negative locktime''
     else if inner \<in> {''CSV'', ''CSV version'', ''CLTV'', ''CLTV type'', ''CLTV final sequence''}
       then ''Locktime requirement not satisfied''
     else if inner \<in> {''stack empty'', ''stack size''} then ''Operation not valid with the current stack size''
     else if inner = ''NULLDUMMY'' then ''Dummy CHECKMULTISIG argument must be zero''
     else if inner = ''SIG_DER'' then ''Non-canonical DER signature''
     else inner)"

definition block_reject_reason :: "consensus_error \<Rightarrow> string" where
  "block_reject_reason err =
    (case err of
       BadTx s \<Rightarrow>
         if s \<in> {''not final'', ''bad-txns-nonfinal''} then ''bad-txns-nonfinal''
         else if s = ''no inputs'' then ''bad-txns-vin-empty''
         else if s = ''no outputs'' then ''bad-txns-vout-empty''
         else if s = ''coinbase immature'' then ''bad-txns-premature-spend-of-coinbase''
         else if s = ''in < out'' then ''bad-txns-in-belowout''
         else if s = ''double spend in block'' then ''bad-txns-inputs-missingorspent''
         else s
     | BadBlock s \<Rightarrow>
         if s \<in> {''no transactions'', ''block stripped size too large''} then ''bad-blk-length''
         else if s \<in> {''first tx not coinbase'', ''merkle mutated by a 64-byte tx''} then ''bad-cb-missing''
         else if s = ''coinbase excess value'' then ''bad-cb-amount''
         else if s = ''coinbase not first'' then ''bad-cb-multiple''
         else if s = ''duplicate txid'' then ''bad-txns-inputs-missingorspent''
         else if s = ''merkle root mismatch'' then ''bad-txnmrklroot''
         else if s \<in> {''bip34 height encoding'', ''bip34 coinbase script empty''} then ''bad-cb-height''
         else if s = ''signet solution invalid'' then ''bad-signet-blksig''
         else if s = ''block weight too large'' then ''bad-blk-weight''
         else s
     | BadHeader s \<Rightarrow>
         if s = ''timestamp <= median-time-past'' then ''time-too-old''
         else if s = ''timestamp too far in future'' then ''time-too-new''
         else if s \<in> {''incorrect proof of work bits'', ''target above pow limit''} then ''bad-diffbits''
         else s
     | InvalidPow \<Rightarrow> ''high-hash''
     | MissingPrevout \<Rightarrow> ''bad-txns-inputs-missingorspent''
     | PrevoutSpent \<Rightarrow> ''bad-txns-inputs-missingorspent''
     | BadVersion v \<Rightarrow> ''bad-version(0x'' @ hex8 v @ '')''
     | Script s \<Rightarrow> ''block-script-verify-flag-failed ('' @ script_flag_paren s @ '')''
     | _ \<Rightarrow> display err)"

definition block_reject_log_line :: "string \<Rightarrow> string \<Rightarrow> string" where
  "block_reject_log_line hash reason =
    (if starts_with reason ''bad-version'' then hash @ '', '' @ reason
     else ''Block validation error: '' @ reason)"

section \<open>Trust collection\<close>

record trust_state =
  ts_depth :: u32
  ts_warns :: "(u32 option \<times> consensus_error) list"
  ts_cur_height :: "u32 option"

type_synonym 'a checked = "trust_state \<Rightarrow> 'a consensus \<times> trust_state"

definition tret :: "'a \<Rightarrow> 'a checked" where
  "tret a ts = (Inr a, ts)"

definition tfail :: "consensus_error \<Rightarrow> 'a checked" where
  "tfail e ts = (Inl e, ts)"

definition tlift :: "'a consensus \<Rightarrow> 'a checked" where
  "tlift r ts = (r, ts)"

definition tbind :: "'a checked \<Rightarrow> ('a \<Rightarrow> 'b checked) \<Rightarrow> 'b checked" where
  "tbind m f ts = (case m ts of (Inl e, ts') \<Rightarrow> (Inl e, ts') | (Inr a, ts') \<Rightarrow> f a ts')"

definition collecting :: "trust_state \<Rightarrow> bool" where
  "collecting ts = (0 < ts_depth ts)"

definition note_block_height :: "u32 \<Rightarrow> trust_state \<Rightarrow> trust_state" where
  "note_block_height height ts = (if collecting ts then ts\<lparr>ts_cur_height := Some height\<rparr> else ts)"

definition current_block_height :: "trust_state \<Rightarrow> u32 option" where
  "current_block_height ts = ts_cur_height ts"

definition trust_enter :: "trust_state \<Rightarrow> trust_state" where
  "trust_enter ts = ts\<lparr>ts_depth := sat_add (ts_depth ts) 1\<rparr>"

definition trust_drop :: "trust_state \<Rightarrow> trust_state" where
  "trust_drop ts =
    (let n = sat_sub (ts_depth ts) 1; ts = ts\<lparr>ts_depth := n\<rparr>
     in if n = 0 then ts\<lparr>ts_warns := [], ts_cur_height := None\<rparr> else ts)"

definition apply_header :: "string \<Rightarrow> bool" where
  "apply_header s =
    (s \<in> {''timestamp <= median-time-past'', ''timestamp too far in future'', ''empty median time'',
          ''time-too-old'', ''time-too-new'', ''time-timewarp-attack''})"

definition apply_block :: "string \<Rightarrow> bool" where
  "apply_block s =
    (s \<in> {''bip34 height encoding'', ''bip34 coinbase script empty'', ''bad-cb-height'', ''bad-blk-sigops'',
          ''coinbase excess value'', ''bad-cb-amount'', ''signet solution invalid'', ''bad-signet-blksig''}
     \<or> starts_with s ''signet:'')"

definition apply_tx :: "string \<Rightarrow> bool" where
  "apply_tx s =
    (s \<in> {''not final'', ''bad-txns-nonfinal'', ''coinbase immature'', ''bad-txns-BIP30'',
          ''bad-txns-premature-spend-of-coinbase'', ''non-BIP68-final''})"

definition reason_is_warn_and_apply :: "string \<Rightarrow> bool" where
  "reason_is_warn_and_apply reason =
    (contains reason ''script verification''
     \<or> starts_with reason ''block-script-verify''
     \<or> starts_with reason ''bad-version''
     \<or> apply_header reason
     \<or> apply_block reason
     \<or> apply_tx reason)"

definition is_warn_and_apply :: "consensus_error \<Rightarrow> bool" where
  "is_warn_and_apply err = reason_is_warn_and_apply (block_reject_reason err)"

definition soften_at :: "u32 option \<Rightarrow> consensus_error \<Rightarrow> unit checked" where
  "soften_at height err ts =
    (if \<not> collecting ts \<or> \<not> is_warn_and_apply err then (Inl err, ts)
     else
       let height = (case height of None \<Rightarrow> current_block_height ts | Some h \<Rightarrow> Some h)
       in (Inr (), ts\<lparr>ts_warns := ts_warns ts @ [(height, err)]\<rparr>))"

definition soften :: "consensus_error \<Rightarrow> unit checked" where
  "soften err = soften_at None err"

fun retain_first :: "('a \<Rightarrow> 'b) \<Rightarrow> 'b set \<Rightarrow> 'a list \<Rightarrow> 'a list" where
  "retain_first key seen [] = []"
| "retain_first key seen (x # xs) =
    (if key x \<in> seen then retain_first key seen xs else x # retain_first key (insert (key x) seen) xs)"

definition drain_warnings :: "trust_state \<Rightarrow> (u32 option \<times> consensus_error) list \<times> trust_state" where
  "drain_warnings ts =
    (retain_first (\<lambda>(h, e). (h, block_reject_reason e)) {} (ts_warns ts), ts\<lparr>ts_warns := []\<rparr>)"

text \<open>\<open>if !c { soften(e)? }\<close>, the shape of every softened rule.\<close>

definition soft_ensure :: "bool \<Rightarrow> consensus_error \<Rightarrow> unit checked" where
  "soft_ensure c e = (if c then tret () else soften e)"

section \<open>The contract of a softened check\<close>

text \<open>
  A check obeys the collector when it only appends warn-and-apply faults, only while collecting, and
  when a run without warnings (that collects or succeeds) has the same outcome in every trust state.
\<close>

definition outcome_ok :: "'a checked \<Rightarrow> trust_state \<Rightarrow> 'a consensus \<Rightarrow> (u32 option \<times> consensus_error) list \<Rightarrow> bool" where
  "outcome_ok m ts r ws \<longleftrightarrow>
     list_all (\<lambda>(_, e). is_warn_and_apply e) ws
   \<and> (ws \<noteq> [] \<longrightarrow> collecting ts)
   \<and> (ws = [] \<longrightarrow> collecting ts \<or> is_ok r \<longrightarrow> (\<forall>us. m us = (r, us)))"

definition disciplined :: "'a checked \<Rightarrow> bool" where
  "disciplined m \<longleftrightarrow>
    (\<forall>ts. \<exists>ws. m ts = (fst (m ts), ts\<lparr>ts_warns := ts_warns ts @ ws\<rparr>) \<and> outcome_ok m ts (fst (m ts)) ws)"

named_theorems trust_intros \<open>closure of the collector discipline\<close>

lemma disciplinedI:
  assumes "\<And>ts. \<exists>r ws. m ts = (r, ts\<lparr>ts_warns := ts_warns ts @ ws\<rparr>) \<and> outcome_ok m ts r ws"
  shows "disciplined m"
proof (unfold disciplined_def, rule allI)
  fix ts
  obtain r ws where "m ts = (r, ts\<lparr>ts_warns := ts_warns ts @ ws\<rparr>)" "outcome_ok m ts r ws"
    using assms by blast
  then show "\<exists>ws. m ts = (fst (m ts), ts\<lparr>ts_warns := ts_warns ts @ ws\<rparr>) \<and> outcome_ok m ts (fst (m ts)) ws"
    by (intro exI [of _ ws]) simp
qed

lemma disciplinedE:
  assumes "disciplined m"
  obtains r ws where "m ts = (r, ts\<lparr>ts_warns := ts_warns ts @ ws\<rparr>)" "outcome_ok m ts r ws"
  using assms unfolding disciplined_def by blast

lemma ts_warns_id [simp]: "ts\<lparr>ts_warns := ts_warns ts\<rparr> = ts"
  by simp

lemma disciplined_tlift [trust_intros]: "disciplined (tlift r)"
  by (rule disciplinedI) (auto simp: tlift_def outcome_ok_def intro!: exI [where x = r] exI [where x = "[]"])

lemma disciplined_tret [trust_intros]: "disciplined (tret a)"
  using disciplined_tlift [of "Inr a"] by (simp add: tlift_def [abs_def] tret_def [abs_def])

lemma disciplined_tfail [trust_intros]: "disciplined (tfail e)"
  using disciplined_tlift [of "Inl e"] by (simp add: tlift_def [abs_def] tfail_def [abs_def])

lemma disciplined_soften_at [trust_intros]: "disciplined (soften_at h e)"
proof (rule disciplinedI)
  fix ts
  show "\<exists>r ws. soften_at h e ts = (r, ts\<lparr>ts_warns := ts_warns ts @ ws\<rparr>) \<and> outcome_ok (soften_at h e) ts r ws"
  proof (cases "collecting ts \<and> is_warn_and_apply e")
    case True
    then show ?thesis
      by (intro exI [where x = "Inr ()"] exI [where x = "[(case h of None \<Rightarrow> current_block_height ts | Some h \<Rightarrow> Some h, e)]"])
        (auto simp: soften_at_def outcome_ok_def Let_def)
  next
    case False
    then show ?thesis
      by (intro exI [where x = "Inl e"] exI [where x = "[]"]) (auto simp: soften_at_def outcome_ok_def)
  qed
qed

lemma disciplined_soften [trust_intros]: "disciplined (soften e)"
  by (simp add: soften_def disciplined_soften_at)

lemma disciplined_soft_ensure [trust_intros]: "disciplined (soft_ensure c e)"
  by (simp add: soft_ensure_def trust_intros)

lemma disciplined_if [trust_intros]:
  "(c \<Longrightarrow> disciplined m) \<Longrightarrow> (\<not> c \<Longrightarrow> disciplined n) \<Longrightarrow> disciplined (if c then m else n)"
  by simp

lemma disciplined_tbind [trust_intros]:
  assumes "disciplined m" "\<And>a. disciplined (f a)"
  shows "disciplined (tbind m f)"
proof (rule disciplinedI)
  fix ts
  obtain r ws where m: "m ts = (r, ts\<lparr>ts_warns := ts_warns ts @ ws\<rparr>)" "outcome_ok m ts r ws"
    using assms(1) by (rule disciplinedE)
  show "\<exists>r ws. tbind m f ts = (r, ts\<lparr>ts_warns := ts_warns ts @ ws\<rparr>) \<and> outcome_ok (tbind m f) ts r ws"
  proof (cases r)
    case (Inl e)
    with m have "tbind m f ts = (Inl e, ts\<lparr>ts_warns := ts_warns ts @ ws\<rparr>)" by (simp add: tbind_def)
    moreover have "outcome_ok (tbind m f) ts (Inl e) ws"
      using m(2) Inl by (auto simp: outcome_ok_def tbind_def)
    ultimately show ?thesis by blast
  next
    case (Inr a)
    let ?ts = "ts\<lparr>ts_warns := ts_warns ts @ ws\<rparr>"
    obtain r' ws' where f: "f a ?ts = (r', ?ts\<lparr>ts_warns := ts_warns ?ts @ ws'\<rparr>)" "outcome_ok (f a) ?ts r' ws'"
      using assms(2) by (rule disciplinedE)
    have coll: "collecting ?ts = collecting ts" by (simp add: collecting_def)
    have "tbind m f ts = (r', ts\<lparr>ts_warns := ts_warns ts @ (ws @ ws')\<rparr>)"
      using m f Inr by (simp add: tbind_def)
    moreover have "outcome_ok (tbind m f) ts r' (ws @ ws')"
      using m(2) f(2) Inr coll by (auto simp: outcome_ok_def tbind_def)
    ultimately show ?thesis by blast
  qed
qed

lemma disciplined_option [trust_intros]:
  "(x = None \<Longrightarrow> disciplined m) \<Longrightarrow> (\<And>a. x = Some a \<Longrightarrow> disciplined (f a)) \<Longrightarrow>
   disciplined (case x of None \<Rightarrow> m | Some a \<Rightarrow> f a)"
  by (cases x) auto

locale trust_check =
  fixes m :: "'a checked"
  assumes obeys: "disciplined m"
begin

lemma off_unchanged: "\<not> collecting ts \<Longrightarrow> snd (m ts) = ts"
  using obeys by (rule disciplinedE [of m ts]) (auto simp: outcome_ok_def)

lemma warnings_classified:
  "m ts = (r, ts') \<Longrightarrow> \<exists>ws. ts' = ts\<lparr>ts_warns := ts_warns ts @ ws\<rparr> \<and> list_all (\<lambda>(_, e). is_warn_and_apply e) ws"
  using obeys by (rule disciplinedE [of m ts]) (auto simp: outcome_ok_def)

lemma accepted_strictly_iff:
  assumes "\<not> collecting off" "collecting on"
  shows "fst (m off) = Inr a \<longleftrightarrow> m on = (Inr a, on)"
proof -
  obtain r ws where off: "m off = (r, off\<lparr>ts_warns := ts_warns off @ ws\<rparr>)" "outcome_ok m off r ws"
    using obeys by (rule disciplinedE)
  obtain r' ws' where on: "m on = (r', on\<lparr>ts_warns := ts_warns on @ ws'\<rparr>)" "outcome_ok m on r' ws'"
    using obeys by (rule disciplinedE)
  have "ws = []" using off(2) assms by (auto simp: outcome_ok_def)
  have "on\<lparr>ts_warns := ts_warns on @ ws'\<rparr> = on \<longleftrightarrow> ws' = []"
    by (metis append_self_conv select_convs(2) trust_state.surjective trust_state.update_convs(2) ts_warns_id)
  then show ?thesis
    using off on \<open>ws = []\<close> assms by (auto simp: outcome_ok_def)
qed

end

section \<open>Properties\<close>

lemma starts_with_append [simp]: "starts_with (p @ s) p"
  by (simp add: starts_with_def)

text \<open>
  Which faults \<open>--trust-peer\<close> can waive: proof of work, difficulty bits, the parent link, a body
  that does not match its header, missing or spent or inflated inputs, and a cancelled confirm are
  returned unchanged by \<open>soften\<close> in every state; every script failure and outdated version is
  warn-and-apply.
\<close>

theorem soften_keeps_hard_faults:
  "list_all (\<lambda>e. soften e ts = (Inl e, ts))
     [InvalidPow, BadPrev, MissingPrevout, PrevoutSpent, Cancelled,
      BadHeader ''incorrect proof of work bits'', BadHeader ''target above pow limit'',
      BadBlock ''merkle root mismatch'', BadBlock ''first tx not coinbase'', BadBlock ''coinbase not first'',
      BadBlock ''block weight too large'', BadBlock ''duplicate txid'',
      BadTx ''double spend in block'', BadTx ''in < out'', BadTx ''no inputs'', BadTx ''no outputs'']
   \<and> is_warn_and_apply (Script s) \<and> is_warn_and_apply (BadVersion v)"
proof -
  have hard: "list_all (\<lambda>e. \<not> is_warn_and_apply e)
     [InvalidPow, BadPrev, MissingPrevout, PrevoutSpent, Cancelled,
      BadHeader ''incorrect proof of work bits'', BadHeader ''target above pow limit'',
      BadBlock ''merkle root mismatch'', BadBlock ''first tx not coinbase'', BadBlock ''coinbase not first'',
      BadBlock ''block weight too large'', BadBlock ''duplicate txid'',
      BadTx ''double spend in block'', BadTx ''in < out'', BadTx ''no inputs'', BadTx ''no outputs'']"
    by code_simp
  have "starts_with (''block-script-verify'' @ ''-flag-failed ('' @ script_flag_paren s @ '')'') ''block-script-verify''"
    by (rule starts_with_append)
  moreover have "starts_with (''bad-version'' @ ''(0x'' @ hex8 v @ '')'') ''bad-version''"
    by (rule starts_with_append)
  ultimately have "is_warn_and_apply (Script s)" "is_warn_and_apply (BadVersion v)"
    by (simp_all add: is_warn_and_apply_def reason_is_warn_and_apply_def block_reject_reason_def)
  with hard show ?thesis by (simp add: soften_def soften_at_def)
qed

lemma retain_first_spec:
  "distinct (map key (retain_first key seen xs)) \<and>
   set (map key (retain_first key seen xs)) = set (map key xs) - seen \<and> subseq (retain_first key seen xs) xs"
  by (induction key seen xs rule: retain_first.induct) auto

text \<open>
  \<open>drain_warnings\<close> empties the collector and returns, in order, one recorded fault for every
  distinct pair of height and reject reason.
\<close>

theorem drain_warnings_spec:
  "let key = (\<lambda>(h, e). (h, block_reject_reason e)); (ws, ts') = drain_warnings ts in
     distinct (map key ws) \<and> set (map key ws) = set (map key (ts_warns ts)) \<and> subseq ws (ts_warns ts)
     \<and> ts_warns ts' = []"
  using retain_first_spec [of "\<lambda>(h, e). (h, block_reject_reason e)" "{}" "ts_warns ts"]
  by (simp add: drain_warnings_def Let_def)

end
