(* ===== verification/Btc.thy ===== *)
theory Btc
  imports Errors
begin

text \<open>
  Transactions and blocks as the crate \<open>bitcoin\<close> represents them, and the functions of third-party
  crates (\<open>bitcoin\<close>, \<open>bitcoin_hashes\<close>, \<open>secp256k1\<close>) the sources call, gathered in the record
  \<open>btc_lib\<close> that every definition using them takes as its first argument. Opaque library values
  (keys, signatures, digests) are their bytes. What a theorem needs of a library function is one of
  the named predicates at the end.
\<close>

section \<open>Transactions\<close>

type_synonym outpoint = "bytes \<times> u32"

record txin =
  ti_previous_output :: outpoint
  ti_script_sig :: bytes
  ti_sequence :: u32
  ti_witness :: "bytes list"

record txout =
  to_value :: u64
  to_script_pubkey :: bytes

record transaction =
  tx_version :: u32
  tx_lock_time :: u32
  tx_input :: "txin list"
  tx_output :: "txout list"

record header =
  h_version :: u32
  h_prev_blockhash :: bytes
  h_merkle_root :: bytes
  h_time :: u32
  h_bits :: u32
  h_nonce :: u32

record block =
  b_header :: header
  b_txdata :: "transaction list"

section \<open>Library functions\<close>

datatype instruction = PushBytes bytes | Op u8

datatype ecdsa_sighash_type =
    EAll | ENone | ESingle | EAllPlusAnyoneCanPay | ENonePlusAnyoneCanPay | ESinglePlusAnyoneCanPay

text \<open>
  \<open>lib_instruction_indices\<close> is the list of items the iterator \<open>Script::instruction_indices\<close> yields, an
  \<open>Inl\<close> item being its parse error, and \<open>lib_instructions\<close> the same for \<open>Script::instructions\<close>. The
  Boolean of \<open>lib_tweak_add_check\<close> is the odd parity.
\<close>

record script_lib =
  read_scriptbool :: "bytes \<Rightarrow> bool"
  lib_instruction_indices :: "bytes \<Rightarrow> (unit + nat \<times> instruction) list"
  lib_instructions :: "bytes \<Rightarrow> (unit + instruction) list"
  lib_is_push_only :: "bytes \<Rightarrow> bool"
  lib_is_p2pkh :: "bytes \<Rightarrow> bool"
  lib_is_p2sh :: "bytes \<Rightarrow> bool"
  lib_is_p2wpkh :: "bytes \<Rightarrow> bool"
  lib_is_p2wsh :: "bytes \<Rightarrow> bool"
  lib_is_p2tr :: "bytes \<Rightarrow> bool"
  lib_witness_version :: "bytes \<Rightarrow> u8 option"
  lib_p2wpkh_script_code :: "bytes \<Rightarrow> bytes option"

record hash_lib = script_lib +
  lib_ripemd160 :: "bytes \<Rightarrow> bytes"
  lib_sha1 :: "bytes \<Rightarrow> bytes"
  lib_sha256 :: "bytes \<Rightarrow> bytes"
  lib_sha256d :: "bytes \<Rightarrow> bytes"
  lib_hash160 :: "bytes \<Rightarrow> bytes"
  lib_tap_sighash :: "bytes \<Rightarrow> bytes"
  lib_tap_leaf_hash :: "bytes \<Rightarrow> bytes"
  lib_tap_node_hash :: "bytes \<Rightarrow> bytes \<Rightarrow> bytes"
  lib_tap_tweak_hash :: "bytes \<Rightarrow> bytes \<Rightarrow> bytes"

record crypto_lib = hash_lib +
  lib_from_der_lax :: "bytes \<Rightarrow> bytes option"
  lib_normalize_s :: "bytes \<Rightarrow> bytes"
  lib_serialize_compact :: "bytes \<Rightarrow> bytes"
  lib_pubkey_from_slice :: "bytes \<Rightarrow> bytes option"
  lib_verify_ecdsa :: "bytes \<Rightarrow> bytes \<Rightarrow> bytes \<Rightarrow> bool"
  lib_xonly_from_slice :: "bytes \<Rightarrow> bytes option"
  lib_verify_schnorr :: "bytes \<Rightarrow> bytes \<Rightarrow> bytes \<Rightarrow> bool"
  lib_tap_sighash_type :: "u8 \<Rightarrow> u8 option"
  lib_scalar_from_be_bytes :: "bytes \<Rightarrow> bytes option"
  lib_tweak_add_check :: "bytes \<Rightarrow> bytes \<Rightarrow> bool \<Rightarrow> bytes \<Rightarrow> bool"
  lib_ecdsa_from_consensus :: "u32 \<Rightarrow> ecdsa_sighash_type"
  lib_legacy_signature_hash :: "transaction \<Rightarrow> nat \<Rightarrow> bytes \<Rightarrow> u32 \<Rightarrow> bytes option"

record btc_lib = crypto_lib +
  enc_u8 :: "u8 \<Rightarrow> bytes"
  enc_u32 :: "u32 \<Rightarrow> bytes"
  enc_u64 :: "u64 \<Rightarrow> bytes"
  enc_varint :: "u64 \<Rightarrow> bytes"
  enc_script :: "bytes \<Rightarrow> bytes"
  enc_outpoint :: "outpoint \<Rightarrow> bytes"
  enc_txout :: "txout \<Rightarrow> bytes"
  enc_witness :: "bytes list \<Rightarrow> bytes"
  varint_size :: "u64 \<Rightarrow> nat"
  txin_base_size :: "txin \<Rightarrow> nat"
  txout_size :: "txout \<Rightarrow> nat"
  witness_size :: "bytes list \<Rightarrow> nat"
  lib_is_coinbase :: "transaction \<Rightarrow> bool"
  lib_outpoint_is_null :: "outpoint \<Rightarrow> bool"
  lib_sequence_is_final :: "u32 \<Rightarrow> bool"
  lib_compute_txid :: "transaction \<Rightarrow> bytes"
  lib_display_txid :: "bytes \<Rightarrow> string"
  lib_max_money :: u64
  enc_bytes :: "bytes \<Rightarrow> bytes"
  enc_block_hash :: "bytes \<Rightarrow> bytes"
  enc_merkle_node :: "bytes \<Rightarrow> bytes"
  lib_outpoint_null :: outpoint
  lib_to_vbytes_ceil :: "u64 \<Rightarrow> u64"

text \<open>
  Documented behaviour some theorems rely on: digests have their fixed lengths.
\<close>

definition digest_lengths :: "btc_lib \<Rightarrow> bool" where
  "digest_lengths L \<longleftrightarrow>
    (\<forall>v. length (lib_ripemd160 L v) = 20 \<and> length (lib_sha1 L v) = 20 \<and> length (lib_sha256 L v) = 32
       \<and> length (lib_sha256d L v) = 32 \<and> length (lib_hash160 L v) = 20)"

section \<open>A concrete instance\<close>

text \<open>
  A small executable instance of the library interface, for evaluating the model: a script parser for
  direct pushes, padded truncations as digests, and byte equality as signature verification.
\<close>

function sample_parse :: "nat \<Rightarrow> bytes \<Rightarrow> (unit + nat \<times> instruction) list" where
  "sample_parse i script =
    (case script of
       [] \<Rightarrow> []
     | op # rest \<Rightarrow>
         if op \<le> 75 then
           (if length rest < unat op then [Inl ()]
            else Inr (i, PushBytes (take (unat op) rest)) # sample_parse (i + 1 + unat op) (drop (unat op) rest))
         else Inr (i, Op op) # sample_parse (i + 1) rest)"
  by pat_completeness auto
termination by (relation "measure (\<lambda>(_, script). length script)") auto

declare sample_parse.simps [simp del]

lemma sample_parse_rules [simp]:
  "sample_parse i [] = []"
  "sample_parse i (op # rest) =
    (if op \<le> 75 then
       (if length rest < unat op then [Inl ()]
        else Inr (i, PushBytes (take (unat op) rest)) # sample_parse (i + 1 + unat op) (drop (unat op) rest))
     else Inr (i, Op op) # sample_parse (i + 1) rest)"
  by (simp_all add: sample_parse.simps [of i])

definition pad :: "nat \<Rightarrow> bytes \<Rightarrow> bytes" where
  "pad n v = take n (v @ replicate n 0)"

lemma length_pad [simp]: "length (pad n v) = n"
  by (simp add: pad_def)

definition sample_lib :: btc_lib where
  "sample_lib =
    \<lparr>read_scriptbool = (\<lambda>v. list_ex (\<lambda>b. b \<noteq> 0) v \<and> v \<noteq> [0x80]),
     lib_instruction_indices = sample_parse 0,
     lib_instructions = (\<lambda>s. map (map_sum id snd) (sample_parse 0 s)),
     lib_is_push_only = (\<lambda>s. list_all (\<lambda>x. case x of Inr (_, Op c) \<Rightarrow> c \<le> 0x60 | Inr _ \<Rightarrow> True | Inl _ \<Rightarrow> False) (sample_parse 0 s)),
     lib_is_p2pkh = (\<lambda>s. length s = 25 \<and> take 3 s = [0x76, 0xA9, 0x14] \<and> drop 23 s = [0x88, 0xAC]),
     lib_is_p2sh = (\<lambda>s. length s = 23 \<and> take 2 s = [0xA9, 0x14] \<and> drop 22 s = [0x87]),
     lib_is_p2wpkh = (\<lambda>s. length s = 22 \<and> take 2 s = [0, 0x14]),
     lib_is_p2wsh = (\<lambda>s. length s = 34 \<and> take 2 s = [0, 0x20]),
     lib_is_p2tr = (\<lambda>s. length s = 34 \<and> take 2 s = [0x51, 0x20]),
     lib_witness_version = (\<lambda>s. if 4 \<le> length s \<and> length s \<le> 42 \<and> (s ! 0 = 0 \<or> 0x51 \<le> s ! 0 \<and> s ! 0 \<le> 0x60) \<and> unat (s ! 1) = length s - 2 then Some (if s ! 0 = 0 then 0 else s ! 0 - 0x50) else None),
     lib_p2wpkh_script_code = (\<lambda>s. Some ([0x76, 0xA9, 0x14] @ drop 2 s @ [0x88, 0xAC])),
     lib_ripemd160 = pad 20, lib_sha1 = pad 20, lib_sha256 = pad 32, lib_sha256d = pad 32,
     lib_hash160 = pad 20, lib_tap_sighash = pad 32,
     lib_tap_leaf_hash = pad 32, lib_tap_node_hash = (\<lambda>a b. pad 32 (a @ b)), lib_tap_tweak_hash = (\<lambda>k h. pad 32 (k @ h)),
     lib_from_der_lax = Some, lib_normalize_s = (\<lambda>s. s), lib_serialize_compact = (\<lambda>s. s),
     lib_pubkey_from_slice = (\<lambda>k. if k = [] then None else Some k), lib_verify_ecdsa = (\<lambda>msg sig pk. sig = pk),
     lib_xonly_from_slice = Some, lib_verify_schnorr = (\<lambda>sig msg pk. take 32 sig = pk),
     lib_tap_sighash_type = Some, lib_scalar_from_be_bytes = Some, lib_tweak_add_check = (\<lambda>i out odd t. out = t),
     lib_ecdsa_from_consensus = (\<lambda>_. EAll),
     lib_legacy_signature_hash = (\<lambda>tx i code ty. Some (pad 32 code)),
     enc_u8 = (\<lambda>b. [b]), enc_u32 = (\<lambda>v. to_le 4 (unat v)), enc_u64 = (\<lambda>v. to_le 8 (unat v)), enc_varint = (\<lambda>n. [ucast n]),
     enc_script = (\<lambda>s. word_of_nat (length s) # s), enc_outpoint = (\<lambda>(t, n). pad 32 t @ to_le 4 (unat n)),
     enc_txout = (\<lambda>t. to_le 8 (unat (to_value t)) @ word_of_nat (length (to_script_pubkey t)) # to_script_pubkey t),
     enc_witness = (\<lambda>w. word_of_nat (length w) # concat (map (\<lambda>e. word_of_nat (length e) # e) w)),
     varint_size = (\<lambda>_. 1), txin_base_size = (\<lambda>i. 41 + length (ti_script_sig i)),
     txout_size = (\<lambda>t. 9 + length (to_script_pubkey t)),
     witness_size = (\<lambda>w. 1 + sum_list (map (\<lambda>e. 1 + length e) w)),
     lib_is_coinbase = (\<lambda>tx. length (tx_input tx) = 1 \<and> list_all (\<lambda>i. snd (ti_previous_output i) = 0xFFFFFFFF) (tx_input tx)),
     lib_outpoint_is_null = (\<lambda>(t, n). n = 0xFFFFFFFF), lib_sequence_is_final = (\<lambda>n. n = 0xFFFFFFFF),
     lib_compute_txid = (\<lambda>tx. pad 32 (to_le 4 (unat (tx_lock_time tx)))), lib_display_txid = (\<lambda>_. ''txid''),
     lib_max_money = 2100000000000000,
     enc_bytes = (\<lambda>s. word_of_nat (length s) # s), enc_block_hash = pad 32, enc_merkle_node = pad 32,
     lib_outpoint_null = (replicate 32 0, 0xFFFFFFFF), lib_to_vbytes_ceil = (\<lambda>w. (w + 3) div 4)\<rparr>"

lemma sample_lib_simps [simp]:
  "read_scriptbool sample_lib = (\<lambda>v. list_ex (\<lambda>b. b \<noteq> 0) v \<and> v \<noteq> [0x80])"
  "lib_instruction_indices sample_lib = sample_parse 0"
  "lib_instructions sample_lib = (\<lambda>s. map (map_sum id snd) (sample_parse 0 s))"
  "lib_is_push_only sample_lib = (\<lambda>s. list_all (\<lambda>x. case x of Inr (_, Op c) \<Rightarrow> c \<le> 0x60 | Inr _ \<Rightarrow> True | Inl _ \<Rightarrow> False) (sample_parse 0 s))"
  "lib_is_p2pkh sample_lib = (\<lambda>s. length s = 25 \<and> take 3 s = [0x76, 0xA9, 0x14] \<and> drop 23 s = [0x88, 0xAC])"
  "lib_is_p2sh sample_lib = (\<lambda>s. length s = 23 \<and> take 2 s = [0xA9, 0x14] \<and> drop 22 s = [0x87])"
  "lib_is_p2wpkh sample_lib = (\<lambda>s. length s = 22 \<and> take 2 s = [0, 0x14])"
  "lib_is_p2wsh sample_lib = (\<lambda>s. length s = 34 \<and> take 2 s = [0, 0x20])"
  "lib_is_p2tr sample_lib = (\<lambda>s. length s = 34 \<and> take 2 s = [0x51, 0x20])"
  "lib_witness_version sample_lib = (\<lambda>s. if 4 \<le> length s \<and> length s \<le> 42 \<and> (s ! 0 = 0 \<or> 0x51 \<le> s ! 0 \<and> s ! 0 \<le> 0x60) \<and> unat (s ! 1) = length s - 2 then Some (if s ! 0 = 0 then 0 else s ! 0 - 0x50) else None)"
  "lib_p2wpkh_script_code sample_lib = (\<lambda>s. Some ([0x76, 0xA9, 0x14] @ drop 2 s @ [0x88, 0xAC]))"
  "lib_ripemd160 sample_lib = pad 20"
  "lib_sha1 sample_lib = pad 20"
  "lib_sha256 sample_lib = pad 32"
  "lib_sha256d sample_lib = pad 32"
  "lib_hash160 sample_lib = pad 20"
  "lib_tap_sighash sample_lib = pad 32"
  "lib_tap_leaf_hash sample_lib = pad 32"
  "lib_tap_node_hash sample_lib = (\<lambda>a b. pad 32 (a @ b))"
  "lib_tap_tweak_hash sample_lib = (\<lambda>k h. pad 32 (k @ h))"
  "lib_from_der_lax sample_lib = Some"
  "lib_normalize_s sample_lib = (\<lambda>s. s)"
  "lib_serialize_compact sample_lib = (\<lambda>s. s)"
  "lib_pubkey_from_slice sample_lib = (\<lambda>k. if k = [] then None else Some k)"
  "lib_verify_ecdsa sample_lib = (\<lambda>msg sig pk. sig = pk)"
  "lib_xonly_from_slice sample_lib = Some"
  "lib_verify_schnorr sample_lib = (\<lambda>sig msg pk. take 32 sig = pk)"
  "lib_tap_sighash_type sample_lib = Some"
  "lib_scalar_from_be_bytes sample_lib = Some"
  "lib_tweak_add_check sample_lib = (\<lambda>i out odd t. out = t)"
  "lib_ecdsa_from_consensus sample_lib = (\<lambda>_. EAll)"
  "lib_legacy_signature_hash sample_lib = (\<lambda>tx i code ty. Some (pad 32 code))"
  "enc_u8 sample_lib = (\<lambda>b. [b])"
  "enc_u32 sample_lib = (\<lambda>v. to_le 4 (unat v))"
  "enc_u64 sample_lib = (\<lambda>v. to_le 8 (unat v))"
  "enc_varint sample_lib = (\<lambda>n. [ucast n])"
  "enc_script sample_lib = (\<lambda>s. word_of_nat (length s) # s)"
  "enc_outpoint sample_lib = (\<lambda>(t, n). pad 32 t @ to_le 4 (unat n))"
  "enc_txout sample_lib = (\<lambda>t. to_le 8 (unat (to_value t)) @ word_of_nat (length (to_script_pubkey t)) # to_script_pubkey t)"
  "enc_witness sample_lib = (\<lambda>w. word_of_nat (length w) # concat (map (\<lambda>e. word_of_nat (length e) # e) w))"
  "varint_size sample_lib = (\<lambda>_. 1)"
  "txin_base_size sample_lib = (\<lambda>i. 41 + length (ti_script_sig i))"
  "txout_size sample_lib = (\<lambda>t. 9 + length (to_script_pubkey t))"
  "witness_size sample_lib = (\<lambda>w. 1 + sum_list (map (\<lambda>e. 1 + length e) w))"
  "lib_is_coinbase sample_lib = (\<lambda>tx. length (tx_input tx) = 1 \<and> list_all (\<lambda>i. snd (ti_previous_output i) = 0xFFFFFFFF) (tx_input tx))"
  "lib_outpoint_is_null sample_lib = (\<lambda>(t, n). n = 0xFFFFFFFF)"
  "lib_sequence_is_final sample_lib = (\<lambda>n. n = 0xFFFFFFFF)"
  "lib_compute_txid sample_lib = (\<lambda>tx. pad 32 (to_le 4 (unat (tx_lock_time tx))))"
  "lib_display_txid sample_lib = (\<lambda>_. ''txid'')"
  "lib_max_money sample_lib = 2100000000000000"
  "enc_bytes sample_lib = (\<lambda>s. word_of_nat (length s) # s)"
  "enc_block_hash sample_lib = pad 32"
  "enc_merkle_node sample_lib = pad 32"
  "lib_outpoint_null sample_lib = (replicate 32 0, 0xFFFFFFFF)"
  "lib_to_vbytes_ceil sample_lib = (\<lambda>w. (w + 3) div 4)"
  by (simp_all add: sample_lib_def)

lemma sample_digest_lengths: "digest_lengths sample_lib"
  by (simp add: digest_lengths_def)

end
