(* ===== verification/CondStack.thy ===== *)
theory CondStack
  imports Prelude
begin

text \<open>
  \<open>ConditionStack\<close> of \<open>crates/rbitcoin-consensus/src/script/interpreter.rs\<close>: the IF/NOTIF/ELSE nesting
  kept as a depth and the index of the first false entry. The locale \<open>condition_ops\<close> is what the
  interpreter relies on, a simulation of a plain vector of booleans (bottom first).
\<close>

section \<open>Model\<close>

record condition_stack =
  cs_size :: nat
  cs_first_false :: "nat option"

definition cs_default :: condition_stack where
  "cs_default = \<lparr>cs_size = 0, cs_first_false = None\<rparr>"

definition cs_is_empty :: "condition_stack \<Rightarrow> bool" where
  "cs_is_empty c = (cs_size c = 0)"

definition cs_all_true :: "condition_stack \<Rightarrow> bool" where
  "cs_all_true c = (cs_first_false c = None)"

definition cs_push :: "bool \<Rightarrow> condition_stack \<Rightarrow> condition_stack" where
  "cs_push v c =
    (let c = (if cs_first_false c = None \<and> \<not> v then c\<lparr>cs_first_false := Some (cs_size c)\<rparr> else c)
     in c\<lparr>cs_size := cs_size c + 1\<rparr>)"

definition cs_pop :: "condition_stack \<Rightarrow> condition_stack" where
  "cs_pop c =
    (let c = c\<lparr>cs_size := cs_size c - 1\<rparr>
     in if cs_first_false c = Some (cs_size c) then c\<lparr>cs_first_false := None\<rparr> else c)"

definition cs_toggle_top :: "condition_stack \<Rightarrow> condition_stack" where
  "cs_toggle_top c =
    (let top = cs_size c - 1
     in case cs_first_false c of
          None \<Rightarrow> c\<lparr>cs_first_false := Some top\<rparr>
        | Some pos \<Rightarrow> if pos = top then c\<lparr>cs_first_false := None\<rparr> else c)"

section \<open>The contract\<close>

text \<open>The three ways the interpreter changes the nesting; ELSE and ENDIF need an open IF.\<close>

datatype cond_op = CPush bool | CElse | CEndif

fun naive_step :: "cond_op \<Rightarrow> bool list \<Rightarrow> bool list option" where
  "naive_step (CPush v) bs = Some (bs @ [v])"
| "naive_step CElse bs = (if bs = [] then None else Some (butlast bs @ [\<not> last bs]))"
| "naive_step CEndif bs = (if bs = [] then None else Some (butlast bs))"

fun cond_step :: "cond_op \<Rightarrow> condition_stack \<Rightarrow> condition_stack option" where
  "cond_step (CPush v) c = Some (cs_push v c)"
| "cond_step CElse c = (if cs_is_empty c then None else Some (cs_toggle_top c))"
| "cond_step CEndif c = (if cs_is_empty c then None else Some (cs_pop c))"

fun run_steps :: "('o \<Rightarrow> 's \<Rightarrow> 's option) \<Rightarrow> 'o list \<Rightarrow> 's \<Rightarrow> 's option" where
  "run_steps step [] s = Some s"
| "run_steps step (i # is) s = (case step i s of None \<Rightarrow> None | Some s' \<Rightarrow> run_steps step is s')"

locale condition_ops =
  fixes rel :: "'s \<Rightarrow> bool list \<Rightarrow> bool"
    and empty :: "'s"
    and push :: "bool \<Rightarrow> 's \<Rightarrow> 's"
    and pop :: "'s \<Rightarrow> 's"
    and toggle :: "'s \<Rightarrow> 's"
    and is_empty :: "'s \<Rightarrow> bool"
    and all_true :: "'s \<Rightarrow> bool"
    and step :: "cond_op \<Rightarrow> 's \<Rightarrow> 's option"
  assumes rel_empty: "rel empty []"
    and rel_push: "rel s bs \<Longrightarrow> rel (push v s) (bs @ [v])"
    and rel_pop: "rel s bs \<Longrightarrow> bs \<noteq> [] \<Longrightarrow> rel (pop s) (butlast bs)"
    and rel_toggle: "rel s bs \<Longrightarrow> bs \<noteq> [] \<Longrightarrow> rel (toggle s) (butlast bs @ [\<not> last bs])"
    and rel_is_empty: "rel s bs \<Longrightarrow> is_empty s \<longleftrightarrow> bs = []"
    and rel_all_true: "rel s bs \<Longrightarrow> all_true s \<longleftrightarrow> list_all (\<lambda>b. b) bs"
    and step_push: "step (CPush v) s = Some (push v s)"
    and step_else: "step CElse s = (if is_empty s then None else Some (toggle s))"
    and step_endif: "step CEndif s = (if is_empty s then None else Some (pop s))"
begin

lemma step_sim:
  assumes "rel s bs"
  shows "rel_option rel (step i s) (naive_step i bs)"
  using assms
  by (cases i) (auto simp: step_push step_else step_endif rel_is_empty rel_push rel_pop rel_toggle)

lemma run_sim: "rel s bs \<Longrightarrow> rel_option rel (run_steps step is s) (run_steps naive_step is bs)"
proof (induction "is" arbitrary: s bs)
  case (Cons i "is")
  then show ?case using step_sim [OF Cons.prems, of i] by (auto split: option.splits)
qed simp

lemma run_observed:
  "map_option (\<lambda>s. (is_empty s, all_true s)) (run_steps step is empty)
   = map_option (\<lambda>bs. (bs = [], list_all (\<lambda>b. b) bs)) (run_steps naive_step is [])"
  using run_sim [OF rel_empty, of "is"] by (auto simp: rel_is_empty rel_all_true option.rel_sel split: option.splits)

end

section \<open>The implementation meets it\<close>

definition cs_rel :: "condition_stack \<Rightarrow> bool list \<Rightarrow> bool" where
  "cs_rel c bs \<longleftrightarrow> cs_size c = length bs \<and>
     cs_first_false c = (if list_all (\<lambda>b. b) bs then None else Some (length (takeWhile (\<lambda>b. b) bs)))"

lemma takeWhile_id_less: "\<not> list_all (\<lambda>b. b) bs \<Longrightarrow> length (takeWhile (\<lambda>b. b) bs) < length bs"
  by (induction bs) auto

lemma takeWhile_id_append:
  "length (takeWhile (\<lambda>b. b) (xs @ ys)) =
    (if list_all (\<lambda>b. b) xs then length xs + length (takeWhile (\<lambda>b. b) ys) else length (takeWhile (\<lambda>b. b) xs))"
  by (induction xs) auto

interpretation cond: condition_ops cs_rel cs_default cs_push cs_pop cs_toggle_top cs_is_empty cs_all_true cond_step
proof unfold_locales
  fix s bs v
  assume "cs_rel s bs"
  then show "cs_rel (cs_push v s) (bs @ [v])" "cs_is_empty s \<longleftrightarrow> bs = []" "cs_all_true s \<longleftrightarrow> list_all (\<lambda>b. b) bs"
    by (auto simp: cs_rel_def cs_push_def cs_is_empty_def cs_all_true_def takeWhile_id_append Let_def)
next
  fix s bs
  assume rel: "cs_rel s bs" and "bs \<noteq> []"
  then obtain xs b where bs: "bs = xs @ [b]" by (metis append_butlast_last_id)
  show "cs_rel (cs_pop s) (butlast bs)" "cs_rel (cs_toggle_top s) (butlast bs @ [\<not> last bs])"
    using rel takeWhile_id_less [of xs] unfolding bs
    by (auto simp: cs_rel_def cs_pop_def cs_toggle_top_def takeWhile_id_append Let_def split: if_splits)
qed (auto simp: cs_rel_def cs_default_def)

text \<open>
  C30. The depth-and-first-false representation is observably a vector of booleans: after any sequence
  of IF, ELSE and ENDIF steps both fail at the same step or agree on emptiness and on whether every
  entry is true, so the constant-time \<open>executing\<close> test is the scan of the whole nesting.
\<close>

theorem condition_stack_refines:
  "map_option (\<lambda>c. (cs_is_empty c, cs_all_true c)) (run_steps cond_step ops cs_default)
   = map_option (\<lambda>bs. (bs = [], list_all (\<lambda>b. b) bs)) (run_steps naive_step ops [])"
  by (rule cond.run_observed)

end
