(* ===== verification/ScriptCode.thy ===== *)
theory ScriptCode
  imports Errors
begin

text \<open>
  Raw script bytes: the opcode constants (\<open>rbitcoin-primitives/src/script_opcode.rs\<close>), push
  encoding, the copy-on-write walk that builds a legacy scriptCode, the OP_SUCCESS scan and the
  opcode classes of \<open>rbitcoin-consensus/src/script/interpreter.rs\<close>. A \<open>Cow\<close> result is its bytes.
\<close>

section \<open>Opcodes\<close>

abbreviation OP_0 :: u8 where "OP_0 \<equiv> 0x00"
abbreviation OP_PUSHBYTES_75 :: u8 where "OP_PUSHBYTES_75 \<equiv> 0x4B"
abbreviation OP_PUSHDATA1 :: u8 where "OP_PUSHDATA1 \<equiv> 0x4C"
abbreviation OP_PUSHDATA2 :: u8 where "OP_PUSHDATA2 \<equiv> 0x4D"
abbreviation OP_PUSHDATA4 :: u8 where "OP_PUSHDATA4 \<equiv> 0x4E"
abbreviation OP_1NEGATE :: u8 where "OP_1NEGATE \<equiv> 0x4F"
abbreviation OP_RESERVED :: u8 where "OP_RESERVED \<equiv> 0x50"
abbreviation OP_TRUE :: u8 where "OP_TRUE \<equiv> 0x51"
abbreviation OP_PUSHNUM_16 :: u8 where "OP_PUSHNUM_16 \<equiv> 0x60"
abbreviation OP_RETURN :: u8 where "OP_RETURN \<equiv> 0x6A"
abbreviation OP_VERIF :: u8 where "OP_VERIF \<equiv> 0x65"
abbreviation OP_VERNOTIF :: u8 where "OP_VERNOTIF \<equiv> 0x66"
abbreviation OP_DUP :: u8 where "OP_DUP \<equiv> 0x76"
abbreviation OP_EQUAL :: u8 where "OP_EQUAL \<equiv> 0x87"
abbreviation OP_EQUALVERIFY :: u8 where "OP_EQUALVERIFY \<equiv> 0x88"
abbreviation OP_HASH160 :: u8 where "OP_HASH160 \<equiv> 0xA9"
abbreviation OP_CODESEPARATOR :: u8 where "OP_CODESEPARATOR \<equiv> 0xAB"
abbreviation OP_CHECKSIG :: u8 where "OP_CHECKSIG \<equiv> 0xAC"
abbreviation OP_CHECKSIGVERIFY :: u8 where "OP_CHECKSIGVERIFY \<equiv> 0xAD"
abbreviation OP_CHECKMULTISIG :: u8 where "OP_CHECKMULTISIG \<equiv> 0xAE"
abbreviation OP_CHECKMULTISIGVERIFY :: u8 where "OP_CHECKMULTISIGVERIFY \<equiv> 0xAF"

definition is_disabled_legacy :: "u8 \<Rightarrow> bool" where
  "is_disabled_legacy code =
    (code \<in> {0x7E, 0x7F, 0x80, 0x81, 0x83, 0x84, 0x85, 0x86, 0x8D, 0x8E, 0x95, 0x96, 0x97, 0x98, 0x99})"

definition is_op_success :: "u8 \<Rightarrow> bool" where
  "is_op_success code =
    (code \<in> {80, 98, 126, 127, 128, 129, 131, 132, 133, 134, 137, 138, 141, 142, 149, 150, 151, 152, 153}
     \<or> 187 \<le> code \<and> code \<le> 254)"

section \<open>Pushes and instruction boundaries\<close>

definition MAX_SCRIPT_ELEMENT_SIZE :: nat where
  "MAX_SCRIPT_ELEMENT_SIZE = 520"

definition script_elem_new :: "bytes \<Rightarrow> bytes consensus" where
  "script_elem_new data =
    (if length data > MAX_SCRIPT_ELEMENT_SIZE then Inl (Script ''push too large'') else Inr data)"

definition encode_push :: "bytes \<Rightarrow> bytes \<Rightarrow> bytes" where
  "encode_push out data =
    (let n = length data in
     (if n < 0x4C then out @ [word_of_nat n]
      else if n \<le> 0xFF then out @ [OP_PUSHDATA1, word_of_nat n]
      else if n \<le> 0xFFFF then out @ [OP_PUSHDATA2] @ to_le 2 n
      else out @ [OP_PUSHDATA4] @ to_le 4 n) @ data)"

definition instruction_end :: "bytes \<Rightarrow> nat \<Rightarrow> nat option" where
  "instruction_end script i =
    (let op = script ! i;
         j = i + 1;
         close = (\<lambda>j n. Some (if 0 < n then min (j + n) (length script) else j))
     in if 1 \<le> op \<and> op \<le> OP_PUSHBYTES_75 then close j (unat op)
        else if op = OP_PUSHDATA1 then
          (if length script \<le> j then None else close (j + 1) (unat (script ! j)))
        else if op = OP_PUSHDATA2 then
          (if length script \<le> j + 1 then None
           else close (j + 2) (of_le [script ! j, script ! (j + 1)]))
        else if op = OP_PUSHDATA4 then
          (if length script \<le> j + 3 then None
           else close (j + 4) (of_le [script ! j, script ! (j + 1), script ! (j + 2), script ! (j + 3)]))
        else close j 0)"

lemma starts_with_length: "starts_with xs p \<Longrightarrow> length p \<le> length xs"
  unfolding starts_with_def by (metis length_take min.cobounded1)

lemma instruction_end_bounds:
  "instruction_end script i = Some e \<Longrightarrow> i < length script \<Longrightarrow> i < e \<and> e \<le> length script"
  by (auto simp: instruction_end_def Let_def split: if_splits)

text \<open>The walk; \<open>out\<close> is the owned copy once something was dropped.\<close>

function legacy_code_loop ::
  "bytes \<Rightarrow> bool \<Rightarrow> bytes list \<Rightarrow> nat \<Rightarrow> bytes option \<Rightarrow> bool \<Rightarrow> bytes option \<times> bool" where
  "legacy_code_loop script drop_sep needles i out deleted_sig =
    (if length script \<le> i then (out, deleted_sig)
     else
       case List.find (\<lambda>needle. needle \<noteq> [] \<and> starts_with (drop i script) needle) needles of
         Some needle \<Rightarrow>
           legacy_code_loop script drop_sep needles (i + length needle)
             (if out = None then Some (take i script) else out) True
       | None \<Rightarrow>
           let op = script ! i in
           case instruction_end script i of
             None \<Rightarrow>
               (case out of
                  Some buf \<Rightarrow> (Some (buf @ [op]), deleted_sig)
                | None \<Rightarrow>
                    (if i + 1 < length script then Some (take (i + 1) script) else None, deleted_sig))
           | Some e \<Rightarrow>
               legacy_code_loop script drop_sep needles e
                 (if drop_sep \<and> op = OP_CODESEPARATOR
                  then (if out = None then Some (take i script) else out)
                  else map_option (\<lambda>buf. buf @ take (e - i) (drop i script)) out)
                 deleted_sig)"
  by pat_completeness auto
termination
proof (relation "measure (\<lambda>(script, _, _, i, _, _). length script - i)")
  fix script :: bytes and drop_sep needles and i :: nat and out deleted_sig needle
  assume i: "\<not> length script \<le> i"
    and "List.find (\<lambda>needle. needle \<noteq> [] \<and> starts_with (drop i script) needle) needles = Some needle"
  then have "0 < length needle" by (auto simp: find_Some_iff)
  then obtain n ns where "needle = n # ns" by (cases needle) auto
  with i show "((script, drop_sep, needles, i + length needle, if out = None then Some (take i script) else out, True),
      script, drop_sep, needles, i, out, deleted_sig) \<in> measure (\<lambda>(script, _, _, i, _, _). length script - i)"
    by simp
next
  fix script :: bytes and drop_sep needles and i :: nat and out deleted_sig x e
  assume "\<not> length script \<le> i" "instruction_end script i = Some e"
  then show "((script, drop_sep, needles, e,
        if drop_sep \<and> x = OP_CODESEPARATOR then if out = None then Some (take i script) else out
        else map_option (\<lambda>buf. buf @ take (e - i) (drop i script)) out, deleted_sig),
      script, drop_sep, needles, i, out, deleted_sig) \<in> measure (\<lambda>(script, _, _, i, _, _). length script - i)"
    using instruction_end_bounds [of script i e] by auto
qed simp

definition legacy_script_code_needles :: "bytes \<Rightarrow> bool \<Rightarrow> bytes list \<Rightarrow> bytes \<times> bool" where
  "legacy_script_code_needles script drop_sep needles =
    (let (out, deleted_sig) = legacy_code_loop script drop_sep needles 0 None False
     in (case out of Some buf \<Rightarrow> buf | None \<Rightarrow> script, deleted_sig))"

definition find_and_delete :: "bytes \<Rightarrow> bytes \<Rightarrow> bytes" where
  "find_and_delete script data = fst (legacy_script_code_needles script False [encode_push [] data])"

definition strip_op_codeseparator :: "bytes \<Rightarrow> bytes" where
  "strip_op_codeseparator script = fst (legacy_script_code_needles script True [])"

fun encode_sigs :: "bytes list \<Rightarrow> bytes list consensus" where
  "encode_sigs [] = Inr []"
| "encode_sigs (sig # sigs) =
    rbind (script_elem_new sig) (\<lambda>raw.
    rbind (encode_sigs sigs) (\<lambda>encoded. Inr (encode_push [] raw # encoded)))"

definition legacy_script_code :: "bytes \<Rightarrow> bytes list \<Rightarrow> (bytes \<times> bool) consensus" where
  "legacy_script_code script sigs =
    rbind (encode_sigs sigs) (\<lambda>encoded. Inr (legacy_script_code_needles script True encoded))"

section \<open>OP\_SUCCESS scan\<close>

function op_success_loop :: "bytes \<Rightarrow> nat \<Rightarrow> bool" where
  "op_success_loop script i =
    (if length script \<le> i then False
     else
       let op = script ! i in
       if 1 \<le> op \<and> op \<le> OP_PUSHBYTES_75 then op_success_loop script (i + 1 + unat op)
       else if op = OP_PUSHDATA1 then
         (if length script \<le> i + 1 then False
          else op_success_loop script (i + 2 + unat (script ! (i + 1))))
       else if op = OP_PUSHDATA2 then
         (if length script \<le> i + 2 then False
          else op_success_loop script (i + 3 + of_le [script ! (i + 1), script ! (i + 2)]))
       else if op = OP_PUSHDATA4 then
         (if length script \<le> i + 4 then False
          else op_success_loop script
                 (i + 5 + of_le [script ! (i + 1), script ! (i + 2), script ! (i + 3), script ! (i + 4)]))
       else if is_op_success op then True
       else op_success_loop script (i + 1))"
  by pat_completeness auto
termination by (relation "measure (\<lambda>(script, i). length script - i)") auto

definition tapscript_has_op_success :: "bytes \<Rightarrow> bool" where
  "tapscript_has_op_success script = op_success_loop script 0"

section \<open>Scripts as lists of instructions\<close>

text \<open>
  \<open>insn_len\<close> is the length of the first instruction and \<open>chunks\<close> the instructions of a script, as bytes.
  A push whose length bytes are cut off ends the list with its opcode alone.
\<close>

definition insn_len :: "bytes \<Rightarrow> nat option" where
  "insn_len xs = instruction_end xs 0"

lemma instruction_end_drop:
  assumes i: "i < length script"
  shows "instruction_end script i = map_option ((+) i) (insn_len (drop i script))"
proof -
  have d: "drop i script ! k = script ! (i + k)" for k using i by simp
  have l: "length (drop i script) \<le> k \<longleftrightarrow> length script \<le> i + k" for k using i by auto
  have m: "i + (if 0 < n then min (k + n) (length (drop i script)) else k) =
      (if 0 < n then min (i + k + n) (length script) else i + k)" for k n
    using i by (auto simp: min_def)
  have n: "i + (0 + k) = i + k" "i + (0 + k + k') = i + k + k'" for k k' :: nat by simp_all
  show ?thesis
    unfolding instruction_end_def insn_len_def Let_def d l if_distrib [of "map_option ((+) i)"] option.map
    by (simp only: m n add_0_right less_not_refl if_False)
qed

lemma insn_len_bounds: "insn_len xs = Some n \<Longrightarrow> xs \<noteq> [] \<Longrightarrow> 0 < n \<and> n \<le> length xs"
  using instruction_end_bounds [of xs 0 n] by (simp add: insn_len_def)

function chunks :: "bytes \<Rightarrow> bytes list" where
  "chunks xs =
    (if xs = [] then []
     else case insn_len xs of None \<Rightarrow> [[hd xs]] | Some n \<Rightarrow> take n xs # chunks (drop n xs))"
  by pat_completeness auto
termination
  by (relation "measure length") (auto dest: insn_len_bounds)

declare legacy_code_loop.simps [simp del] op_success_loop.simps [simp del] chunks.simps [simp del]

function kept_code :: "bool \<Rightarrow> bytes list \<Rightarrow> bytes \<Rightarrow> bytes" where
  "kept_code drop_sep needles xs =
    (if xs = [] then []
     else case List.find (\<lambda>needle. needle \<noteq> [] \<and> starts_with xs needle) needles of
       Some needle \<Rightarrow> kept_code drop_sep needles (drop (length needle) xs)
     | None \<Rightarrow>
         (case insn_len xs of
            None \<Rightarrow> [hd xs]
          | Some n \<Rightarrow>
              (if drop_sep \<and> hd xs = OP_CODESEPARATOR then [] else take n xs)
              @ kept_code drop_sep needles (drop n xs)))"
  by pat_completeness auto
termination
  by (relation "measure (\<lambda>(_, _, xs). length xs)")
    (auto dest: insn_len_bounds simp: find_Some_iff)

declare kept_code.simps [simp del]

lemma legacy_code_loop_kept:
  "i \<le> length script \<Longrightarrow>
   (case fst (legacy_code_loop script drop_sep needles i out del) of Some buf \<Rightarrow> buf | None \<Rightarrow> script)
     = (case out of Some buf \<Rightarrow> buf | None \<Rightarrow> take i script) @ kept_code drop_sep needles (drop i script)"
proof (induction script drop_sep needles i out del rule: legacy_code_loop.induct)
  case (1 script drop_sep needles i out del)
  show ?case
  proof (cases "length script \<le> i")
    case True
    with 1(3) show ?thesis by (auto simp: legacy_code_loop.simps [of script] kept_code.simps split: option.splits)
  next
    case False
    note unf = legacy_code_loop.simps [of script drop_sep needles i] kept_code.simps [of drop_sep needles "drop i script"]
    show ?thesis
    proof (cases "List.find (\<lambda>needle. needle \<noteq> [] \<and> starts_with (drop i script) needle) needles")
      case (Some needle)
      then have "starts_with (drop i script) needle" by (auto simp: find_Some_iff)
      then have "i + length needle \<le> length script"
        using False starts_with_length by fastforce
      then show ?thesis
        using 1(2) [OF False Some] False Some
        by (cases out) (simp_all add: unf add.commute)
    next
      case None
      have hd: "hd (drop i script) = script ! i" using False by (simp add: hd_drop_conv_nth)
      show ?thesis
      proof (cases "instruction_end script i")
        case None': None
        then have "insn_len (drop i script) = None"
          using False by (simp add: instruction_end_drop)
        moreover have "take (Suc i) script = take i script @ [script ! i]"
          using False by (simp add: take_Suc_conv_app_nth)
        moreover have "\<not> Suc i < length script \<Longrightarrow> take (Suc i) script = script"
          by simp
        ultimately show ?thesis using False None None' hd
          by (cases out; cases "Suc i < length script") (simp_all add: unf)
      next
        case (Some e)
        then have e: "i < e" "e \<le> length script" using False instruction_end_bounds by auto
        have len: "insn_len (drop i script) = Some (e - i)"
          using Some False by (auto simp: instruction_end_drop)
        have split: "take e script = take i script @ take (e - i) (drop i script)"
          using e take_add [of i "e - i" script] by simp
        have kept: "kept_code drop_sep needles (drop i script) =
            (if drop_sep \<and> script ! i = OP_CODESEPARATOR then [] else take (e - i) (drop i script))
            @ kept_code drop_sep needles (drop e script)"
          using False None len hd e by (simp add: kept_code.simps [of drop_sep needles "drop i script"])
        have step: "legacy_code_loop script drop_sep needles i out del =
            legacy_code_loop script drop_sep needles e
              (if drop_sep \<and> script ! i = OP_CODESEPARATOR then if out = None then Some (take i script) else out
               else map_option (\<lambda>buf. buf @ take (e - i) (drop i script)) out) del"
          using False None Some by (simp add: legacy_code_loop.simps [of script drop_sep needles i])
        show ?thesis
          unfolding step 1(1) [OF False None refl Some e(2)] kept
          by (cases out) (simp_all add: split)
      qed
    qed
  qed
qed

lemma legacy_script_code_kept:
  "fst (legacy_script_code_needles script drop_sep needles) = kept_code drop_sep needles script"
  using legacy_code_loop_kept [of 0 script drop_sep needles None False]
  by (cases "legacy_code_loop script drop_sep needles 0 None False")
    (simp add: legacy_script_code_needles_def)

subsection \<open>Complete pushes\<close>

lemma to_le_2: "to_le 2 n = [word_of_nat (n mod 256), word_of_nat (n div 256 mod 256)]"
  by (simp add: numeral_2_eq_2)

lemma to_le_4:
  "to_le 4 n = [word_of_nat (n mod 256), word_of_nat (n div 256 mod 256),
     word_of_nat (n div 256 div 256 mod 256), word_of_nat (n div 256 div 256 div 256 mod 256)]"
proof -
  have four: "(4 :: nat) = Suc (Suc (Suc (Suc 0)))" by simp
  show ?thesis by (simp only: four to_le.simps)
qed

definition complete_push :: "bytes \<Rightarrow> bool" where
  "complete_push c \<longleftrightarrow> (\<exists>d. length d < 2 ^ 32 \<and> c = encode_push [] d)"

lemma insn_len_direct:
  "1 \<le> op \<Longrightarrow> op \<le> OP_PUSHBYTES_75 \<Longrightarrow> insn_len (op # xs) = Some (min (1 + unat op) (1 + length xs))"
  by (auto simp: insn_len_def instruction_end_def Let_def word_le_nat_alt)

lemma insn_len_pushdata1:
  "insn_len (OP_PUSHDATA1 # xs) =
    (case xs of [] \<Rightarrow> None | b # ys \<Rightarrow> Some (min (2 + unat b) (2 + length ys)))"
  by (auto simp: insn_len_def instruction_end_def Let_def split: list.splits)

lemma insn_len_pushdata2:
  "insn_len (OP_PUSHDATA2 # xs) =
    (case xs of b0 # b1 # ys \<Rightarrow> Some (min (3 + of_le [b0, b1]) (3 + length ys)) | _ \<Rightarrow> None)"
  by (auto simp: insn_len_def instruction_end_def Let_def split: list.splits)

lemma insn_len_pushdata4:
  "insn_len (OP_PUSHDATA4 # xs) =
    (case xs of b0 # b1 # b2 # b3 # ys \<Rightarrow> Some (min (5 + of_le [b0, b1, b2, b3]) (5 + length ys)) | _ \<Rightarrow> None)"
  by (auto simp: insn_len_def instruction_end_def Let_def split: list.splits)

lemma insn_len_other:
  "\<not> (1 \<le> op \<and> op \<le> OP_PUSHBYTES_75) \<Longrightarrow> op \<notin> {OP_PUSHDATA1, OP_PUSHDATA2, OP_PUSHDATA4} \<Longrightarrow>
   insn_len (op # xs) = Some 1"
  by (auto simp: insn_len_def instruction_end_def Let_def)

lemma insn_len_encode_push:
  assumes "length d < 2 ^ 32"
  shows "insn_len (encode_push [] d @ ys) = Some (length (encode_push [] d))"
proof -
  let ?n = "length d"
  consider (z) "?n = 0" | (direct) "0 < ?n" "?n < 0x4C" | (one) "0x4C \<le> ?n" "?n \<le> 0xFF"
    | (two) "0xFF < ?n" "?n \<le> 0xFFFF" | (four) "0xFFFF < ?n" by linarith
  then show ?thesis
  proof cases
    case z
    then show ?thesis by (simp add: encode_push_def insn_len_other)
  next
    case direct
    have "(1 :: u8) \<le> word_of_nat ?n" "(word_of_nat ?n :: u8) \<le> OP_PUSHBYTES_75"
      using direct by (simp_all add: word_le_nat_alt unat_of_nat Suc_le_eq)
    then show ?thesis using direct by (simp add: encode_push_def insn_len_direct)
  next
    case one
    then show ?thesis by (simp add: encode_push_def insn_len_pushdata1)
  next
    case two
    then have "of_le (to_le 2 ?n) = ?n" by (simp add: of_le_to_le del: to_le.simps)
    then show ?thesis using two
      by (simp add: encode_push_def to_le_2 insn_len_pushdata2 Let_def del: of_le.simps)
  next
    case four
    then have "of_le (to_le 4 ?n) = ?n" using assms by (simp add: of_le_to_le del: to_le.simps)
    then show ?thesis using four
      by (simp add: encode_push_def to_le_4 insn_len_pushdata4 Let_def del: of_le.simps)
  qed
qed

lemma starts_with_append_iff: "starts_with xs p \<longleftrightarrow> (\<exists>ys. xs = p @ ys)"
proof
  assume "starts_with xs p"
  then have "xs = p @ drop (length p) xs" by (metis append_take_drop_id starts_with_def)
  then show "\<exists>ys. xs = p @ ys" ..
qed (auto simp: starts_with_def)

lemma complete_push_prefix:
  assumes "complete_push c"
  shows "starts_with xs c \<longleftrightarrow> insn_len xs = Some (length c) \<and> take (length c) xs = c"
  using assms insn_len_encode_push by (auto simp: complete_push_def starts_with_append_iff) (metis append_take_drop_id)

lemma complete_push_nonempty: "complete_push c \<Longrightarrow> c \<noteq> []"
  by (auto simp: complete_push_def encode_push_def Let_def)

lemma insn_len_separator: "insn_len (OP_CODESEPARATOR # xs) = Some 1"
  by (rule insn_len_other) auto

definition keeps :: "bool \<Rightarrow> bytes list \<Rightarrow> bytes \<Rightarrow> bool" where
  "keeps drop_sep needles c \<longleftrightarrow> c \<notin> set needles \<and> \<not> (drop_sep \<and> c = [OP_CODESEPARATOR])"

lemma find_needle:
  assumes "list_all complete_push needles" "xs \<noteq> []"
  shows "List.find (\<lambda>needle. needle \<noteq> [] \<and> starts_with xs needle) needles = Some c \<Longrightarrow>
      c \<in> set needles \<and> insn_len xs = Some (length c) \<and> take (length c) xs = c"
    and "List.find (\<lambda>needle. needle \<noteq> [] \<and> starts_with xs needle) needles = None \<Longrightarrow>
      insn_len xs = Some n \<Longrightarrow> take n xs \<notin> set needles"
    and "List.find (\<lambda>needle. needle \<noteq> [] \<and> starts_with xs needle) needles = None \<Longrightarrow>
      [hd xs] \<notin> set needles"
proof -
  have cp: "c \<in> set needles \<Longrightarrow> complete_push c" for c using assms(1) by (simp add: list_all_iff)
  show "c \<in> set needles \<and> insn_len xs = Some (length c) \<and> take (length c) xs = c"
    if "List.find (\<lambda>needle. needle \<noteq> [] \<and> starts_with xs needle) needles = Some c"
    using that cp complete_push_prefix by (auto simp: find_Some_iff)
  show "take n xs \<notin> set needles"
    if "List.find (\<lambda>needle. needle \<noteq> [] \<and> starts_with xs needle) needles = None" "insn_len xs = Some n"
  proof
    assume m: "take n xs \<in> set needles"
    moreover have "starts_with xs (take n xs)" by (metis append_take_drop_id starts_with_append_iff)
    ultimately show False
      using that(1) complete_push_nonempty [OF cp [OF m]] by (auto simp: find_None_iff)
  qed
  show "[hd xs] \<notin> set needles"
    if "List.find (\<lambda>needle. needle \<noteq> [] \<and> starts_with xs needle) needles = None"
  proof
    assume m: "[hd xs] \<in> set needles"
    moreover have "starts_with xs [hd xs]" using assms(2) by (cases xs) (auto simp: starts_with_def)
    ultimately show False using that by (auto simp: find_None_iff)
  qed
qed

text \<open>An instruction is complete, or it is the short tail of the script.\<close>

lemma insn_len_take:
  assumes "insn_len xs = Some n" "xs \<noteq> []"
  shows "n < length xs \<Longrightarrow> insn_len (take n xs @ ys) = Some n"
    and "insn_len (take n xs) = Some n"
proof -
  obtain op rest where xs: "xs = op # rest" using assms(2) by (cases xs) auto
  have "(n < length xs \<longrightarrow> insn_len (take n xs @ ys) = Some n) \<and> insn_len (take n xs) = Some n" for ys
  proof -
    consider (direct) "1 \<le> op" "op \<le> OP_PUSHBYTES_75" | (one) "op = OP_PUSHDATA1" | (two) "op = OP_PUSHDATA2"
      | (four) "op = OP_PUSHDATA4"
      | (other) "\<not> (1 \<le> op \<and> op \<le> OP_PUSHBYTES_75)" "op \<notin> {OP_PUSHDATA1, OP_PUSHDATA2, OP_PUSHDATA4}"
      by auto
    then show ?thesis
    proof cases
      case direct
      then show ?thesis using assms(1) unfolding xs
        by (auto simp: insn_len_direct take_Cons' min_def split: if_splits)
    next
      case one
      then show ?thesis using assms(1) unfolding xs
        by (auto simp: insn_len_pushdata1 take_Cons' min_def split: if_splits list.splits)
    next
      case two
      then show ?thesis using assms(1) unfolding xs
        by (auto simp: insn_len_pushdata2 take_Cons' min_def simp del: of_le.simps split: if_splits list.splits)
    next
      case four
      then show ?thesis using assms(1) unfolding xs
        by (auto simp: insn_len_pushdata4 take_Cons' min_def simp del: of_le.simps split: if_splits list.splits)
    next
      case other
      then show ?thesis using assms(1) unfolding xs by (auto simp: insn_len_other take_Cons')
    qed
  qed
  then show "n < length xs \<Longrightarrow> insn_len (take n xs @ ys) = Some n" "insn_len (take n xs) = Some n"
    by blast+
qed

lemma insn_len_opcode: "insn_len xs = None \<Longrightarrow> xs \<noteq> [] \<Longrightarrow> insn_len [hd xs] = None"
proof -
  assume none: "insn_len xs = None" and "xs \<noteq> []"
  then obtain op rest where xs: "xs = op # rest" by (cases xs) auto
  have "op \<in> {OP_PUSHDATA1, OP_PUSHDATA2, OP_PUSHDATA4}"
    using none insn_len_other [of op rest] insn_len_direct [of op rest] unfolding xs by fastforce
  then show ?thesis
    unfolding xs by (auto simp: insn_len_pushdata1 insn_len_pushdata2 insn_len_pushdata4)
qed

lemma chunks_kept_code:
  "list_all complete_push needles \<Longrightarrow>
   chunks (kept_code drop_sep needles xs) = filter (keeps drop_sep needles) (chunks xs) \<and>
   kept_code drop_sep needles xs = concat (filter (keeps drop_sep needles) (chunks xs))"
proof (induction drop_sep needles xs rule: kept_code.induct)
  case (1 drop_sep needles xs)
  show ?case
  proof (cases "xs = []")
    case True
    then show ?thesis by (simp add: kept_code.simps chunks.simps)
  next
    case False
    note unf = kept_code.simps [of drop_sep needles xs] chunks.simps [of xs]
    show ?thesis
    proof (cases "List.find (\<lambda>needle. needle \<noteq> [] \<and> starts_with xs needle) needles")
      case (Some c)
      note found = find_needle(1) [OF 1(3) False Some]
      have "kept_code drop_sep needles xs = kept_code drop_sep needles (drop (length c) xs)"
        using False Some by (simp add: unf)
      moreover have "filter (keeps drop_sep needles) (chunks xs) = filter (keeps drop_sep needles) (chunks (drop (length c) xs))"
        using found False by (simp add: unf keeps_def)
      ultimately show ?thesis using 1(2) [OF False Some 1(3)] by metis
    next
      case None
      show ?thesis
      proof (cases "insn_len xs")
        case None': None
        have "hd xs \<noteq> OP_CODESEPARATOR"
          using None' False insn_len_separator by (cases xs) auto
        then have "keeps drop_sep needles [hd xs]"
          using find_needle(3) [OF 1(3) False None] by (simp add: keeps_def)
        then show ?thesis
          using False None None' insn_len_opcode [OF None' False]
          by (simp add: unf chunks.simps [of "[hd xs]"])
      next
        case (Some n)
        have n: "0 < n" "n \<le> length xs" using insn_len_bounds [OF Some False] by auto
        have ih: "chunks (kept_code drop_sep needles (drop n xs)) = filter (keeps drop_sep needles) (chunks (drop n xs))"
          "kept_code drop_sep needles (drop n xs) = concat (filter (keeps drop_sep needles) (chunks (drop n xs)))"
          using 1(1) [OF False None Some 1(3)] by auto
        have sep: "hd xs = OP_CODESEPARATOR \<longleftrightarrow> take n xs = [OP_CODESEPARATOR]"
          using Some False n insn_len_separator by (cases xs) (auto simp: take_Cons')
        have keep: "keeps drop_sep needles (take n xs) \<longleftrightarrow> \<not> (drop_sep \<and> hd xs = OP_CODESEPARATOR)"
          using find_needle(2) [OF 1(3) False None Some] sep by (simp add: keeps_def)
        show ?thesis
        proof (cases "drop_sep \<and> hd xs = OP_CODESEPARATOR")
          case True
          then have "kept_code drop_sep needles xs = kept_code drop_sep needles (drop n xs)"
            using False None Some by (simp add: kept_code.simps [of _ needles xs])
          moreover have "filter (keeps drop_sep needles) (chunks xs) = filter (keeps drop_sep needles) (chunks (drop n xs))"
            using True keep False Some by (simp add: chunks.simps [of xs])
          ultimately show ?thesis using ih by metis
        next
          case drop: False
          let ?r = "kept_code drop_sep needles (drop n xs)"
          have kept: "kept_code drop_sep needles xs = take n xs @ ?r"
            using False None Some drop by (auto simp: unf)
          have "insn_len (take n xs @ ?r) = Some n"
          proof (cases "n < length xs")
            case True
            then show ?thesis using insn_len_take(1) [OF Some False] by simp
          next
            case full: False
            then have "?r = []" using n by (simp add: kept_code.simps)
            then show ?thesis using insn_len_take(2) [OF Some False] by simp
          qed
          then have "chunks (take n xs @ ?r) = take n xs # chunks ?r"
            using n False by (subst chunks.simps) simp
          then show ?thesis
            using False Some keep drop ih unfolding kept by (auto simp: chunks.simps [of xs])
        qed
      qed
    qed
  qed
qed

lemma deleted_iff:
  "list_all complete_push needles \<Longrightarrow> i \<le> length script \<Longrightarrow>
   snd (legacy_code_loop script drop_sep needles i out del)
     \<longleftrightarrow> del \<or> list_ex (\<lambda>c. c \<in> set needles) (chunks (drop i script))"
proof (induction script drop_sep needles i out del rule: legacy_code_loop.induct)
  case (1 script drop_sep needles i out del)
  show ?case
  proof (cases "length script \<le> i")
    case True
    then show ?thesis by (simp add: legacy_code_loop.simps [of script] chunks.simps)
  next
    case False
    let ?xs = "drop i script"
    have ne: "?xs \<noteq> []" using False by simp
    note unf = legacy_code_loop.simps [of script drop_sep needles i] chunks.simps [of ?xs]
    show ?thesis
    proof (cases "List.find (\<lambda>needle. needle \<noteq> [] \<and> starts_with ?xs needle) needles")
      case (Some c)
      note found = find_needle(1) [OF 1(3) ne Some]
      then have "i + length c \<le> length script" using insn_len_bounds [of ?xs "length c"] ne by auto
      then show ?thesis
        using 1(2) [OF False Some 1(3)] False Some found ne by (simp add: unf)
    next
      case None
      show ?thesis
      proof (cases "instruction_end script i")
        case None': None
        then have "insn_len ?xs = None" using False by (simp add: instruction_end_drop)
        then show ?thesis
          using False None None' ne find_needle(3) [OF 1(3) ne None]
          by (simp add: unf split: option.splits)
      next
        case (Some e)
        then have e: "i < e" "e \<le> length script" using False instruction_end_bounds by auto
        have len: "insn_len ?xs = Some (e - i)"
          using Some False by (auto simp: instruction_end_drop)
        then show ?thesis
          using 1(1) [OF False None refl Some 1(3) e(2)] False None Some ne e
            find_needle(2) [OF 1(3) ne None len]
          by (simp add: unf)
      qed
    qed
  qed
qed

lemma encode_sigs_ok:
  "encode_sigs sigs = Inr encoded \<Longrightarrow>
   encoded = map (encode_push []) sigs \<and> list_all complete_push encoded \<and>
   list_all (\<lambda>sig. length sig \<le> MAX_SCRIPT_ELEMENT_SIZE) sigs"
proof (induction sigs arbitrary: encoded)
  case (Cons a sigs)
  have "length a \<le> 520 \<Longrightarrow> complete_push (encode_push [] a)"
    unfolding complete_push_def by (rule exI [of _ a]) simp
  then show ?case using Cons
    by (auto simp: result_simps script_elem_new_def MAX_SCRIPT_ELEMENT_SIZE_def split: if_splits)
qed simp

lemma legacy_script_code_eq:
  assumes "legacy_script_code script sigs = Inr (code, deleted)"
  shows "code = concat (filter (\<lambda>c. c \<notin> set (map (encode_push []) sigs) \<and> c \<noteq> [OP_CODESEPARATOR]) (chunks script))"
proof -
  let ?needles = "map (encode_push []) sigs"
  have enc: "encode_sigs sigs = Inr ?needles" "list_all complete_push ?needles"
    and res: "legacy_script_code_needles script True ?needles = (code, deleted)"
    using assms encode_sigs_ok by (auto simp: legacy_script_code_def result_simps)
  have keeps: "keeps True ?needles = (\<lambda>c. c \<notin> set ?needles \<and> c \<noteq> [OP_CODESEPARATOR])"
    by (auto simp: keeps_def)
  have "code = kept_code True ?needles script"
    using res legacy_script_code_kept by (metis fst_conv)
  then show ?thesis using chunks_kept_code [OF enc(2), of True script] unfolding keeps by metis
qed

lemma legacy_script_code_total:
  "list_all (\<lambda>sig. length sig \<le> 520) sigs \<Longrightarrow> is_ok (legacy_script_code script sigs)"
proof -
  assume "list_all (\<lambda>sig. length sig \<le> 520) sigs"
  then have "is_ok (encode_sigs sigs)"
    by (induction sigs) (auto simp: is_ok_iff result_simps script_elem_new_def MAX_SCRIPT_ELEMENT_SIZE_def)
  then show ?thesis by (auto simp: legacy_script_code_def is_ok_iff)
qed

section \<open>Properties\<close>

text \<open>
  C18. The copy-on-write walk is the filter of the instruction list: the scriptCode hashed for a legacy
  signature has exactly the instructions of the script that are neither a push of one of the
  signatures nor OP\_CODESEPARATOR, in order, and the flag says whether a signature push was there.
\<close>

theorem legacy_script_code_filter:
  assumes "legacy_script_code script sigs = Inr (code, deleted)"
  shows "chunks code = filter (\<lambda>c. c \<notin> set (map (encode_push []) sigs) \<and> c \<noteq> [OP_CODESEPARATOR]) (chunks script)
    \<and> code = concat (chunks code)
    \<and> (deleted \<longleftrightarrow> list_ex (\<lambda>c. c \<in> set (map (encode_push []) sigs)) (chunks script))"
proof -
  let ?needles = "map (encode_push []) sigs"
  have enc: "encode_sigs sigs = Inr ?needles" "list_all complete_push ?needles"
    and res: "legacy_script_code_needles script True ?needles = (code, deleted)"
    using assms encode_sigs_ok by (auto simp: legacy_script_code_def result_simps)
  have keeps: "keeps True ?needles = (\<lambda>c. c \<notin> set ?needles \<and> c \<noteq> [OP_CODESEPARATOR])"
    by (auto simp: keeps_def)
  have "code = kept_code True ?needles script"
    using res legacy_script_code_kept by (metis fst_conv)
  moreover have "deleted \<longleftrightarrow> list_ex (\<lambda>c. c \<in> set ?needles) (chunks script)"
    using res deleted_iff [OF enc(2), of 0 script True None False]
    by (auto simp: legacy_script_code_needles_def split: prod.splits)
  ultimately show ?thesis
    using chunks_kept_code [OF enc(2), of True script] unfolding keeps by metis
qed

theorem legacy_script_code_filter_witness:
  "legacy_script_code [0x51, 0xAB, 0x02, 7, 8, 0x01, 0xAB, 0xAC] [[7, 8]] = Inr ([0x51, 0x01, 0xAB, 0xAC], True)
   \<and> chunks [0x51, 0x01, 0xAB, 0xAC] = [[0x51], [0x01, 0xAB], [0xAC]]"
proof -
  have run: "legacy_script_code [0x51, 0xAB, 0x02, 7, 8, 0x01, 0xAB, 0xAC] [[7, 8]] = Inr ([0x51, 0x01, 0xAB, 0xAC], True)"
    by code_simp
  have "filter (\<lambda>c. c \<notin> set (map (encode_push []) [[7, 8]]) \<and> c \<noteq> [OP_CODESEPARATOR])
      (chunks [0x51, 0xAB, 0x02, 7, 8, 0x01, 0xAB, 0xAC]) = [[0x51], [0x01, 0xAB], [0xAC]]"
    by code_simp
  with legacy_script_code_filter [OF run] run show ?thesis by simp
qed

end
