(* ===== verification/Sigops.thy ===== *)
theory Sigops
  imports ScriptCode Btc
begin

text \<open>
  Signature-operation counting: \<open>script_sigop_count\<close> (\<open>rbitcoin-primitives/src/script_sigops.rs\<close>) and the
  per-input and per-transaction costs of \<open>rbitcoin-consensus/src/block/mod.rs\<close>. A loop over byte
  positions is a recursive function on the position; a slice is the list of its bytes.
\<close>

section \<open>Model\<close>

text \<open>
  The push part of an opcode at position \<open>i - 1\<close>: the payload length with the position after the length
  bytes, no push, or the end of the script inside the length bytes.
\<close>

datatype push_scan = Truncated | Payload nat nat | NoPush

definition scan_push :: "bytes \<Rightarrow> nat \<Rightarrow> u8 \<Rightarrow> push_scan" where
  "scan_push script i opcode =
    (if opcode \<le> OP_PUSHBYTES_75 then Payload i (unat opcode)
     else if opcode = OP_PUSHDATA1 then
       (if length script \<le> i then Truncated else Payload (i + 1) (unat (script ! i)))
     else if opcode = OP_PUSHDATA2 then
       (if length script \<le> i + 1 then Truncated else Payload (i + 2) (of_le [script ! i, script ! (i + 1)]))
     else if opcode = OP_PUSHDATA4 then
       (if length script \<le> i + 3 then Truncated else Payload (i + 4) (of_le (take 4 (drop i script))))
     else NoPush)"

lemma scan_push_pos: "scan_push script i opcode = Payload j n \<Longrightarrow> i \<le> j"
  by (auto simp: scan_push_def split: if_splits)

definition sigop_add :: "bool \<Rightarrow> u64 \<Rightarrow> u8 \<Rightarrow> u8 \<Rightarrow> u64" where
  "sigop_add accurate n opcode last_opcode =
    (if opcode = OP_CHECKSIG \<or> opcode = OP_CHECKSIGVERIFY then sat_add n 1
     else if opcode = OP_CHECKMULTISIG \<or> opcode = OP_CHECKMULTISIGVERIFY then
       (if accurate \<and> OP_TRUE \<le> last_opcode \<and> last_opcode \<le> OP_PUSHNUM_16
        then sat_add n (ucast (last_opcode - OP_RESERVED))
        else sat_add n 20)
     else n)"

function sigop_loop :: "bytes \<Rightarrow> bool \<Rightarrow> nat \<Rightarrow> u64 \<Rightarrow> u8 \<Rightarrow> u64" where
  "sigop_loop script accurate i n last_opcode =
    (if length script \<le> i then n
     else
       let opcode = script ! i in
       case scan_push script (i + 1) opcode of
         Truncated \<Rightarrow> n
       | Payload j push \<Rightarrow>
           if length script < j + push then n else sigop_loop script accurate (j + push) n opcode
       | NoPush \<Rightarrow> sigop_loop script accurate (i + 1) (sigop_add accurate n opcode last_opcode) opcode)"
  by pat_completeness auto
termination
  by (relation "measure (\<lambda>(script, _, i, _, _). length script - i)") (auto dest: scan_push_pos)

definition script_sigop_count :: "bytes \<Rightarrow> bool \<Rightarrow> u64" where
  "script_sigop_count script accurate = sigop_loop script accurate 0 0 0xFF"

definition legacy_sigop_count :: "transaction \<Rightarrow> u64" where
  "legacy_sigop_count tx =
    fold (\<lambda>out n. sat_add n (script_sigop_count (to_script_pubkey out) False)) (tx_output tx)
      (fold (\<lambda>inp n. sat_add n (script_sigop_count (ti_script_sig inp) False)) (tx_input tx) 0)"

function last_push_loop :: "bytes \<Rightarrow> nat \<Rightarrow> bytes \<Rightarrow> bytes option" where
  "last_push_loop script i recent =
    (if length script \<le> i then Some recent
     else
       let opcode = script ! i in
       if OP_PUSHNUM_16 < opcode then None
       else case scan_push script (i + 1) opcode of
         Truncated \<Rightarrow> None
       | Payload j push \<Rightarrow>
           if length script < j + push then None
           else last_push_loop script (j + push) (take push (drop j script))
       | NoPush \<Rightarrow> last_push_loop script (i + 1) [])"
  by pat_completeness auto
termination
  by (relation "measure (\<lambda>(script, i, _). length script - i)") (auto dest: scan_push_pos)

definition last_script_push :: "bytes \<Rightarrow> bytes option" where
  "last_script_push script = last_push_loop script 0 []"

definition p2sh_sigops_one :: "btc_lib \<Rightarrow> txin \<Rightarrow> bytes \<Rightarrow> u64" where
  "p2sh_sigops_one L inp spk =
    (if \<not> lib_is_p2sh L spk then 0
     else case last_script_push (ti_script_sig inp) of
            Some redeem \<Rightarrow> script_sigop_count redeem True
          | None \<Rightarrow> 0)"

definition witness_sigops_one :: "btc_lib \<Rightarrow> txin \<Rightarrow> bytes \<Rightarrow> u64" where
  "witness_sigops_one L inp spk =
    (case (if lib_is_p2sh L spk then last_script_push (ti_script_sig inp) else Some spk) of
       None \<Rightarrow> 0
     | Some program \<Rightarrow>
         if lib_is_p2wpkh L program then 1
         else if lib_is_p2wsh L program then
           (if ti_witness inp = [] then 0 else script_sigop_count (last (ti_witness inp)) True)
         else 0)"

definition WITNESS_SCALE :: u64 where
  "WITNESS_SCALE = 4"

definition prevout_spk_sigops :: "btc_lib \<Rightarrow> txin \<Rightarrow> bytes \<Rightarrow> bool \<Rightarrow> bool \<Rightarrow> u64" where
  "prevout_spk_sigops L inp spk bip16 witness =
    (let n = (if bip16 then sat_add 0 (sat_mul (p2sh_sigops_one L inp spk) WITNESS_SCALE) else 0)
     in if witness then sat_add n (witness_sigops_one L inp spk) else n)"

definition tx_sigop_cost :: "btc_lib \<Rightarrow> transaction \<Rightarrow> bytes list \<Rightarrow> bool \<Rightarrow> bool \<Rightarrow> u64" where
  "tx_sigop_cost L tx prev_spks bip16 witness =
    fold (\<lambda>(i, inp) cost.
        if i < length prev_spks then sat_add cost (prevout_spk_sigops L inp (prev_spks ! i) bip16 witness)
        else cost)
      (enumerate 0 (tx_input tx)) (sat_mul (legacy_sigop_count tx) WITNESS_SCALE)"

section \<open>Bounds\<close>

declare sigop_loop.simps [simp del] last_push_loop.simps [simp del]

lemma sat_add_mono: "unat a \<le> unat c \<Longrightarrow> unat b \<le> unat d \<Longrightarrow> unat (sat_add a b) \<le> unat (sat_add c d)"
  for a b c d :: "'a::len word"
  by (simp add: unat_sat_add)

lemma pushnum_le_20:
  "OP_TRUE \<le> op \<and> op \<le> OP_PUSHNUM_16 \<Longrightarrow> unat (ucast (op - OP_RESERVED) :: u64) \<le> 20"
proof -
  assume "OP_TRUE \<le> op \<and> op \<le> OP_PUSHNUM_16"
  then have "81 \<le> unat op" "unat op \<le> 96" by (simp_all add: word_le_nat_alt)
  then show ?thesis by (simp add: unat_ucast_mod unat_sub_if')
qed

lemma sigop_add_mono:
  "unat a \<le> unat b \<Longrightarrow> unat (sigop_add True a op lo) \<le> unat (sigop_add False b op lo)"
  using pushnum_le_20 [of lo] by (auto simp: sigop_add_def intro!: sat_add_mono)

lemma sigop_add_bound: "unat (sigop_add accurate n op lo) \<le> unat n + 20"
  using pushnum_le_20 [of lo] by (auto simp: sigop_add_def unat_sat_add min_le_iff_disj)

lemma sigop_loop_accurate_le:
  "unat a \<le> unat b \<Longrightarrow> unat (sigop_loop script True i a lo) \<le> unat (sigop_loop script False i b lo)"
proof (induction script True i a lo arbitrary: b rule: sigop_loop.induct)
  case (1 script i a lo)
  then show ?case
    by (cases "length script \<le> i"; cases "scan_push script (i + 1) (script ! i)")
      (auto simp: sigop_loop.simps [of script _ i] sigop_add_mono Let_def)
qed

lemma sigop_loop_bound:
  "i \<le> length script \<Longrightarrow> unat (sigop_loop script accurate i n lo) \<le> unat n + 20 * (length script - i)"
proof (induction script accurate i n lo rule: sigop_loop.induct)
  case (1 script accurate i n lo)
  show ?case
  proof (cases "length script \<le> i")
    case True
    then show ?thesis by (simp add: sigop_loop.simps [of script _ i])
  next
    case False
    show ?thesis
    proof (cases "scan_push script (i + 1) (script ! i)")
      case Truncated
      then show ?thesis using False by (simp add: sigop_loop.simps [of script _ i])
    next
      case (Payload j push)
      then have "i < j" using scan_push_pos by force
      then show ?thesis using 1(1) [OF False refl Payload] False Payload
        by (auto simp: sigop_loop.simps [of script _ i])
    next
      case NoPush
      then show ?thesis
        using 1(2) [OF False refl NoPush] False sigop_add_bound [of accurate n "script ! i" lo]
        by (auto simp: sigop_loop.simps [of script _ i] Let_def)
    qed
  qed
qed

text \<open>
  The accurate count of a script never exceeds the legacy count, and neither exceeds twenty per
  byte, so the saturating additions never saturate on a script of realistic size.
\<close>

theorem script_sigop_count_bounds:
  "unat (script_sigop_count script True) \<le> unat (script_sigop_count script False)
   \<and> unat (script_sigop_count script False) \<le> 20 * length script"
  using sigop_loop_accurate_le [where a = 0 and b = 0 and script = script and i = 0 and lo = "0xFF"]
    sigop_loop_bound [where i = 0 and script = script and accurate = False and n = 0 and lo = "0xFF"]
  by (simp add: script_sigop_count_def)

end
