(* ===== verification/Precompute.thy ===== *)
theory Precompute
  imports Sigops
begin

text \<open>
  Per-transaction facts of \<open>crates/rbitcoin-consensus/src/tx_precompute.rs\<close>: ids, sizes, sigops,
  output sum and the BIP143/BIP341 midstates. A hash engine is the bytes fed to it so far; a
  \<open>OnceLock\<close> that memoizes a pure function is that function. \<open>usize\<close> sums of serialized lengths are
  natural numbers.
\<close>

section \<open>Rows\<close>

record tx_connect_precompute =
  tc_txid :: bytes
  tc_wtxid :: bytes
  tc_base_size :: nat
  tc_total_size :: nat
  tc_sigops :: u64
  tc_out_sum :: u64
  tc_has_witness :: bool

record tx_script_precompute =
  tp_connect :: tx_connect_precompute
  tp_sha_prevouts :: bytes
  tp_sha_sequences :: bytes
  tp_sha_outputs :: bytes
  tp_sha_amounts :: "bytes option"
  tp_sha_scriptpubkeys :: "bytes option"

datatype tx_precompute = ConnectRow tx_connect_precompute | ScriptRow tx_script_precompute

definition weight_wu :: "tx_connect_precompute \<Rightarrow> nat" where
  "weight_wu c = tc_base_size c * 3 + tc_total_size c"

fun row_connect :: "tx_precompute \<Rightarrow> tx_connect_precompute" where
  "row_connect (ConnectRow c) = c"
| "row_connect (ScriptRow s) = tp_connect s"

fun as_script :: "tx_precompute \<Rightarrow> tx_script_precompute option" where
  "as_script (ConnectRow _) = None"
| "as_script (ScriptRow s) = Some s"

fun into_connect :: "tx_precompute \<Rightarrow> tx_connect_precompute" where
  "into_connect (ConnectRow c) = c"
| "into_connect (ScriptRow s) = tp_connect s"

definition pack_precompute ::
  "tx_connect_precompute \<Rightarrow> bytes option \<Rightarrow> bytes option \<Rightarrow> bytes option \<Rightarrow> tx_precompute" where
  "pack_precompute connect sha_prevouts sha_sequences sha_outputs =
    (case (sha_prevouts, sha_sequences, sha_outputs) of
       (Some p, Some s, Some out) \<Rightarrow>
         ScriptRow \<lparr>tp_connect = connect, tp_sha_prevouts = p, tp_sha_sequences = s, tp_sha_outputs = out,
           tp_sha_amounts = None, tp_sha_scriptpubkeys = None\<rparr>
     | _ \<Rightarrow> ConnectRow connect)"

definition uses_segwit_serialization :: "transaction \<Rightarrow> bool" where
  "uses_segwit_serialization tx =
    (if list_ex (\<lambda>i. ti_witness i \<noteq> []) (tx_input tx) then True else tx_input tx = [])"

definition sighash_midstates_for :: "btc_lib \<Rightarrow> transaction \<Rightarrow> bool" where
  "sighash_midstates_for L tx = (\<not> lib_is_coinbase L tx \<and> uses_segwit_serialization tx)"

section \<open>Walk of a decoded transaction\<close>

record walk =
  w_txid :: bytes
  w_wtxid :: bytes
  w_prev :: "bytes option"
  w_seq :: "bytes option"
  w_out :: "bytes option"
  w_base :: nat
  w_total :: nat
  w_sigops :: u64
  w_out_sum :: u64

definition walk_start :: "bool \<Rightarrow> walk" where
  "walk_start sighash =
    \<lparr>w_txid = [], w_wtxid = [], w_prev = (if sighash then Some [] else None),
     w_seq = (if sighash then Some [] else None), w_out = (if sighash then Some [] else None),
     w_base = 0, w_total = 0, w_sigops = 0, w_out_sum = 0\<rparr>"

text \<open>\<open>enc\<close> feeds an encoding to an engine and returns its length.\<close>

definition enc_base :: "bytes \<Rightarrow> walk \<Rightarrow> walk" where
  "enc_base v w = w\<lparr>w_txid := w_txid w @ v, w_base := w_base w + length v\<rparr>"

definition enc_total :: "bytes \<Rightarrow> walk \<Rightarrow> walk" where
  "enc_total v w = w\<lparr>w_wtxid := w_wtxid w @ v, w_total := w_total w + length v\<rparr>"

definition enc_both :: "bytes \<Rightarrow> walk \<Rightarrow> walk" where
  "enc_both v w = enc_total v (enc_base v w)"

definition walk_txin :: "btc_lib \<Rightarrow> txin \<Rightarrow> walk \<Rightarrow> walk" where
  "walk_txin L txin w =
    (let w = enc_both (enc_outpoint L (ti_previous_output txin)) w;
         w = w\<lparr>w_prev := map_option (\<lambda>e. e @ enc_outpoint L (ti_previous_output txin)) (w_prev w)\<rparr>;
         w = enc_both (enc_script L (ti_script_sig txin)) w;
         w = w\<lparr>w_sigops := sat_add (w_sigops w) (script_sigop_count (ti_script_sig txin) False)\<rparr>;
         w = enc_both (enc_u32 L (ti_sequence txin)) w
     in w\<lparr>w_seq := map_option (\<lambda>e. e @ enc_u32 L (ti_sequence txin)) (w_seq w)\<rparr>)"

definition walk_txout :: "btc_lib \<Rightarrow> txout \<Rightarrow> walk \<Rightarrow> walk" where
  "walk_txout L txout w =
    (let w = enc_both (enc_txout L txout) w;
         w = w\<lparr>w_out := map_option (\<lambda>e. e @ enc_txout L txout) (w_out w)\<rparr>;
         w = w\<lparr>w_sigops := sat_add (w_sigops w) (script_sigop_count (to_script_pubkey txout) False)\<rparr>
     in w\<lparr>w_out_sum := sat_add (w_out_sum w) (to_value txout)\<rparr>)"

text \<open>Without witness data the stripped and the wire encoding agree; only the first engine is read.\<close>

definition from_tx_legacy_one_engine :: "btc_lib \<Rightarrow> transaction \<Rightarrow> bool \<Rightarrow> tx_precompute" where
  "from_tx_legacy_one_engine L tx sighash =
    (let w = enc_both (enc_u32 L (tx_version tx)) (walk_start sighash);
         w = enc_both (enc_varint L (word_of_nat (length (tx_input tx)))) w;
         w = fold (walk_txin L) (tx_input tx) w;
         w = enc_both (enc_varint L (word_of_nat (length (tx_output tx)))) w;
         w = fold (walk_txout L) (tx_output tx) w;
         w = enc_both (enc_u32 L (tx_lock_time tx)) w;
         txid = lib_sha256d L (w_txid w)
     in pack_precompute
          \<lparr>tc_txid = txid, tc_wtxid = txid, tc_base_size = w_base w, tc_total_size = w_base w,
           tc_sigops = w_sigops w, tc_out_sum = w_out_sum w, tc_has_witness = False\<rparr>
          (map_option (lib_sha256 L) (w_prev w)) (map_option (lib_sha256 L) (w_seq w))
          (map_option (lib_sha256 L) (w_out w)))"

definition from_tx_inner :: "btc_lib \<Rightarrow> transaction \<Rightarrow> bool \<Rightarrow> tx_precompute" where
  "from_tx_inner L tx sighash =
    (let has_witness = uses_segwit_serialization tx;
         sighash = (sighash \<and> has_witness \<and> \<not> lib_is_coinbase L tx)
     in if \<not> has_witness then from_tx_legacy_one_engine L tx sighash
        else
          let w = enc_both (enc_u32 L (tx_version tx)) (walk_start sighash);
              w = enc_total [0] w;
              w = enc_total [1] w;
              w = enc_both (enc_varint L (word_of_nat (length (tx_input tx)))) w;
              w = fold (walk_txin L) (tx_input tx) w;
              w = enc_both (enc_varint L (word_of_nat (length (tx_output tx)))) w;
              w = fold (walk_txout L) (tx_output tx) w;
              w = fold (\<lambda>txin w. enc_total (enc_witness L (ti_witness txin)) w) (tx_input tx) w;
              w = enc_both (enc_u32 L (tx_lock_time tx)) w
          in pack_precompute
               \<lparr>tc_txid = lib_sha256d L (w_txid w), tc_wtxid = lib_sha256d L (w_wtxid w),
                tc_base_size = w_base w, tc_total_size = w_total w, tc_sigops = w_sigops w,
                tc_out_sum = w_out_sum w, tc_has_witness = has_witness\<rparr>
               (map_option (lib_sha256 L) (w_prev w)) (map_option (lib_sha256 L) (w_seq w))
               (map_option (lib_sha256 L) (w_out w)))"

definition from_tx :: "btc_lib \<Rightarrow> transaction \<Rightarrow> tx_precompute" where
  "from_tx L tx = from_tx_inner L tx True"

definition from_tx_connect :: "btc_lib \<Rightarrow> transaction \<Rightarrow> tx_precompute" where
  "from_tx_connect L tx = from_tx_inner L tx False"

definition sighash_midstates :: "btc_lib \<Rightarrow> transaction \<Rightarrow> bytes \<times> bytes \<times> bytes" where
  "sighash_midstates L tx =
    (lib_sha256 L (concat (map (\<lambda>i. enc_outpoint L (ti_previous_output i)) (tx_input tx))),
     lib_sha256 L (concat (map (\<lambda>i. enc_u32 L (ti_sequence i)) (tx_input tx))),
     lib_sha256 L (concat (map (enc_txout L) (tx_output tx))))"

definition script_from_connect :: "btc_lib \<Rightarrow> tx_connect_precompute \<Rightarrow> transaction \<Rightarrow> tx_script_precompute" where
  "script_from_connect L connect tx =
    (let (p, s, out) = sighash_midstates L tx
     in \<lparr>tp_connect = connect, tp_sha_prevouts = p, tp_sha_sequences = s, tp_sha_outputs = out,
         tp_sha_amounts = None, tp_sha_scriptpubkeys = None\<rparr>)"

definition script_from_tx :: "btc_lib \<Rightarrow> transaction \<Rightarrow> tx_script_precompute" where
  "script_from_tx L tx = script_from_connect L (into_connect (from_tx_connect L tx)) tx"

definition sha256_again :: "btc_lib \<Rightarrow> bytes \<Rightarrow> bytes" where
  "sha256_again L single = lib_sha256 L single"

definition hash_prevouts :: "btc_lib \<Rightarrow> tx_script_precompute \<Rightarrow> bytes" where
  "hash_prevouts L pre = sha256_again L (tp_sha_prevouts pre)"

definition hash_sequence :: "btc_lib \<Rightarrow> tx_script_precompute \<Rightarrow> bytes" where
  "hash_sequence L pre = sha256_again L (tp_sha_sequences pre)"

definition hash_outputs :: "btc_lib \<Rightarrow> tx_script_precompute \<Rightarrow> bytes" where
  "hash_outputs L pre = sha256_again L (tp_sha_outputs pre)"

text \<open>
  The spent-output midstates; \<open>parts\<close> is asked once per input and a \<open>None\<close> leaves the row as it was.
\<close>

fun finish_spent_engines ::
  "btc_lib \<Rightarrow> nat list \<Rightarrow> (nat \<Rightarrow> (u64 \<times> bytes) option) \<Rightarrow> bytes \<Rightarrow> bytes \<Rightarrow> (bytes \<times> bytes) option" where
  "finish_spent_engines L [] parts enc_amt enc_spk = Some (enc_amt, enc_spk)"
| "finish_spent_engines L (i # is) parts enc_amt enc_spk =
    (case parts i of
       None \<Rightarrow> None
     | Some (v, script) \<Rightarrow>
         finish_spent_engines L is parts (enc_amt @ enc_u64 L v) (enc_spk @ enc_script L script))"

definition finish_spent_parts ::
  "btc_lib \<Rightarrow> nat list \<Rightarrow> (nat \<Rightarrow> (u64 \<times> bytes) option) \<Rightarrow> tx_script_precompute \<Rightarrow> bool \<times> tx_script_precompute" where
  "finish_spent_parts L inputs parts pre =
    (case finish_spent_engines L inputs parts [] [] of
       None \<Rightarrow> (False, pre)
     | Some (amt, spk) \<Rightarrow>
         (True, pre\<lparr>tp_sha_amounts := Some (lib_sha256 L amt), tp_sha_scriptpubkeys := Some (lib_sha256 L spk)\<rparr>))"

section \<open>Walk of the wire bytes\<close>

record witness_wire =
  ww_version :: bytes
  ww_vin :: bytes
  ww_vout :: bytes
  ww_locktime :: bytes

definition ww_base_len :: "witness_wire \<Rightarrow> nat" where
  "ww_base_len s = length (ww_version s) + length (ww_vin s) + length (ww_vout s) + length (ww_locktime s)"

text \<open>\<open>slice.get(a..b)\<close>.\<close>

definition get_range :: "'a list \<Rightarrow> nat \<Rightarrow> nat \<Rightarrow> 'a list option" where
  "get_range xs a b = (if a \<le> b \<and> b \<le> length xs then Some (take (b - a) (drop a xs)) else None)"

definition FLAG_ZERO_TX_LEN :: nat where
  "FLAG_ZERO_TX_LEN = 10"

definition flag_zero_wire :: "bytes \<Rightarrow> bool" where
  "flag_zero_wire wire = (length wire = FLAG_ZERO_TX_LEN \<and> get_range wire 4 6 = Some [0, 0])"

definition flag_zero_tx :: "transaction \<Rightarrow> bytes \<Rightarrow> bool" where
  "flag_zero_tx tx wire = (flag_zero_wire wire \<and> tx_input tx = [] \<and> tx_output tx = [])"

definition vin_len :: "btc_lib \<Rightarrow> transaction \<Rightarrow> nat" where
  "vin_len L tx =
    varint_size L (word_of_nat (length (tx_input tx))) + sum_list (map (txin_base_size L) (tx_input tx))"

definition vout_len :: "btc_lib \<Rightarrow> transaction \<Rightarrow> nat" where
  "vout_len L tx =
    varint_size L (word_of_nat (length (tx_output tx))) + sum_list (map (txout_size L) (tx_output tx))"

definition wit_len :: "btc_lib \<Rightarrow> transaction \<Rightarrow> nat" where
  "wit_len L tx = sum_list (map (\<lambda>i. witness_size L (ti_witness i)) (tx_input tx))"

definition wire_slices :: "bytes \<Rightarrow> nat \<Rightarrow> nat \<Rightarrow> nat \<Rightarrow> nat \<Rightarrow> witness_wire option" where
  "wire_slices wire vin_start vin_end vout_end lock_at =
    (case (get_range wire 0 4, get_range wire vin_start vin_end, get_range wire vin_end vout_end,
           get_range wire lock_at (length wire)) of
       (Some version, Some vin, Some vout, Some locktime) \<Rightarrow>
         Some \<lparr>ww_version = version, ww_vin = vin, ww_vout = vout, ww_locktime = locktime\<rparr>
     | _ \<Rightarrow> None)"

definition witness_wire_of :: "btc_lib \<Rightarrow> transaction \<Rightarrow> bytes \<Rightarrow> witness_wire option" where
  "witness_wire_of L tx wire =
    (if \<not> uses_segwit_serialization tx \<or> flag_zero_wire wire then None
     else if get_range wire 4 6 \<noteq> Some [0, 1] then None
     else
       let vin_end = 6 + vin_len L tx;
           vout_end = vin_end + vout_len L tx;
           lock_at = vout_end + wit_len L tx
       in if lock_at + 4 \<noteq> length wire then None
          else wire_slices wire 6 vin_end vout_end lock_at)"

definition hash_witness_txid :: "btc_lib \<Rightarrow> witness_wire \<Rightarrow> bytes" where
  "hash_witness_txid L s = lib_sha256d L (ww_version s @ ww_vin s @ ww_vout s @ ww_locktime s)"

definition legacy_spans :: "btc_lib \<Rightarrow> transaction \<Rightarrow> bytes \<Rightarrow> witness_wire option" where
  "legacy_spans L tx wire =
    (if uses_segwit_serialization tx \<and> \<not> flag_zero_tx tx wire then None
     else
       let vin_end = 4 + vin_len L tx;
           vout_end = vin_end + vout_len L tx
       in if vout_end + 4 \<noteq> length wire then None
          else wire_slices wire 4 vin_end vout_end vout_end)"

definition OUTPOINT_LEN :: nat where
  "OUTPOINT_LEN = 36"

definition SEQUENCE_LEN :: nat where
  "SEQUENCE_LEN = 4"

text \<open>The input bodies of the vin slice, each with its outpoint and its sequence bytes.\<close>

fun wire_inputs ::
  "btc_lib \<Rightarrow> bytes \<Rightarrow> txin list \<Rightarrow> nat \<Rightarrow> bytes \<Rightarrow> bytes \<Rightarrow> bytes \<Rightarrow> (nat \<times> bytes \<times> bytes \<times> bytes) option" where
  "wire_inputs L vin [] at txid_eng sha_prev sha_seq = Some (at, txid_eng, sha_prev, sha_seq)"
| "wire_inputs L vin (input # inputs) at txid_eng sha_prev sha_seq =
    (let n = txin_base_size L input in
     case get_range vin at (at + n) of
       None \<Rightarrow> None
     | Some body \<Rightarrow>
         if length body < OUTPOINT_LEN + SEQUENCE_LEN then None
         else wire_inputs L vin inputs (at + n) (txid_eng @ body) (sha_prev @ take OUTPOINT_LEN body)
                (sha_seq @ drop (length body - SEQUENCE_LEN) body))"

definition hash_wire_sighash ::
  "btc_lib \<Rightarrow> transaction \<Rightarrow> witness_wire \<Rightarrow> (bytes \<times> bytes option \<times> bytes option \<times> bytes option) option" where
  "hash_wire_sighash L tx s =
    (let n_in = varint_size L (word_of_nat (length (tx_input tx))) in
     case get_range (ww_vin s) 0 n_in of
       None \<Rightarrow> None
     | Some count_in \<Rightarrow>
         (case wire_inputs L (ww_vin s) (tx_input tx) n_in (ww_version s @ count_in) [] [] of
            None \<Rightarrow> None
          | Some (at, txid_eng, sha_prev, sha_seq) \<Rightarrow>
              if at \<noteq> length (ww_vin s) then None
              else
                let n_out = varint_size L (word_of_nat (length (tx_output tx))) in
                (case (get_range (ww_vout s) 0 n_out, get_range (ww_vout s) n_out (length (ww_vout s))) of
                   (Some count_out, Some outs) \<Rightarrow>
                     Some (lib_sha256d L (txid_eng @ count_out @ outs @ ww_locktime s),
                           Some (lib_sha256 L sha_prev), Some (lib_sha256 L sha_seq), Some (lib_sha256 L outs))
                 | _ \<Rightarrow> None)))"

definition sigops_and_out_sum :: "transaction \<Rightarrow> u64 \<times> u64" where
  "sigops_and_out_sum tx =
    (legacy_sigop_count tx, fold (\<lambda>txout n. sat_add n (to_value txout)) (tx_output tx) 0)"

definition from_tx_wire :: "btc_lib \<Rightarrow> transaction \<Rightarrow> bytes \<Rightarrow> bool \<Rightarrow> tx_precompute option" where
  "from_tx_wire L tx wire sighash =
    (let has_witness = uses_segwit_serialization tx;
         sighash = (sighash \<and> has_witness \<and> \<not> lib_is_coinbase L tx);
         wtxid = lib_sha256d L wire;
         ids =
           (if has_witness \<and> \<not> flag_zero_tx tx wire then
              (case witness_wire_of L tx wire of
                 None \<Rightarrow> None
               | Some spans \<Rightarrow>
                   if sighash then
                     (case hash_wire_sighash L tx spans of
                        None \<Rightarrow> None
                      | Some (txid, mids) \<Rightarrow> Some (txid, ww_base_len spans, mids))
                   else Some (hash_witness_txid L spans, ww_base_len spans, None, None, None))
            else if sighash then
              (case legacy_spans L tx wire of
                 None \<Rightarrow> None
               | Some spans \<Rightarrow>
                   (case hash_wire_sighash L tx spans of
                      None \<Rightarrow> None
                    | Some (txid, mids) \<Rightarrow> if txid \<noteq> wtxid then None else Some (txid, length wire, mids)))
            else Some (wtxid, length wire, None, None, None))
     in case ids of
          None \<Rightarrow> None
        | Some (txid, base_size, sha_prevouts, sha_sequences, sha_outputs) \<Rightarrow>
            let (sigops, out_sum) = sigops_and_out_sum tx
            in Some (pack_precompute
                 \<lparr>tc_txid = txid, tc_wtxid = wtxid, tc_base_size = base_size, tc_total_size = length wire,
                  tc_sigops = sigops, tc_out_sum = out_sum, tc_has_witness = has_witness\<rparr>
                 sha_prevouts sha_sequences sha_outputs))"

definition block_tx_count_fits :: "nat \<Rightarrow> nat \<Rightarrow> bool" where
  "block_tx_count_fits n remaining = (n \<le> remaining div 10)"

definition decode_flag_zero_tx :: "bytes \<Rightarrow> transaction option" where
  "decode_flag_zero_tx wire =
    (case get_range wire 0 FLAG_ZERO_TX_LEN of
       None \<Rightarrow> None
     | Some w \<Rightarrow>
         if take 2 (drop 4 w) \<noteq> [0, 0] then None
         else Some \<lparr>tx_version = word_of_nat (of_le (take 4 w)),
                    tx_lock_time = word_of_nat (of_le (take 4 (drop 6 w))),
                    tx_input = [], tx_output = []\<rparr>)"

definition block_wire_len_from_pres :: "btc_lib \<Rightarrow> nat \<Rightarrow> tx_precompute list \<Rightarrow> nat" where
  "block_wire_len_from_pres L n_tx pres =
    80 + varint_size L (word_of_nat n_tx) + sum_list (map (\<lambda>p. tc_total_size (row_connect p)) pres)"

text \<open>Precomputes of a tip block: connect-only rows for transactions the mempool already verified.\<close>

fun pres_for_tip_rows ::
  "btc_lib \<Rightarrow> (bytes \<Rightarrow> bool) \<Rightarrow> transaction list \<Rightarrow> tx_precompute list \<times> bytes set" where
  "pres_for_tip_rows L is_live [] = ([], {})"
| "pres_for_tip_rows L is_live (tx # txs) =
    (let c = from_tx_connect L tx;
         (v, skip) = pres_for_tip_rows L is_live txs
     in if is_live (tc_txid (row_connect c)) then (c # v, insert (tc_txid (row_connect c)) skip)
        else if sighash_midstates_for L tx then (ScriptRow (script_from_connect L (into_connect c) tx) # v, skip)
        else (c # v, skip))"

definition pres_for_tip ::
  "btc_lib \<Rightarrow> transaction list \<Rightarrow> bool \<Rightarrow> (bytes \<Rightarrow> bool) \<Rightarrow> tx_precompute list \<times> bytes set" where
  "pres_for_tip L txs live_empty is_live =
    (if live_empty then (map (from_tx L) txs, {}) else pres_for_tip_rows L is_live txs)"

section \<open>The walks in closed form\<close>

definition txin_body :: "btc_lib \<Rightarrow> txin \<Rightarrow> bytes" where
  "txin_body L i = enc_outpoint L (ti_previous_output i) @ enc_script L (ti_script_sig i) @ enc_u32 L (ti_sequence i)"

lemmas enc_defs = enc_both_def enc_base_def enc_total_def

lemma map_option_append: "map_option (\<lambda>e. e @ x) (map_option (\<lambda>e. e @ y) z) = map_option (\<lambda>e. e @ y @ x) z"
  by (cases z) auto

lemma map_option_append_nil: "map_option (\<lambda>e. e) z = z"
  by (cases z) auto

lemma fold_walk_txin:
  "fold (walk_txin L) ins w =
    w\<lparr>w_txid := w_txid w @ concat (map (txin_body L) ins),
      w_wtxid := w_wtxid w @ concat (map (txin_body L) ins),
      w_prev := map_option (\<lambda>e. e @ concat (map (\<lambda>i. enc_outpoint L (ti_previous_output i)) ins)) (w_prev w),
      w_seq := map_option (\<lambda>e. e @ concat (map (\<lambda>i. enc_u32 L (ti_sequence i)) ins)) (w_seq w),
      w_base := w_base w + length (concat (map (txin_body L) ins)),
      w_total := w_total w + length (concat (map (txin_body L) ins)),
      w_sigops := fold (\<lambda>i n. sat_add n (script_sigop_count (ti_script_sig i) False)) ins (w_sigops w)\<rparr>"
proof (induction ins arbitrary: w)
  case Nil
  then show ?case by (simp add: map_option_append_nil)
next
  case (Cons i ins)
  then show ?case
    by (simp add: walk_txin_def enc_defs Let_def txin_body_def map_option_append)
qed

lemma fold_walk_txout:
  "fold (walk_txout L) outs w =
    w\<lparr>w_txid := w_txid w @ concat (map (enc_txout L) outs),
      w_wtxid := w_wtxid w @ concat (map (enc_txout L) outs),
      w_out := map_option (\<lambda>e. e @ concat (map (enc_txout L) outs)) (w_out w),
      w_base := w_base w + length (concat (map (enc_txout L) outs)),
      w_total := w_total w + length (concat (map (enc_txout L) outs)),
      w_sigops := fold (\<lambda>out n. sat_add n (script_sigop_count (to_script_pubkey out) False)) outs (w_sigops w),
      w_out_sum := fold (\<lambda>out n. sat_add n (to_value out)) outs (w_out_sum w)\<rparr>"
proof (induction outs arbitrary: w)
  case Nil
  then show ?case by (simp add: map_option_append_nil)
next
  case (Cons out outs)
  then show ?case
    by (simp add: walk_txout_def enc_defs Let_def map_option_append)
qed

lemma fold_walk_witness:
  "fold (\<lambda>txin w. enc_total (enc_witness L (ti_witness txin)) w) ins w =
    w\<lparr>w_wtxid := w_wtxid w @ concat (map (\<lambda>i. enc_witness L (ti_witness i)) ins),
      w_total := w_total w + length (concat (map (\<lambda>i. enc_witness L (ti_witness i)) ins))\<rparr>"
  by (induction ins arbitrary: w) (simp_all add: enc_total_def)

section \<open>Wire encoding\<close>

text \<open>
  The BIP144 layout of a transaction over the library's field encoders, and the documented sizes of
  those encoders.
\<close>

definition vin_bytes :: "btc_lib \<Rightarrow> transaction \<Rightarrow> bytes" where
  "vin_bytes L tx = enc_varint L (word_of_nat (length (tx_input tx))) @ concat (map (txin_body L) (tx_input tx))"

definition vout_bytes :: "btc_lib \<Rightarrow> transaction \<Rightarrow> bytes" where
  "vout_bytes L tx = enc_varint L (word_of_nat (length (tx_output tx))) @ concat (map (enc_txout L) (tx_output tx))"

definition wit_bytes :: "btc_lib \<Rightarrow> transaction \<Rightarrow> bytes" where
  "wit_bytes L tx = concat (map (\<lambda>i. enc_witness L (ti_witness i)) (tx_input tx))"

definition tx_wire :: "btc_lib \<Rightarrow> transaction \<Rightarrow> bytes" where
  "tx_wire L tx =
    (if uses_segwit_serialization tx
     then enc_u32 L (tx_version tx) @ [0, 1] @ vin_bytes L tx @ vout_bytes L tx @ wit_bytes L tx @ enc_u32 L (tx_lock_time tx)
     else enc_u32 L (tx_version tx) @ vin_bytes L tx @ vout_bytes L tx @ enc_u32 L (tx_lock_time tx))"

definition encoder_sizes :: "btc_lib \<Rightarrow> bool" where
  "encoder_sizes L \<longleftrightarrow>
    (\<forall>v. length (enc_u32 L v) = 4) \<and> (\<forall>n. length (enc_varint L n) = varint_size L n)
  \<and> (\<forall>op. length (enc_outpoint L op) = 36) \<and> (\<forall>i. txin_base_size L i = length (txin_body L i))
  \<and> (\<forall>out. txout_size L out = length (enc_txout L out)) \<and> (\<forall>w. witness_size L w = length (enc_witness L w))"

lemma encoder_sizesD:
  assumes "encoder_sizes L"
  shows "length (enc_u32 L v) = 4" "length (enc_varint L n) = varint_size L n" "length (enc_outpoint L op) = 36"
    "txin_base_size L i = length (txin_body L i)" "txout_size L out = length (enc_txout L out)"
    "witness_size L w = length (enc_witness L w)"
  using assms unfolding encoder_sizes_def by blast+

lemma sum_list_lengths:
  assumes "encoder_sizes L"
  shows "vin_len L tx = length (vin_bytes L tx)" "vout_len L tx = length (vout_bytes L tx)"
    "wit_len L tx = length (wit_bytes L tx)"
proof -
  have "txin_base_size L = (\<lambda>i. length (txin_body L i))" "txout_size L = (\<lambda>out. length (enc_txout L out))"
    "witness_size L = (\<lambda>w. length (enc_witness L w))"
    using encoder_sizesD [OF assms] by blast+
  then show "vin_len L tx = length (vin_bytes L tx)" "vout_len L tx = length (vout_bytes L tx)"
    "wit_len L tx = length (wit_bytes L tx)"
    by (simp_all add: vin_len_def vout_len_def wit_len_def vin_bytes_def vout_bytes_def wit_bytes_def
        encoder_sizesD(2) [OF assms] length_concat o_def)
qed

lemma get_range_append: "get_range (xs @ ys @ zs) (length xs) (length xs + length ys) = Some ys"
  by (simp add: get_range_def)

lemma wire_inputs_bodies:
  assumes "encoder_sizes L"
  shows "wire_inputs L (pre @ concat (map (txin_body L) ins)) ins (length pre) t p q =
    Some (length pre + length (concat (map (txin_body L) ins)), t @ concat (map (txin_body L) ins),
      p @ concat (map (\<lambda>i. enc_outpoint L (ti_previous_output i)) ins),
      q @ concat (map (\<lambda>i. enc_u32 L (ti_sequence i)) ins))"
proof (induction ins arbitrary: pre t p q)
  case (Cons i ins)
  let ?b = "txin_body L i"
  have range: "get_range (pre @ ?b @ concat (map (txin_body L) ins)) (length pre) (length pre + length ?b) = Some ?b"
    by (rule get_range_append)
  have parts: "take OUTPOINT_LEN ?b = enc_outpoint L (ti_previous_output i)"
    "drop (length ?b - SEQUENCE_LEN) ?b = enc_u32 L (ti_sequence i)" "\<not> length ?b < OUTPOINT_LEN + SEQUENCE_LEN"
    using assms by (simp_all add: txin_body_def OUTPOINT_LEN_def SEQUENCE_LEN_def encoder_sizesD(1,3))
  show ?case
    using Cons [of "pre @ ?b" "t @ ?b" "p @ enc_outpoint L (ti_previous_output i)" "q @ enc_u32 L (ti_sequence i)"]
      range parts encoder_sizesD(4) [OF assms, of i]
    by (simp add: Let_def)
qed simp

definition wire_spans :: "btc_lib \<Rightarrow> transaction \<Rightarrow> witness_wire" where
  "wire_spans L tx = \<lparr>ww_version = enc_u32 L (tx_version tx), ww_vin = vin_bytes L tx,
     ww_vout = vout_bytes L tx, ww_locktime = enc_u32 L (tx_lock_time tx)\<rparr>"

lemma wire_slices_append:
  assumes "length v = 4" "wire = v @ m @ vin @ vout @ wit @ lock"
  shows "wire_slices wire (4 + length m) (4 + length m + length vin) (4 + length m + length vin + length vout)
      (4 + length m + length vin + length vout + length wit)
    = Some \<lparr>ww_version = v, ww_vin = vin, ww_vout = vout, ww_locktime = lock\<rparr>"
  using assms get_range_append [of "[]" v "m @ vin @ vout @ wit @ lock"]
    get_range_append [of "v @ m" vin "vout @ wit @ lock"] get_range_append [of "v @ m @ vin" vout "wit @ lock"]
    get_range_append [of "v @ m @ vin @ vout @ wit" lock "[]"]
  by (simp add: wire_slices_def add.assoc)

lemma witness_wire_of_wire:
  assumes "encoder_sizes L" "uses_segwit_serialization tx"
  shows "witness_wire_of L tx (tx_wire L tx) = Some (wire_spans L tx)" "\<not> flag_zero_wire (tx_wire L tx)"
proof -
  let ?v = "enc_u32 L (tx_version tx)" and ?l = "enc_u32 L (tx_lock_time tx)"
  have wire: "tx_wire L tx = ?v @ [0, 1] @ vin_bytes L tx @ vout_bytes L tx @ wit_bytes L tx @ ?l"
    using assms(2) by (simp add: tx_wire_def)
  have v: "length ?v = 4" "length ?l = 4" using assms(1) by (simp_all add: encoder_sizesD)
  have flag: "get_range (tx_wire L tx) 4 6 = Some [0, 1]"
    using get_range_append [of ?v "[0, 1]" "vin_bytes L tx @ vout_bytes L tx @ wit_bytes L tx @ ?l"] v
    unfolding wire by simp
  then show nz: "\<not> flag_zero_wire (tx_wire L tx)" by (simp add: flag_zero_wire_def)
  show "witness_wire_of L tx (tx_wire L tx) = Some (wire_spans L tx)"
    using wire_slices_append [OF v(1) wire] assms flag nz v
    by (simp add: witness_wire_of_def sum_list_lengths [OF assms(1)] wire_spans_def)
      (simp add: wire add.assoc)
qed

lemma hash_wire_sighash_wire:
  assumes "encoder_sizes L"
  shows "hash_wire_sighash L tx (wire_spans L tx) =
    (let (p, s, out) = sighash_midstates L tx
     in Some (hash_witness_txid L (wire_spans L tx), Some p, Some s, Some out))"
proof -
  let ?ci = "enc_varint L (word_of_nat (length (tx_input tx)))"
  let ?co = "enc_varint L (word_of_nat (length (tx_output tx)))"
  let ?ins = "concat (map (txin_body L) (tx_input tx))" and ?outs = "concat (map (enc_txout L) (tx_output tx))"
  have n: "varint_size L (word_of_nat (length (tx_input tx))) = length ?ci"
    "varint_size L (word_of_nat (length (tx_output tx))) = length ?co"
    using assms by (simp_all add: encoder_sizesD)
  have "get_range (vin_bytes L tx) 0 (length ?ci) = Some ?ci"
    "get_range (vout_bytes L tx) 0 (length ?co) = Some ?co"
    "get_range (vout_bytes L tx) (length ?co) (length (vout_bytes L tx)) = Some ?outs"
    using get_range_append [of "[]" ?ci ?ins] get_range_append [of "[]" ?co ?outs] get_range_append [of ?co ?outs "[]"]
    by (simp_all add: vin_bytes_def vout_bytes_def)
  then show ?thesis
    using wire_inputs_bodies [OF assms, of ?ci "tx_input tx" "enc_u32 L (tx_version tx) @ ?ci" "[]" "[]"]
    by (simp add: hash_wire_sighash_def wire_spans_def n Let_def sighash_midstates_def hash_witness_txid_def)
      (simp add: vin_bytes_def vout_bytes_def n Let_def)
qed

text \<open>The row both routes compute, from the encodings.\<close>

definition row_of :: "btc_lib \<Rightarrow> transaction \<Rightarrow> bytes \<Rightarrow> bool \<Rightarrow> tx_precompute" where
  "row_of L tx stripped sighash =
    (let (p, s, out) = sighash_midstates L tx; opt = (\<lambda>x. if sighash then Some x else None)
     in pack_precompute
          \<lparr>tc_txid = lib_sha256d L stripped, tc_wtxid = lib_sha256d L (tx_wire L tx), tc_base_size = length stripped,
           tc_total_size = length (tx_wire L tx), tc_sigops = fst (sigops_and_out_sum tx),
           tc_out_sum = snd (sigops_and_out_sum tx), tc_has_witness = uses_segwit_serialization tx\<rparr>
          (opt p) (opt s) (opt out))"

abbreviation stripped_bytes :: "btc_lib \<Rightarrow> transaction \<Rightarrow> bytes" where
  "stripped_bytes L tx \<equiv>
    enc_u32 L (tx_version tx) @ vin_bytes L tx @ vout_bytes L tx @ enc_u32 L (tx_lock_time tx)"

lemma from_tx_inner_segwit:
  assumes "uses_segwit_serialization tx"
  shows "from_tx_inner L tx sighash = row_of L tx (stripped_bytes L tx) (sighash \<and> \<not> lib_is_coinbase L tx)"
  using assms
  by (cases sighash; cases "lib_is_coinbase L tx")
    (simp_all add: from_tx_inner_def row_of_def Let_def fold_walk_txin fold_walk_txout fold_walk_witness enc_defs
      walk_start_def sigops_and_out_sum_def legacy_sigop_count_def sighash_midstates_def tx_wire_def
      vin_bytes_def vout_bytes_def wit_bytes_def add.assoc)

lemma from_tx_inner_legacy:
  assumes "\<not> uses_segwit_serialization tx"
  shows "from_tx_inner L tx sighash = row_of L tx (stripped_bytes L tx) False"
  using assms
  by (simp add: from_tx_inner_def from_tx_legacy_one_engine_def row_of_def Let_def fold_walk_txin fold_walk_txout
      enc_defs walk_start_def sigops_and_out_sum_def legacy_sigop_count_def sighash_midstates_def tx_wire_def
      vin_bytes_def vout_bytes_def add.assoc)

section \<open>Properties\<close>

text \<open>
  C14. The wire fast path is the reference walk: on the BIP144 bytes of a transaction
  \<open>from_tx_wire\<close> returns the very row \<open>from_tx_inner\<close> computes from the decoded transaction (ids, sizes,
  sigops, output sum and, when asked for, the sighash midstates).
\<close>

theorem from_tx_wire_correct:
  assumes "encoder_sizes L"
  shows "from_tx_wire L tx (tx_wire L tx) sighash = Some (from_tx_inner L tx sighash)"
proof (cases "uses_segwit_serialization tx")
  case True
  note spans = witness_wire_of_wire [OF assms True]
  have nz: "\<not> flag_zero_tx tx (tx_wire L tx)" using spans(2) by (simp add: flag_zero_tx_def)
  have base: "ww_base_len (wire_spans L tx) = length (stripped_bytes L tx)"
    "hash_witness_txid L (wire_spans L tx) = lib_sha256d L (stripped_bytes L tx)"
    by (simp_all add: ww_base_len_def hash_witness_txid_def wire_spans_def)
  obtain p s out ops total where eqs: "sighash_midstates L tx = (p, s, out)" "sigops_and_out_sum tx = (ops, total)"
    by (metis prod_cases3 surj_pair)
  have hash: "hash_wire_sighash L tx (wire_spans L tx)
      = Some (hash_witness_txid L (wire_spans L tx), Some p, Some s, Some out)"
    using hash_wire_sighash_wire [OF assms, of tx] eqs by simp
  show ?thesis
    unfolding from_tx_inner_segwit [OF True]
    using True nz spans(1) hash eqs base
    by (cases sighash; cases "lib_is_coinbase L tx") (simp_all add: from_tx_wire_def row_of_def Let_def)
next
  case False
  then have "tx_wire L tx = stripped_bytes L tx" by (simp add: tx_wire_def)
  moreover obtain p s out ops total where "sighash_midstates L tx = (p, s, out)" "sigops_and_out_sum tx = (ops, total)"
    by (metis prod_cases3 surj_pair)
  ultimately show ?thesis
    using False unfolding from_tx_inner_legacy [OF False] by (simp add: row_of_def from_tx_wire_def Let_def)
qed

lemma sample_encoder_sizes: "encoder_sizes sample_lib"
  by (auto simp: encoder_sizes_def txin_body_def length_concat o_def split: prod.splits)

theorem from_tx_wire_correct_witness:
  "let tx = \<lparr>tx_version = 2, tx_lock_time = 7,
              tx_input = [\<lparr>ti_previous_output = ([1, 2], 0), ti_script_sig = [0x51], ti_sequence = 5, ti_witness = [[9]]\<rparr>],
              tx_output = [\<lparr>to_value = 50, to_script_pubkey = [0xAC]\<rparr>]\<rparr>
   in encoder_sizes sample_lib \<and> uses_segwit_serialization tx
      \<and> from_tx_wire sample_lib tx (tx_wire sample_lib tx) True = Some (from_tx_inner sample_lib tx True)"
  using from_tx_wire_correct [OF sample_encoder_sizes] sample_encoder_sizes
  by (simp add: uses_segwit_serialization_def)

end
