(* ===== verification/Job.thy ===== *)
theory Job
  imports Precompute
begin

text \<open>
  Script-verify jobs of \<open>crates/rbitcoin-consensus/src/block/mod.rs\<close>: the flag set, the shared or owned
  transaction and prevouts, and the lookups a script check makes. \<open>Arc\<close> sharing is transparent; a
  pinned prevout (the trait object \<open>PinParts\<close>) is its lookup function; an index or \<open>expect\<close> that would
  unwind is the outcome \<open>Panic\<close>.
\<close>

section \<open>Model\<close>

record script_verify_flags =
  f_bip65_active :: bool
  f_bip112_active :: bool
  f_bip66_active :: bool
  f_bip16_active :: bool
  f_taproot_active :: bool
  f_minimal_if :: bool
  f_nullfail :: bool
  f_low_s :: bool
  f_strictenc :: bool
  f_null_dummy :: bool
  f_minimal_data :: bool
  f_witness_pubkeytype :: bool
  f_witness_active :: bool
  f_discourage_upgradable_witness :: bool
  f_const_scriptcode :: bool
  f_cleanstack :: bool

definition flags_buried :: "bool \<Rightarrow> bool \<Rightarrow> bool \<Rightarrow> bool \<Rightarrow> bool \<Rightarrow> script_verify_flags" where
  "flags_buried bip65_active bip112_active bip66_active bip16_active taproot_active =
    \<lparr>f_bip65_active = bip65_active, f_bip112_active = bip112_active, f_bip66_active = bip66_active,
     f_bip16_active = bip16_active, f_taproot_active = taproot_active, f_minimal_if = False,
     f_nullfail = False, f_low_s = False, f_strictenc = False, f_null_dummy = True,
     f_minimal_data = False, f_witness_pubkeytype = False, f_witness_active = True,
     f_discourage_upgradable_witness = False, f_const_scriptcode = False, f_cleanstack = False\<rparr>"

datatype job_tx = OwnedTx transaction | SharedTx block nat

text \<open>\<open>deref\<close>; a shared index is in range when the job is built (\<open>JobTx::shared\<close> asserts it).\<close>

fun job_tx_deref :: "job_tx \<Rightarrow> transaction" where
  "job_tx_deref (OwnedTx t) = t"
| "job_tx_deref (SharedTx block index) = b_txdata block ! index"

fun job_tx_ok :: "job_tx \<Rightarrow> bool" where
  "job_tx_ok (OwnedTx t) = True"
| "job_tx_ok (SharedTx block index) = (index < length (b_txdata block))"

definition get_at :: "'a list \<Rightarrow> nat \<Rightarrow> 'a option" where
  "get_at xs i = (if i < length xs then Some (xs ! i) else None)"

fun output_at :: "job_tx \<Rightarrow> u32 \<Rightarrow> u32 \<Rightarrow> txout option" where
  "output_at (SharedTx block index) tx_index vout =
    (case get_at (b_txdata block) (unat tx_index) of
       None \<Rightarrow> None
     | Some tx \<Rightarrow> get_at (tx_output tx) (unat vout))"
| "output_at (OwnedTx _) tx_index vout = None"

datatype shared_prevout =
    Wire u32 u32
  | Pinned "u32 \<Rightarrow> (u64 \<times> bytes) option" u32

datatype job_prevouts = OwnedPrevouts "txout list" | SharedPrevouts "shared_prevout list"

fun prevouts_len :: "job_prevouts \<Rightarrow> nat" where
  "prevouts_len (OwnedPrevouts v) = length v"
| "prevouts_len (SharedPrevouts v) = length v"

datatype job_pre = OwnedPre tx_precompute | SlicePre "tx_precompute list" nat

record script_check_job =
  j_txid :: bytes
  j_prevouts :: job_prevouts
  j_tx :: job_tx
  j_flags :: script_verify_flags
  j_pre :: "job_pre option"
  j_skip_segwit_midstates :: bool

abbreviation job_transaction :: "script_check_job \<Rightarrow> transaction" where
  "job_transaction job \<equiv> job_tx_deref (j_tx job)"

definition job_inputs :: "script_check_job \<Rightarrow> nat list" where
  "job_inputs job = [0..<length (tx_input (job_transaction job))]"

definition input_index_in_tx :: "transaction \<Rightarrow> nat \<Rightarrow> nat consensus" where
  "input_index_in_tx tx i = (if length (tx_input tx) \<le> i then Inl (Script ''input index'') else Inr i)"

definition job_from_parts :: "bytes \<Rightarrow> job_prevouts \<Rightarrow> job_tx \<Rightarrow> script_verify_flags \<Rightarrow> script_check_job" where
  "job_from_parts txid prevouts tx flags =
    \<lparr>j_txid = txid, j_prevouts = prevouts, j_tx = tx, j_flags = flags, j_pre = None,
     j_skip_segwit_midstates = (\<not> uses_segwit_serialization (job_tx_deref tx))\<rparr>"

fun wire_slot_missing :: "job_tx \<Rightarrow> shared_prevout \<Rightarrow> bool" where
  "wire_slot_missing tx (Wire tx_index vout) = (output_at tx tx_index vout = None)"
| "wire_slot_missing tx (Pinned outs vout) = False"

definition try_from_parts ::
  "bytes \<Rightarrow> job_prevouts \<Rightarrow> job_tx \<Rightarrow> script_verify_flags \<Rightarrow> script_check_job consensus" where
  "try_from_parts txid prevouts tx flags =
    (if prevouts_len prevouts \<noteq> length (tx_input (job_tx_deref tx)) then Inl (Script ''prevout count'')
     else
       case prevouts of
         SharedPrevouts slots \<Rightarrow>
           if list_ex (wire_slot_missing tx) slots then Inl MissingPrevout
           else Inr (job_from_parts txid prevouts tx flags)
       | OwnedPrevouts v \<Rightarrow> Inr (job_from_parts txid prevouts tx flags))"

definition try_with_txid :: "bytes \<Rightarrow> txout list \<Rightarrow> transaction \<Rightarrow> script_verify_flags \<Rightarrow> script_check_job consensus" where
  "try_with_txid txid prevouts tx flags = try_from_parts txid (OwnedPrevouts prevouts) (OwnedTx tx) flags"

definition try_new :: "btc_lib \<Rightarrow> txout list \<Rightarrow> transaction \<Rightarrow> script_verify_flags \<Rightarrow> script_check_job consensus" where
  "try_new L prevouts tx flags = try_with_txid (lib_compute_txid L tx) prevouts tx flags"

text \<open>A slot already filled is kept: \<open>OnceLock::set\<close> does not overwrite.\<close>

definition with_pre_slice :: "script_check_job \<Rightarrow> tx_precompute list \<Rightarrow> nat \<Rightarrow> script_check_job consensus" where
  "with_pre_slice job rows idx =
    (case get_at rows idx of
       None \<Rightarrow> Inl (Internal ''invariant: precompute index'')
     | Some row \<Rightarrow>
         if as_script row = None then Inl (Internal ''invariant: sighash midstate missing'')
         else Inr (case j_pre job of
                     None \<Rightarrow> job\<lparr>j_pre := Some (SlicePre rows idx)\<rparr>
                   | Some _ \<Rightarrow> job))"

definition job_pre_of :: "btc_lib \<Rightarrow> script_check_job \<Rightarrow> job_pre" where
  "job_pre_of L job =
    (case j_pre job of
       Some p \<Rightarrow> p
     | None \<Rightarrow> OwnedPre (ScriptRow (script_from_tx L (job_transaction job))))"

definition prevout_parts :: "script_check_job \<Rightarrow> nat \<Rightarrow> (u64 \<times> bytes) consensus" where
  "prevout_parts job i =
    (case j_prevouts job of
       OwnedPrevouts v \<Rightarrow>
         (case get_at v i of
            None \<Rightarrow> Inl (Panic ''prevout index'')
          | Some out \<Rightarrow> Inr (to_value out, to_script_pubkey out))
     | SharedPrevouts v \<Rightarrow>
         (case get_at v i of
            None \<Rightarrow> Inl (Panic ''prevout index'')
          | Some (Wire tx_index vout) \<Rightarrow>
              (case output_at (j_tx job) tx_index vout of
                 None \<Rightarrow> Inl (Panic ''wire prevout resolved when the job was built'')
               | Some out \<Rightarrow> Inr (to_value out, to_script_pubkey out))
          | Some (Pinned outs vout) \<Rightarrow>
              ok_or (outs vout) (Internal ''invariant: pinned prevout vout'')))"

definition job_pre_row :: "btc_lib \<Rightarrow> script_check_job \<Rightarrow> tx_script_precompute consensus" where
  "job_pre_row L job =
    rbind (case job_pre_of L job of
             OwnedPre row \<Rightarrow> Inr row
           | SlicePre rows idx \<Rightarrow> ok_or (get_at rows idx) (Internal ''invariant: precompute index''))
      (\<lambda>row. ok_or (as_script row) (Internal ''invariant: sighash midstate missing''))"

section \<open>Properties\<close>

lemma get_at_Some: "i < length xs \<Longrightarrow> get_at xs i = Some (xs ! i)"
  by (simp add: get_at_def)

lemma try_from_parts_prevout:
  assumes "try_from_parts txid prevouts tx flags = Inr job"
    and "i < length (tx_input (job_transaction job))"
  shows "is_ok (prevout_parts job i) \<or> prevout_parts job i = Inl (Internal ''invariant: pinned prevout vout'')"
proof -
  have job: "job = job_from_parts txid prevouts tx flags"
    and len: "prevouts_len prevouts = length (tx_input (job_tx_deref tx))"
    and slots: "\<And>slots. prevouts = SharedPrevouts slots \<Longrightarrow> \<not> list_ex (wire_slot_missing tx) slots"
    using assms(1) by (auto simp: try_from_parts_def split: if_splits job_prevouts.splits)
  have i: "i < prevouts_len prevouts" using assms(2) len by (simp add: job job_from_parts_def)
  show ?thesis
  proof (cases prevouts)
    case (OwnedPrevouts v)
    then show ?thesis using i by (simp add: job job_from_parts_def prevout_parts_def get_at_def)
  next
    case (SharedPrevouts v)
    then have at: "get_at v i = Some (v ! i)" "v ! i \<in> set v" using i by (simp_all add: get_at_def)
    show ?thesis
    proof (cases "v ! i")
      case (Wire tx_index vout)
      then have "output_at tx tx_index vout \<noteq> None"
        using slots [OF SharedPrevouts] at by (auto simp: list_ex_iff)
      then show ?thesis using SharedPrevouts at Wire
        by (auto simp: job job_from_parts_def prevout_parts_def)
    next
      case (Pinned outs vout)
      then show ?thesis using SharedPrevouts at
        by (cases "outs vout") (auto simp: job job_from_parts_def prevout_parts_def)
    qed
  qed
qed

lemma try_from_parts_pre:
  assumes "try_from_parts txid prevouts tx flags = Inr job"
  shows "is_ok (job_pre_row L job)" "j_pre job = None" "j_flags job = flags" "j_tx job = tx"
    "j_skip_segwit_midstates job \<longleftrightarrow> \<not> uses_segwit_serialization (job_transaction job)"
  using assms
  by (auto simp: try_from_parts_def job_from_parts_def job_pre_row_def job_pre_of_def split: if_splits job_prevouts.splits)

text \<open>
  A job built by \<open>try_from_parts\<close> never unwinds when its prevouts are read: for every input the
  lookup returns an amount and script or the pinned-prevout invariant error. Its midstate row is
  available, also after \<open>with_pre_slice\<close>.
\<close>

theorem try_from_parts_lookups:
  assumes "try_from_parts txid prevouts tx flags = Inr job"
    and "i < length (tx_input (job_transaction job))"
  shows "(is_ok (prevout_parts job i) \<or> prevout_parts job i = Inl (Internal ''invariant: pinned prevout vout''))
    \<and> is_ok (job_pre_row L job)
    \<and> (with_pre_slice job rows idx = Inr job' \<longrightarrow> is_ok (job_pre_row L job'))"
proof -
  have "is_ok (job_pre_row L job')" if "with_pre_slice job rows idx = Inr job'"
    using that try_from_parts_pre(2) [OF assms(1)]
    by (auto simp: with_pre_slice_def job_pre_row_def job_pre_of_def split: option.splits if_splits)
  then show ?thesis using try_from_parts_prevout [OF assms] try_from_parts_pre(1) [OF assms(1)] by blast
qed

theorem try_from_parts_lookups_witness:
  "let tx = \<lparr>tx_version = 2, tx_lock_time = 7,
              tx_input = [\<lparr>ti_previous_output = ([1, 2], 0), ti_script_sig = [0x51], ti_sequence = 5, ti_witness = [[9]]\<rparr>],
              tx_output = [\<lparr>to_value = 50, to_script_pubkey = [0xAC]\<rparr>]\<rparr>;
       block = \<lparr>b_header = \<lparr>h_version = 1, h_prev_blockhash = [], h_merkle_root = [], h_time = 0, h_bits = 0, h_nonce = 0\<rparr>,
                b_txdata = [tx]\<rparr>;
       job = job_from_parts [] (SharedPrevouts [Wire 0 0]) (SharedTx block 0) (flags_buried True True True True True)
   in try_from_parts [] (SharedPrevouts [Wire 0 0]) (SharedTx block 0) (flags_buried True True True True True) = Inr job
      \<and> prevout_parts job 0 = Inr (50, [0xAC]) \<and> is_ok (job_pre_row sample_lib job)"
proof -
  let ?tx = "\<lparr>tx_version = 2, tx_lock_time = 7,
              tx_input = [\<lparr>ti_previous_output = ([1, 2], 0), ti_script_sig = [0x51], ti_sequence = 5, ti_witness = [[9]]\<rparr>],
              tx_output = [\<lparr>to_value = 50, to_script_pubkey = [0xAC]\<rparr>]\<rparr>"
  let ?block = "\<lparr>b_header = \<lparr>h_version = 1, h_prev_blockhash = [], h_merkle_root = [], h_time = 0, h_bits = 0, h_nonce = 0\<rparr>,
                b_txdata = [?tx]\<rparr>"
  let ?fl = "flags_buried True True True True True"
  let ?job = "job_from_parts [] (SharedPrevouts [Wire 0 0]) (SharedTx ?block 0) ?fl"
  have ok: "try_from_parts [] (SharedPrevouts [Wire 0 0]) (SharedTx ?block 0) ?fl = Inr ?job"
    by (simp add: try_from_parts_def get_at_def)
  moreover have "prevout_parts ?job 0 = Inr (50, [0xAC])"
    by (simp add: prevout_parts_def job_from_parts_def get_at_def)
  moreover have "is_ok (job_pre_row sample_lib ?job)"
    using try_from_parts_lookups [OF ok, of 0 sample_lib "[]" 0 ?job] by (simp add: job_from_parts_def)
  ultimately show ?thesis by simp
qed

end
