(* ===== verification/Crypto.thy ===== *)
theory Crypto
  imports Job
begin

text \<open>
  The module \<open>crypto\<close> of \<open>crates/rbitcoin-consensus/src/script/mod.rs\<close>: signature and key encodings, the
  BIP143 and BIP341 signature hashes and the calls into libsecp256k1. Hash engines are the bytes fed
  to them and their encoders do not fail; the \<open>OnceCell\<close> memoization of the spent-output hashes and of
  the single-output hash is transparent.
\<close>

section \<open>Signature and key encodings\<close>

definition is_valid_signature_encoding :: "bytes \<Rightarrow> bool" where
  "is_valid_signature_encoding sig =
    (if length sig < 9 \<or> 73 < length sig then False
     else if sig ! 0 \<noteq> 0x30 then False
     else if unat (sig ! 1) \<noteq> length sig - 3 then False
     else if sig ! 2 \<noteq> 0x02 then False
     else
       let len_r = unat (sig ! 3) in
       if len_r = 0 then False
       else if length sig \<le> 5 + len_r then False
       else if sig ! (4 + len_r) \<noteq> 0x02 then False
       else
         let len_s = unat (sig ! (5 + len_r)) in
         if len_s = 0 then False
         else if len_r + len_s + 7 \<noteq> length sig then False
         else if sig ! 4 AND 0x80 \<noteq> 0 then False
         else if 1 < len_r \<and> sig ! 4 = 0x00 \<and> sig ! 5 AND 0x80 = 0 then False
         else
           let s0 = 6 + len_r in
           if sig ! s0 AND 0x80 \<noteq> 0 then False
           else if 1 < len_s \<and> sig ! s0 = 0x00 \<and> sig ! (s0 + 1) AND 0x80 = 0 then False
           else True)"

definition parse_der_sig :: "btc_lib \<Rightarrow> bytes \<Rightarrow> bool \<Rightarrow> (bytes \<times> u32) consensus" where
  "parse_der_sig L sig_raw strict_der =
    (if sig_raw = [] then Inl (Script ''empty sig'')
     else if strict_der \<and> \<not> is_valid_signature_encoding sig_raw then Inl (Script ''der sig'')
     else
       let sighash_ty = ucast (last sig_raw)
       in rbind (ok_or (lib_from_der_lax L (butlast sig_raw)) (Script ''der sig''))
            (\<lambda>sig. Inr (sig, sighash_ty)))"

definition parse_pubkey :: "btc_lib \<Rightarrow> bytes \<Rightarrow> bytes consensus" where
  "parse_pubkey L raw = ok_or (lib_pubkey_from_slice L raw) (Script ''pubkey'')"

definition is_low_der_s :: "btc_lib \<Rightarrow> bytes \<Rightarrow> bool" where
  "is_low_der_s L sig = (lib_serialize_compact L sig = lib_serialize_compact L (lib_normalize_s L sig))"

definition is_defined_hashtype :: "bytes \<Rightarrow> bool" where
  "is_defined_hashtype sig_raw =
    (if sig_raw = [] then False
     else let base = last sig_raw AND NOT 0x80 in 1 \<le> base \<and> base \<le> 3)"

definition is_compressed_or_uncompressed_pubkey :: "bytes \<Rightarrow> bool" where
  "is_compressed_or_uncompressed_pubkey pk =
    (case pk of
       [] \<Rightarrow> False
     | b # _ \<Rightarrow> (b \<in> {0x02, 0x03} \<and> length pk = 33) \<or> (b = 0x04 \<and> length pk = 65))"

definition is_compressed_pubkey :: "bytes \<Rightarrow> bool" where
  "is_compressed_pubkey pk = (case pk of [] \<Rightarrow> False | b # _ \<Rightarrow> b \<in> {0x02, 0x03} \<and> length pk = 33)"

definition verify_ecdsa :: "btc_lib \<Rightarrow> bytes \<Rightarrow> bytes \<Rightarrow> bytes \<Rightarrow> bool" where
  "verify_ecdsa L msg sig pubkey = lib_verify_ecdsa L msg (lib_normalize_s L sig) pubkey"

section \<open>BIP143\<close>

definition bip143_signature_hash ::
  "btc_lib \<Rightarrow> transaction \<Rightarrow> nat \<Rightarrow> bytes \<Rightarrow> u64 \<Rightarrow> u32 \<Rightarrow> tx_script_precompute \<Rightarrow> bytes consensus" where
  "bip143_signature_hash L tx input_index script_code amount raw_ty pre =
    (let mapped = lib_ecdsa_from_consensus L raw_ty;
         anyone_can_pay = (mapped \<in> {EAllPlusAnyoneCanPay, ENonePlusAnyoneCanPay, ESinglePlusAnyoneCanPay});
         base = (if mapped \<in> {ENone, ENonePlusAnyoneCanPay} then ENone
                 else if mapped \<in> {ESingle, ESinglePlusAnyoneCanPay} then ESingle
                 else EAll);
         zero = replicate 32 0;
         hash_prevouts = (if \<not> anyone_can_pay then hash_prevouts L pre else zero);
         hash_sequence = (if \<not> anyone_can_pay \<and> base \<noteq> ESingle \<and> base \<noteq> ENone then hash_sequence L pre else zero);
         hash_outputs =
           (if base \<noteq> ESingle \<and> base \<noteq> ENone then hash_outputs L pre
            else if base = ESingle \<and> input_index < length (tx_output tx)
              then lib_sha256d L (enc_txout L (tx_output tx ! input_index))
            else zero)
     in case get_at (tx_input tx) input_index of
          None \<Rightarrow> Inl (Panic ''input index'')
        | Some txin \<Rightarrow>
            Inr (lib_sha256d L
              (enc_u32 L (tx_version tx) @ hash_prevouts @ hash_sequence
               @ enc_outpoint L (ti_previous_output txin) @ enc_script L script_code @ enc_u64 L amount
               @ enc_u32 L (ti_sequence txin) @ hash_outputs @ enc_u32 L (tx_lock_time tx)
               @ to_le 4 (unat raw_ty))))"

definition bip143_p2wpkh_signature_hash ::
  "btc_lib \<Rightarrow> transaction \<Rightarrow> nat \<Rightarrow> bytes \<Rightarrow> u64 \<Rightarrow> u32 \<Rightarrow> tx_script_precompute \<Rightarrow> bytes consensus" where
  "bip143_p2wpkh_signature_hash L tx input_index script_pubkey amount raw_ty pre =
    rbind (ok_or (lib_p2wpkh_script_code L script_pubkey) (Script ''bip143 not p2wpkh''))
      (\<lambda>script_code. bip143_signature_hash L tx input_index script_code amount raw_ty pre)"

definition bip143_p2wsh_signature_hash ::
  "btc_lib \<Rightarrow> transaction \<Rightarrow> nat \<Rightarrow> bytes \<Rightarrow> u64 \<Rightarrow> u32 \<Rightarrow> tx_script_precompute \<Rightarrow> bytes consensus" where
  "bip143_p2wsh_signature_hash L tx input_index witness_script amount raw_ty pre =
    bip143_signature_hash L tx input_index witness_script amount raw_ty pre"

section \<open>BIP341\<close>

text \<open>The error the prevout callback recorded: that of the first input it could not resolve.\<close>

fun first_prevout_error :: "script_check_job \<Rightarrow> nat list \<Rightarrow> consensus_error option" where
  "first_prevout_error job [] = None"
| "first_prevout_error job (i # is) =
    (case prevout_parts job i of Inl e \<Rightarrow> Some e | Inr _ \<Rightarrow> first_prevout_error job is)"

definition tap_spent_hashes :: "btc_lib \<Rightarrow> script_check_job \<Rightarrow> (bytes \<times> bytes) consensus" where
  "tap_spent_hashes L job =
    rbind (job_pre_row L job) (\<lambda>pre.
      let parts = (\<lambda>i. case prevout_parts job i of Inr p \<Rightarrow> Some p | Inl _ \<Rightarrow> None);
          (ok, spent) = finish_spent_parts L (job_inputs job) parts pre
      in if \<not> ok then
           Inl (case first_prevout_error job (job_inputs job) of
                  Some e \<Rightarrow> e
                | None \<Rightarrow> Script ''tapscript sighash prevouts'')
         else rbind (ok_or (tp_sha_amounts spent) (Panic ''finish_spent set amounts'')) (\<lambda>amounts.
              rbind (ok_or (tp_sha_scriptpubkeys spent) (Panic ''finish_spent set scripts'')) (\<lambda>scripts.
              Inr (amounts, scripts))))"

definition annex_hash :: "btc_lib \<Rightarrow> bytes \<Rightarrow> bytes" where
  "annex_hash L annex = lib_sha256 L (enc_varint L (word_of_nat (length annex)) @ annex)"

text \<open>\<open>hash_type\<close> is the discriminant byte of \<open>TapSighashType\<close>.\<close>

definition tap_signature_hash ::
  "btc_lib \<Rightarrow> script_check_job \<Rightarrow> nat \<Rightarrow> u8 \<Rightarrow> bytes option \<Rightarrow> (bytes \<times> u32) option \<Rightarrow> u64 \<Rightarrow> bytes \<Rightarrow> bytes consensus" where
  "tap_signature_hash L job input_index hash_type annex_digest leaf spent_value spent_script =
    (let tx = job_transaction job in
     case get_at (tx_input tx) input_index of
       None \<Rightarrow> Inl (Panic ''input index'')
     | Some txin \<Rightarrow>
         rbind (job_pre_row L job) (\<lambda>pre.
         let output_type = (if hash_type = 0 then 0x01 else hash_type AND 0x03);
             anyone_can_pay = (hash_type AND 0x80 \<noteq> 0);
             ext_flag = (if leaf \<noteq> None then 1 else 0 :: u8);
             head = [0, hash_type] @ enc_u32 L (tx_version tx) @ enc_u32 L (tx_lock_time tx)
         in rbind (if anyone_can_pay then Inr []
                   else rbind (tap_spent_hashes L job) (\<lambda>(sha_amounts, sha_scriptpubkeys).
                     Inr (tp_sha_prevouts pre @ sha_amounts @ sha_scriptpubkeys @ tp_sha_sequences pre)))
              (\<lambda>spent.
            let outputs = (if output_type = 0x01 then tp_sha_outputs pre else []);
                spend_type = [push_bit 1 ext_flag OR (if annex_digest \<noteq> None then 1 else 0)];
                this_input =
                  (if anyone_can_pay
                   then enc_outpoint L (ti_previous_output txin) @ enc_u64 L spent_value
                          @ enc_script L spent_script @ enc_u32 L (ti_sequence txin)
                   else to_le 4 input_index);
                annex = (case annex_digest of Some h \<Rightarrow> h | None \<Rightarrow> [])
            in rbind (if output_type = 0x03
                      then ok_or (map_option (\<lambda>out. lib_sha256 L (enc_txout L out)) (get_at (tx_output tx) input_index))
                             (Script ''tapscript sighash single'')
                      else Inr [])
                 (\<lambda>single.
               let tail = (case leaf of
                             Some (tapleaf_hash, codeseparator_pos) \<Rightarrow>
                               tapleaf_hash @ [0] @ to_le 4 (unat codeseparator_pos)
                           | None \<Rightarrow> [])
               in Inr (lib_tap_sighash L (head @ spent @ outputs @ spend_type @ this_input @ annex @ single @ tail))))))"

record tapscript_exec_data =
  te_job :: script_check_job
  te_input_index :: nat
  te_tapleaf_hash :: bytes
  te_spent_value :: u64
  te_spent_script :: bytes
  te_annex_hash :: "bytes option"

definition tapscript_exec_new ::
  "btc_lib \<Rightarrow> script_check_job \<Rightarrow> nat \<Rightarrow> bytes \<Rightarrow> u64 \<Rightarrow> bytes \<Rightarrow> bytes option \<Rightarrow> tapscript_exec_data" where
  "tapscript_exec_new L job input_index tapleaf_hash spent_value spent_script annex =
    \<lparr>te_job = job, te_input_index = input_index, te_tapleaf_hash = tapleaf_hash, te_spent_value = spent_value,
     te_spent_script = spent_script, te_annex_hash = map_option (annex_hash L) annex\<rparr>"

definition tapscript_signature_hash :: "btc_lib \<Rightarrow> tapscript_exec_data \<Rightarrow> u8 \<Rightarrow> u32 \<Rightarrow> bytes consensus" where
  "tapscript_signature_hash L exec hash_type codeseparator_pos =
    tap_signature_hash L (te_job exec) (te_input_index exec) hash_type (te_annex_hash exec)
      (Some (te_tapleaf_hash exec, codeseparator_pos)) (te_spent_value exec) (te_spent_script exec)"

section \<open>Strict DER as a grammar\<close>

text \<open>A positive integer body without excess padding.\<close>

definition der_int :: "bytes \<Rightarrow> bool" where
  "der_int xs \<longleftrightarrow> xs \<noteq> [] \<and> unat (hd xs) < 128 \<and> (1 < length xs \<and> hd xs = 0 \<longrightarrow> 128 \<le> unat (xs ! 1))"

definition der_form :: "bytes \<Rightarrow> bytes \<Rightarrow> u8 \<Rightarrow> bytes" where
  "der_form r s hashtype =
    [0x30, word_of_nat (length r + length s + 4), 0x02, word_of_nat (length r)] @ r
    @ [0x02, word_of_nat (length s)] @ s @ [hashtype]"

lemma der_form_valid:
  assumes "der_int r" "der_int s" "length r + length s \<le> 66"
  shows "is_valid_signature_encoding (der_form r s hashtype)"
proof -
  obtain r0 r' s0 s' where rs: "r = r0 # r'" "s = s0 # s'" using assms by (cases r; cases s) (auto simp: der_int_def)
  let ?sig = "der_form r s hashtype"
  have len: "length ?sig = length r + length s + 7" by (simp add: der_form_def)
  have "?sig ! 1 = word_of_nat (length r + length s + 4)" "?sig ! 0 = 0x30" "?sig ! 2 = 2"
    "?sig ! 3 = word_of_nat (length r)" "?sig ! 4 = r0"
    by (simp_all add: der_form_def rs)
  moreover have "?sig ! (4 + length r) = 2" "?sig ! (5 + length r) = word_of_nat (length s)" "?sig ! (6 + length r) = s0"
    by (simp_all add: der_form_def nth_append rs)
  moreover have "1 < length r \<Longrightarrow> ?sig ! 5 = r ! 1" "1 < length s \<Longrightarrow> ?sig ! (7 + length r) = s ! 1"
    by (simp_all add: der_form_def nth_append rs)
  moreover have "unat (word_of_nat (length r + length s + 4) :: u8) = length r + length s + 4"
    "unat (word_of_nat (length r) :: u8) = length r" "unat (word_of_nat (length s) :: u8) = length s"
    using assms by (simp_all del: of_nat_add)
  ultimately show ?thesis
    using assms len
    by (auto simp: is_valid_signature_encoding_def der_int_def and_80_eq_0_iff Let_def rs simp del: of_nat_add)
qed

lemma der_split:
  assumes "length sig = lr + ls + 7"
  shows "sig = [sig ! 0, sig ! 1, sig ! 2, sig ! 3] @ take lr (drop 4 sig) @ [sig ! (4 + lr), sig ! (5 + lr)]
    @ take ls (drop (6 + lr) sig) @ [sig ! (6 + lr + ls)]"
proof -
  have "sig = sig ! 0 # sig ! 1 # sig ! 2 # sig ! 3 # drop 4 sig"
    using assms Cons_nth_drop_Suc [of 0 sig] Cons_nth_drop_Suc [of 1 sig] Cons_nth_drop_Suc [of 2 sig]
      Cons_nth_drop_Suc [of 3 sig] by (simp add: numeral_eq_Suc)
  moreover have "drop 4 sig = take lr (drop 4 sig) @ drop (4 + lr) sig"
    by (metis add.commute append_take_drop_id drop_drop)
  moreover have "drop (4 + lr) sig = sig ! (4 + lr) # sig ! (5 + lr) # drop (6 + lr) sig"
    using assms Cons_nth_drop_Suc [of "4 + lr" sig] Cons_nth_drop_Suc [of "5 + lr" sig] by simp
  moreover have "drop (6 + lr) sig = take ls (drop (6 + lr) sig) @ drop (6 + lr + ls) sig"
    by (metis add.commute append_take_drop_id drop_drop)
  moreover have "drop (6 + lr + ls) sig = [sig ! (6 + lr + ls)]"
    using assms Cons_nth_drop_Suc [of "6 + lr + ls" sig] by simp
  ultimately show ?thesis by (metis append_Cons append_Nil)
qed

lemma valid_der_form:
  assumes "is_valid_signature_encoding sig"
  shows "\<exists>r s. sig = der_form r s (last sig) \<and> der_int r \<and> der_int s \<and> length r + length s \<le> 66"
proof -
  let ?lr = "unat (sig ! 3)"
  let ?ls = "unat (sig ! (5 + ?lr))"
  let ?r = "take ?lr (drop 4 sig)" and ?s = "take ?ls (drop (6 + ?lr) sig)"
  have len: "length sig = ?lr + ?ls + 7" and pos: "0 < ?lr" "0 < ?ls" and max: "length sig \<le> 73"
    and head: "sig ! 0 = 0x30" "unat (sig ! 1) = length sig - 3" "sig ! 2 = 0x02" "sig ! (4 + ?lr) = 0x02"
    using assms by (auto simp: is_valid_signature_encoding_def Let_def split: if_splits)
  have ints: "der_int ?r" "der_int ?s"
    using assms len pos
    by (auto simp: is_valid_signature_encoding_def der_int_def Let_def and_80_eq_0_iff hd_conv_nth not_less
        split: if_splits)
  have lens: "length ?r = ?lr" "length ?s = ?ls" using len by simp_all
  have "sig ! 1 = word_of_nat (?lr + ?ls + 4)"
    using head(2) len max by (simp add: word_unat_eq_iff del: of_nat_add)
  then have "[sig ! 0, sig ! 1, sig ! 2, sig ! 3] = [0x30, word_of_nat (length ?r + length ?s + 4), 0x02, word_of_nat (length ?r)]"
    unfolding lens using head by simp
  moreover have "[sig ! (4 + ?lr), sig ! (5 + ?lr)] = [0x02, word_of_nat (length ?s)]"
    unfolding lens using head by simp
  moreover have "last sig = sig ! (6 + ?lr + ?ls)"
    using len by (subst last_conv_nth) (auto simp: add.assoc)
  ultimately have "sig = der_form ?r ?s (last sig)"
    unfolding der_form_def using der_split [OF len] by metis
  then show ?thesis using ints lens len max by (intro exI [of _ ?r] exI [of _ ?s]) simp
qed

section \<open>Properties\<close>

text \<open>
  C37. The BIP66 check accepts exactly the strict DER sequences: two positive integers without excess
  padding, lengths that add up, one hash type byte and at most 73 bytes.
\<close>

theorem signature_encoding_grammar:
  "is_valid_signature_encoding sig \<longleftrightarrow>
    (\<exists>r s hashtype. sig = der_form r s hashtype \<and> der_int r \<and> der_int s \<and> length r + length s \<le> 66)"
  using valid_der_form [of sig] der_form_valid by blast

end
