(* ===== verification/Interp.thy ===== *)
theory Interp
  imports Crypto CondStack ScriptNum
begin

text \<open>
  The script interpreter of \<open>crates/rbitcoin-consensus/src/script/interpreter.rs\<close>. The execution stack
  is a list with its top first (the \<open>Vec\<close> read backwards: position \<open>len - 1 - k\<close> is index \<open>k\<close>). The
  context is split into its immutable part \<open>eval_context\<close> and its three cells \<open>eval_cells\<close>; the local
  variables of \<open>eval_script\<close> are the record \<open>eval_state\<close>. The \<open>for\<close> loop is the recursion
  \<open>eval_items\<close> over the items of the parser's iterator, one \<open>eval_instr\<close> per item.
\<close>

section \<open>Context and state\<close>

definition MAX_STACK_SIZE :: nat where
  "MAX_STACK_SIZE = 1000"

definition TAPSCRIPT_VALIDATION_WEIGHT_OFFSET :: int where
  "TAPSCRIPT_VALIDATION_WEIGHT_OFFSET = 50"

definition TAPSCRIPT_VALIDATION_WEIGHT_PER_SIGOP :: int where
  "TAPSCRIPT_VALIDATION_WEIGHT_PER_SIGOP = 50"

definition MAX_SCRIPT_SIZE_LEGACY :: nat where
  "MAX_SCRIPT_SIZE_LEGACY = 10000"

definition MAX_OPS_LEGACY :: nat where
  "MAX_OPS_LEGACY = 201"

definition MAX_PUBKEYS_PER_MULTISIG :: int where
  "MAX_PUBKEYS_PER_MULTISIG = 20"

datatype sig_version = Base | WitnessV0 | TapScript

datatype pre_tapscript = PreBase | PreWitnessV0

fun from_sig_version :: "sig_version \<Rightarrow> pre_tapscript option" where
  "from_sig_version Base = Some PreBase"
| "from_sig_version WitnessV0 = Some PreWitnessV0"
| "from_sig_version TapScript = None"

record eval_context =
  ec_tx :: transaction
  ec_input_index :: nat
  ec_amount :: u64
  ec_script_code :: bytes
  ec_sig_version :: sig_version
  ec_bip65_active :: bool
  ec_bip112_active :: bool
  ec_bip66_active :: bool
  ec_minimal_data :: bool
  ec_nullfail :: bool
  ec_low_s :: bool
  ec_strictenc :: bool
  ec_null_dummy :: bool
  ec_minimal_if :: bool
  ec_witness_pubkeytype :: bool
  ec_const_scriptcode :: bool
  ec_pre :: tx_script_precompute
  ec_tapscript :: "tapscript_exec_data option"

record eval_cells =
  cl_codeseparator_pos :: u32
  cl_codeseparator_script_off :: "nat option"
  cl_validation_weight_left :: int

type_synonym stack = "bytes list"

record eval_state =
  st_stack :: stack
  st_altstack :: stack
  st_cond :: condition_stack
  st_op_count :: nat
  st_opcode_pos :: u32
  st_cells :: eval_cells

definition tapscript_init_weight :: "btc_lib \<Rightarrow> transaction \<Rightarrow> nat \<Rightarrow> sig_version \<Rightarrow> int" where
  "tapscript_init_weight L tx input_index sig_version =
    (if sig_version \<noteq> TapScript then 0
     else
       TAPSCRIPT_VALIDATION_WEIGHT_OFFSET
       + (case get_at (tx_input tx) input_index of
            None \<Rightarrow> 0
          | Some inp \<Rightarrow> int (length (enc_witness L (ti_witness inp)))))"

definition base_sig_precompute :: tx_script_precompute where
  "base_sig_precompute =
    \<lparr>tp_connect = \<lparr>tc_txid = replicate 32 0, tc_wtxid = replicate 32 0, tc_base_size = 0, tc_total_size = 0,
       tc_sigops = 0, tc_out_sum = 0, tc_has_witness = False\<rparr>,
     tp_sha_prevouts = replicate 32 0, tp_sha_sequences = replicate 32 0, tp_sha_outputs = replicate 32 0,
     tp_sha_amounts = None, tp_sha_scriptpubkeys = None\<rparr>"

definition from_eval_parts ::
  "transaction \<Rightarrow> nat \<Rightarrow> u64 \<Rightarrow> bytes \<Rightarrow> sig_version \<Rightarrow> bool \<Rightarrow> bool \<Rightarrow> bool \<Rightarrow> tx_script_precompute \<Rightarrow> eval_context" where
  "from_eval_parts tx input_index amount script_code sig_version bip65 bip112 bip66 pre =
    \<lparr>ec_tx = tx, ec_input_index = input_index, ec_amount = amount, ec_script_code = script_code,
     ec_sig_version = sig_version, ec_bip65_active = bip65, ec_bip112_active = bip112, ec_bip66_active = bip66,
     ec_minimal_data = False, ec_nullfail = False, ec_low_s = False, ec_strictenc = False,
     ec_null_dummy = False, ec_minimal_if = False, ec_witness_pubkeytype = False,
     ec_const_scriptcode = False, ec_pre = pre, ec_tapscript = None\<rparr>"

definition init_cells :: "btc_lib \<Rightarrow> eval_context \<Rightarrow> eval_cells" where
  "init_cells L ctx =
    \<lparr>cl_codeseparator_pos = 0xFFFFFFFF, cl_codeseparator_script_off = None,
     cl_validation_weight_left = tapscript_init_weight L (ec_tx ctx) (ec_input_index ctx) (ec_sig_version ctx)\<rparr>"

definition with_tapscript :: "eval_context \<Rightarrow> tapscript_exec_data \<Rightarrow> eval_context" where
  "with_tapscript ctx exec = ctx\<lparr>ec_tapscript := Some exec\<rparr>"

definition apply_job_flags :: "eval_context \<Rightarrow> script_check_job \<Rightarrow> eval_context" where
  "apply_job_flags ctx job =
    (let f = j_flags job;
         ctx = ctx\<lparr>ec_minimal_data := f_minimal_data f, ec_nullfail := f_nullfail f, ec_low_s := f_low_s f,
                  ec_strictenc := f_strictenc f, ec_null_dummy := f_null_dummy f,
                  ec_minimal_if := f_minimal_if f, ec_witness_pubkeytype := f_witness_pubkeytype f,
                  ec_const_scriptcode := f_const_scriptcode f\<rparr>
     in if f_low_s f \<or> f_strictenc f then ctx\<lparr>ec_bip66_active := True\<rparr> else ctx)"

definition from_job ::
  "btc_lib \<Rightarrow> script_check_job \<Rightarrow> transaction \<Rightarrow> nat \<Rightarrow> u64 \<Rightarrow> bytes \<Rightarrow> sig_version \<Rightarrow> eval_context consensus" where
  "from_job L job tx input_index amount script_code sig_version =
    rbind (if sig_version = Base then Inr base_sig_precompute else job_pre_row L job) (\<lambda>pre.
    let f = j_flags job
    in Inr (apply_job_flags
         (from_eval_parts tx input_index amount script_code sig_version
            (f_bip65_active f) (f_bip112_active f) (f_bip66_active f) pre) job))"

section \<open>Stack primitives\<close>

definition push :: "stack \<Rightarrow> nat \<Rightarrow> bytes \<Rightarrow> stack consensus" where
  "push stk alt_len v =
    (if MAX_STACK_SIZE < length stk + alt_len + 1 then Inl (Script ''stack size'') else Inr (v # stk))"

definition pop :: "stack \<Rightarrow> (bytes \<times> stack) consensus" where
  "pop stk = (case stk of [] \<Rightarrow> Inl (Script ''stack empty'') | v # stk \<Rightarrow> Inr (v, stk))"

definition require_n :: "stack \<Rightarrow> nat \<Rightarrow> unit consensus" where
  "require_n stk n = (if length stk < n then Inl (Script ''stack empty'') else Inr ())"

fun from_scriptnum_error :: "scriptnum_error \<Rightarrow> consensus_error" where
  "from_scriptnum_error Overflow = Script ''scriptnum overflow''"
| "from_scriptnum_error NonMinimal = Script ''SCRIPTNUM''"

definition decode_i64 :: "bytes \<Rightarrow> bool \<Rightarrow> int consensus" where
  "decode_i64 v require_minimal = map_err from_scriptnum_error (scriptnum_decode v require_minimal)"

definition is_minimal_if_arg :: "bytes \<Rightarrow> bool" where
  "is_minimal_if_arg v = (v = [] \<or> v = [0x01])"

definition bool_encode :: "bool \<Rightarrow> bytes" where
  "bool_encode b = (if b then [1] else [])"

definition check_minimal_push :: "bytes \<Rightarrow> u8 \<Rightarrow> bool" where
  "check_minimal_push data opcode =
    (if data = [] then opcode = OP_0
     else if length data = 1 \<and> 1 \<le> data ! 0 \<and> data ! 0 \<le> 16 then opcode = OP_RESERVED + data ! 0
     else if length data = 1 \<and> data ! 0 = 0x81 then opcode = OP_1NEGATE
     else if length data \<le> 75 then unat opcode = length data
     else if length data \<le> 255 then opcode = OP_PUSHDATA1
     else opcode = OP_PUSHDATA2)"

text \<open>\<open>decode_i64(&pop(stack)?, rm)?\<close>, the way every numeric opcode takes an operand.\<close>

definition pop_num :: "stack \<Rightarrow> bool \<Rightarrow> (int \<times> stack) consensus" where
  "pop_num stk rm = rbind (pop stk) (\<lambda>(v, stk). rbind (decode_i64 v rm) (\<lambda>n. Inr (n, stk)))"

definition bin_arith :: "stack \<Rightarrow> nat \<Rightarrow> bool \<Rightarrow> (int \<Rightarrow> int \<Rightarrow> int) \<Rightarrow> stack consensus" where
  "bin_arith stk alt_len rm f =
    rbind (pop_num stk rm) (\<lambda>(b, stk).
    rbind (pop_num stk rm) (\<lambda>(a, stk).
    push stk alt_len (scriptnum_encode (f a b))))"

definition bin_cmp :: "stack \<Rightarrow> nat \<Rightarrow> bool \<Rightarrow> (int \<Rightarrow> int \<Rightarrow> bool) \<Rightarrow> stack consensus" where
  "bin_cmp stk alt_len rm f =
    rbind (pop_num stk rm) (\<lambda>(b, stk).
    rbind (pop_num stk rm) (\<lambda>(a, stk).
    push stk alt_len (bool_encode (f a b))))"

definition unary_num :: "stack \<Rightarrow> nat \<Rightarrow> bool \<Rightarrow> (int \<Rightarrow> bytes) \<Rightarrow> stack consensus" where
  "unary_num stk alt_len rm f = rbind (pop_num stk rm) (\<lambda>(v, stk). push stk alt_len (f v))"

definition swap_at :: "'a list \<Rightarrow> nat \<Rightarrow> nat \<Rightarrow> 'a list" where
  "swap_at xs i j = xs[i := xs ! j, j := xs ! i]"

section \<open>Stack opcodes\<close>

definition op_verify :: "btc_lib \<Rightarrow> stack \<Rightarrow> stack consensus" where
  "op_verify L stk =
    rbind (pop stk) (\<lambda>(v, stk).
    if \<not> read_scriptbool L v then Inl (Script ''OP_VERIFY'') else Inr stk)"

definition op_2drop :: "stack \<Rightarrow> stack consensus" where
  "op_2drop stk = rbind (pop stk) (\<lambda>(_, stk). rbind (pop stk) (\<lambda>(_, stk). Inr stk))"

definition op_2dup :: "nat \<Rightarrow> stack \<Rightarrow> stack consensus" where
  "op_2dup alt_len stk =
    rbind (require_n stk 2) (\<lambda>_.
    let a = stk ! 1; b = stk ! 0
    in rbind (push stk alt_len a) (\<lambda>stk. push stk alt_len b))"

definition op_3dup :: "nat \<Rightarrow> stack \<Rightarrow> stack consensus" where
  "op_3dup alt_len stk =
    rbind (require_n stk 3) (\<lambda>_.
    let a = stk ! 2; b = stk ! 1; c = stk ! 0
    in rbind (push stk alt_len a) (\<lambda>stk. rbind (push stk alt_len b) (\<lambda>stk. push stk alt_len c)))"

definition op_2over :: "nat \<Rightarrow> stack \<Rightarrow> stack consensus" where
  "op_2over alt_len stk =
    rbind (require_n stk 4) (\<lambda>_.
    let a = stk ! 3; b = stk ! 2
    in rbind (push stk alt_len a) (\<lambda>stk. push stk alt_len b))"

definition op_2rot :: "stack \<Rightarrow> stack consensus" where
  "op_2rot stk =
    rbind (require_n stk 6) (\<lambda>_.
    let x1 = stk ! 5;
        x2 = stk ! 4;
        stk = fold (\<lambda>i stk. stk[5 - i := stk ! (3 - i)]) [0, 1, 2, 3] stk
    in Inr (stk[1 := x1, 0 := x2]))"

definition op_2swap :: "stack \<Rightarrow> stack consensus" where
  "op_2swap stk = rbind (require_n stk 4) (\<lambda>_. Inr (swap_at (swap_at stk 3 1) 2 0))"

definition op_ifdup :: "btc_lib \<Rightarrow> nat \<Rightarrow> stack \<Rightarrow> stack consensus" where
  "op_ifdup L alt_len stk =
    rbind (require_n stk 1) (\<lambda>_.
    if read_scriptbool L (stk ! 0) then push stk alt_len (stk ! 0) else Inr stk)"

definition op_depth :: "nat \<Rightarrow> stack \<Rightarrow> stack consensus" where
  "op_depth alt_len stk = push stk alt_len (scriptnum_encode (int (length stk)))"

definition op_drop :: "stack \<Rightarrow> stack consensus" where
  "op_drop stk = rbind (pop stk) (\<lambda>(_, stk). Inr stk)"

definition op_dup :: "nat \<Rightarrow> stack \<Rightarrow> stack consensus" where
  "op_dup alt_len stk = rbind (require_n stk 1) (\<lambda>_. push stk alt_len (stk ! 0))"

definition op_nip :: "nat \<Rightarrow> stack \<Rightarrow> stack consensus" where
  "op_nip alt_len stk =
    rbind (require_n stk 2) (\<lambda>_.
    rbind (pop stk) (\<lambda>(top, stk). rbind (pop stk) (\<lambda>(_, stk). push stk alt_len top)))"

definition op_over :: "nat \<Rightarrow> stack \<Rightarrow> stack consensus" where
  "op_over alt_len stk = rbind (require_n stk 2) (\<lambda>_. push stk alt_len (stk ! 1))"

definition op_pick :: "nat \<Rightarrow> bool \<Rightarrow> stack \<Rightarrow> stack consensus" where
  "op_pick alt_len rm stk =
    rbind (pop_num stk rm) (\<lambda>(n, stk).
    if n < 0 \<or> length stk \<le> nat n then Inl (Script ''OP_PICK'')
    else push stk alt_len (stk ! nat n))"

definition op_roll :: "nat \<Rightarrow> bool \<Rightarrow> stack \<Rightarrow> stack consensus" where
  "op_roll alt_len rm stk =
    rbind (pop_num stk rm) (\<lambda>(n, stk).
    if n < 0 \<or> length stk \<le> nat n then Inl (Script ''OP_ROLL'')
    else push (take (nat n) stk @ drop (nat n + 1) stk) alt_len (stk ! nat n))"

definition op_rot :: "stack \<Rightarrow> stack consensus" where
  "op_rot stk = rbind (require_n stk 3) (\<lambda>_. Inr (swap_at (swap_at stk 2 1) 1 0))"

definition op_swap :: "stack \<Rightarrow> stack consensus" where
  "op_swap stk = rbind (require_n stk 2) (\<lambda>_. Inr (swap_at stk 0 1))"

definition op_tuck :: "nat \<Rightarrow> stack \<Rightarrow> stack consensus" where
  "op_tuck alt_len stk =
    rbind (require_n stk 2) (\<lambda>_.
    rbind (push stk alt_len (stk ! 0)) (\<lambda>stk. Inr (swap_at stk 2 1)))"

definition op_size :: "nat \<Rightarrow> stack \<Rightarrow> stack consensus" where
  "op_size alt_len stk =
    rbind (require_n stk 1) (\<lambda>_. push stk alt_len (scriptnum_encode (int (length (stk ! 0)))))"

definition op_equal :: "nat \<Rightarrow> stack \<Rightarrow> stack consensus" where
  "op_equal alt_len stk =
    rbind (pop stk) (\<lambda>(a, stk). rbind (pop stk) (\<lambda>(b, stk). push stk alt_len (bool_encode (a = b))))"

definition op_equalverify :: "stack \<Rightarrow> stack consensus" where
  "op_equalverify stk =
    rbind (pop stk) (\<lambda>(a, stk).
    rbind (pop stk) (\<lambda>(b, stk).
    if a \<noteq> b then Inl (Script ''OP_EQUALVERIFY'') else Inr stk))"

text \<open>The arms of the opcode match that only touch the main stack, by opcode.\<close>

definition stack_op :: "btc_lib \<Rightarrow> bool \<Rightarrow> nat \<Rightarrow> u8 \<Rightarrow> (stack \<Rightarrow> stack consensus) option" where
  "stack_op L rm alt_len code =
    (if code = 0x4F then Some (\<lambda>stk. push stk alt_len [0x81])
     else if 0x51 \<le> code \<and> code \<le> 0x60 then Some (\<lambda>stk. push stk alt_len [code - 0x50])
     else if code = 0x61 then Some Inr
     else if code = 0x69 then Some (op_verify L)
     else if code = 0x6D then Some op_2drop
     else if code = 0x6E then Some (op_2dup alt_len)
     else if code = 0x6F then Some (op_3dup alt_len)
     else if code = 0x70 then Some (op_2over alt_len)
     else if code = 0x71 then Some op_2rot
     else if code = 0x72 then Some op_2swap
     else if code = 0x73 then Some (op_ifdup L alt_len)
     else if code = 0x74 then Some (op_depth alt_len)
     else if code = 0x75 then Some op_drop
     else if code = 0x76 then Some (op_dup alt_len)
     else if code = 0x77 then Some (op_nip alt_len)
     else if code = 0x78 then Some (op_over alt_len)
     else if code = 0x79 then Some (op_pick alt_len rm)
     else if code = 0x7A then Some (op_roll alt_len rm)
     else if code = 0x7B then Some op_rot
     else if code = 0x7C then Some op_swap
     else if code = 0x7D then Some (op_tuck alt_len)
     else if code = 0x82 then Some (op_size alt_len)
     else if code = 0x87 then Some (op_equal alt_len)
     else if code = 0x88 then Some op_equalverify
     else None)"

section \<open>Arithmetic and hash opcodes\<close>

definition op_numequalverify :: "bool \<Rightarrow> stack \<Rightarrow> stack consensus" where
  "op_numequalverify rm stk =
    rbind (pop_num stk rm) (\<lambda>(b, stk).
    rbind (pop_num stk rm) (\<lambda>(a, stk).
    if a \<noteq> b then Inl (Script ''OP_NUMEQUALVERIFY'') else Inr stk))"

definition op_within :: "nat \<Rightarrow> bool \<Rightarrow> stack \<Rightarrow> stack consensus" where
  "op_within alt_len rm stk =
    rbind (pop_num stk rm) (\<lambda>(hi, stk).
    rbind (pop_num stk rm) (\<lambda>(lo, stk).
    rbind (pop_num stk rm) (\<lambda>(x, stk).
    push stk alt_len (bool_encode (lo \<le> x \<and> x < hi)))))"

definition arith_op :: "bool \<Rightarrow> nat \<Rightarrow> u8 \<Rightarrow> (stack \<Rightarrow> stack consensus) option" where
  "arith_op rm alt_len code =
    (if code = 0x8B then Some (\<lambda>stk. unary_num stk alt_len rm (\<lambda>v. scriptnum_encode (i64_saturate (v + 1))))
     else if code = 0x8C then Some (\<lambda>stk. unary_num stk alt_len rm (\<lambda>v. scriptnum_encode (i64_saturate (v - 1))))
     else if code = 0x8F then Some (\<lambda>stk. unary_num stk alt_len rm (\<lambda>v. scriptnum_encode (- v)))
     else if code = 0x90 then Some (\<lambda>stk. unary_num stk alt_len rm (\<lambda>v. scriptnum_encode \<bar>v\<bar>))
     else if code = 0x91 then Some (\<lambda>stk. unary_num stk alt_len rm (\<lambda>v. bool_encode (v = 0)))
     else if code = 0x92 then Some (\<lambda>stk. unary_num stk alt_len rm (\<lambda>v. bool_encode (v \<noteq> 0)))
     else if code = 0x93 then Some (\<lambda>stk. bin_arith stk alt_len rm (\<lambda>a b. a + b))
     else if code = 0x94 then Some (\<lambda>stk. bin_arith stk alt_len rm (\<lambda>a b. a - b))
     else if code = 0x9A then Some (\<lambda>stk. bin_cmp stk alt_len rm (\<lambda>a b. a \<noteq> 0 \<and> b \<noteq> 0))
     else if code = 0x9B then Some (\<lambda>stk. bin_cmp stk alt_len rm (\<lambda>a b. a \<noteq> 0 \<or> b \<noteq> 0))
     else if code = 0x9C then Some (\<lambda>stk. bin_cmp stk alt_len rm (\<lambda>a b. a = b))
     else if code = 0x9D then Some (op_numequalverify rm)
     else if code = 0x9E then Some (\<lambda>stk. bin_cmp stk alt_len rm (\<lambda>a b. a \<noteq> b))
     else if code = 0x9F then Some (\<lambda>stk. bin_cmp stk alt_len rm (\<lambda>a b. a < b))
     else if code = 0xA0 then Some (\<lambda>stk. bin_cmp stk alt_len rm (\<lambda>a b. a > b))
     else if code = 0xA1 then Some (\<lambda>stk. bin_cmp stk alt_len rm (\<lambda>a b. a \<le> b))
     else if code = 0xA2 then Some (\<lambda>stk. bin_cmp stk alt_len rm (\<lambda>a b. a \<ge> b))
     else if code = 0xA3 then Some (\<lambda>stk. bin_arith stk alt_len rm (\<lambda>a b. min a b))
     else if code = 0xA4 then Some (\<lambda>stk. bin_arith stk alt_len rm (\<lambda>a b. max a b))
     else if code = 0xA5 then Some (op_within alt_len rm)
     else None)"

definition push_digest :: "(bytes \<Rightarrow> bytes) \<Rightarrow> nat \<Rightarrow> stack \<Rightarrow> stack consensus" where
  "push_digest h alt_len stk = rbind (pop stk) (\<lambda>(v, stk). push stk alt_len (h v))"

definition hash_op :: "btc_lib \<Rightarrow> nat \<Rightarrow> u8 \<Rightarrow> (stack \<Rightarrow> stack consensus) option" where
  "hash_op L alt_len code =
    (if code = 0xA6 then Some (push_digest (lib_ripemd160 L) alt_len)
     else if code = 0xA7 then Some (push_digest (lib_sha1 L) alt_len)
     else if code = 0xA8 then Some (push_digest (lib_sha256 L) alt_len)
     else if code = 0xA9 then Some (push_digest (lib_hash160 L) alt_len)
     else if code = 0xAA then Some (push_digest (lib_sha256d L) alt_len)
     else None)"

section \<open>ECDSA signature checks\<close>

text \<open>The slice \<open>&full[off..]\<close> panics past the end.\<close>

definition script_code_bytes :: "eval_context \<Rightarrow> eval_cells \<Rightarrow> bytes consensus" where
  "script_code_bytes ctx cells =
    (case cl_codeseparator_script_off cells of
       Some off \<Rightarrow>
         if off \<le> length (ec_script_code ctx) then Inr (drop off (ec_script_code ctx))
         else Inl (Panic ''range start index out of range'')
     | None \<Rightarrow> Inr (ec_script_code ctx))"

definition sighash_for_script :: "btc_lib \<Rightarrow> eval_context \<Rightarrow> u32 \<Rightarrow> bytes \<Rightarrow> pre_tapscript \<Rightarrow> bytes consensus" where
  "sighash_for_script L ctx ty_raw script_bytes ver =
    (case ver of
       PreBase \<Rightarrow>
         ok_or (lib_legacy_signature_hash L (ec_tx ctx) (ec_input_index ctx) script_bytes ty_raw)
           (Script ''legacy sighash'')
     | PreWitnessV0 \<Rightarrow>
         bip143_p2wsh_signature_hash L (ec_tx ctx) (ec_input_index ctx) script_bytes (ec_amount ctx) ty_raw
           (ec_pre ctx))"

definition check_signature_encoding :: "btc_lib \<Rightarrow> bytes \<Rightarrow> eval_context \<Rightarrow> unit consensus" where
  "check_signature_encoding L sig ctx =
    (let need_der = (ec_bip66_active ctx \<or> ec_low_s ctx \<or> ec_strictenc ctx) in
     if need_der \<and> \<not> is_valid_signature_encoding sig then Inl (Script ''SIG_DER'')
     else
       rbind (if ec_low_s ctx then
                case parse_der_sig L sig False of
                  Inl _ \<Rightarrow> Inl (Panic ''BIP66 signature parses'')
                | Inr (ecdsa, _) \<Rightarrow> if \<not> is_low_der_s L ecdsa then Inl (Script ''SIG_HIGH_S'') else Inr ()
              else Inr ())
         (\<lambda>_. if ec_strictenc ctx \<and> \<not> is_defined_hashtype sig then Inl (Script ''SIG_HASHTYPE'') else Inr ()))"

definition checksig_legacy_encodings ::
  "btc_lib \<Rightarrow> bytes \<Rightarrow> bytes \<Rightarrow> eval_context \<Rightarrow> pre_tapscript \<Rightarrow> unit consensus" where
  "checksig_legacy_encodings L sig pubkey ctx ver =
    rbind (if sig \<noteq> [] then check_signature_encoding L sig ctx else Inr ()) (\<lambda>_.
    if ec_strictenc ctx \<and> \<not> is_compressed_or_uncompressed_pubkey pubkey then Inl (Script ''PUBKEYTYPE'')
    else if ec_witness_pubkeytype ctx \<and> ver = PreWitnessV0 \<and> \<not> is_compressed_pubkey pubkey
    then Inl (Script ''WITNESS_PUBKEYTYPE'')
    else Inr ())"

text \<open>\<open>let Ok(x) = r else { return Ok(false) }\<close>; a panic still unwinds.\<close>

definition or_false :: "'a consensus \<Rightarrow> ('a \<Rightarrow> bool consensus) \<Rightarrow> bool consensus" where
  "or_false r f =
    (case r of
       Inr a \<Rightarrow> f a
     | Inl e \<Rightarrow> (case e of Panic m \<Rightarrow> Inl (Panic m) | _ \<Rightarrow> Inr False))"

definition ecdsa_sig_matches ::
  "btc_lib \<Rightarrow> bytes \<Rightarrow> bytes \<Rightarrow> eval_context \<Rightarrow> bytes \<Rightarrow> pre_tapscript \<Rightarrow> bool consensus" where
  "ecdsa_sig_matches L sig pubkey ctx script_code ver =
    rbind (checksig_legacy_encodings L sig pubkey ctx ver) (\<lambda>_.
    if sig = [] then Inr False
    else
      or_false (parse_der_sig L sig False) (\<lambda>(ecdsa_sig, sighash_ty).
      or_false (parse_pubkey L pubkey) (\<lambda>pk.
      or_false (sighash_for_script L ctx sighash_ty script_code ver) (\<lambda>sighash.
      Inr (verify_ecdsa L sighash ecdsa_sig pk)))))"

definition prepare_script_code ::
  "eval_context \<Rightarrow> eval_cells \<Rightarrow> bytes list \<Rightarrow> pre_tapscript \<Rightarrow> bytes consensus" where
  "prepare_script_code ctx cells sigs ver =
    rbind (script_code_bytes ctx cells) (\<lambda>original.
    if ver = PreBase then
      rbind (legacy_script_code original sigs) (\<lambda>(code, deleted).
      if ec_const_scriptcode ctx \<and> deleted then Inl (Script ''SIG_FINDANDDELETE'') else Inr code)
    else Inr original)"

definition checksig_legacy ::
  "btc_lib \<Rightarrow> bytes \<Rightarrow> bytes \<Rightarrow> eval_context \<Rightarrow> eval_cells \<Rightarrow> pre_tapscript \<Rightarrow> bool consensus" where
  "checksig_legacy L sig pubkey ctx cells ver =
    rbind (prepare_script_code ctx cells [sig] ver) (\<lambda>script_code.
    rbind (ecdsa_sig_matches L sig pubkey ctx script_code ver) (\<lambda>ok.
    if \<not> ok \<and> ec_nullfail ctx \<and> sig \<noteq> [] then Inl (Script ''NULLFAIL'') else Inr ok))"

text \<open>
  The key walk. The remaining signatures and keys are the tails from \<open>isig\<close> and \<open>ikey\<close>; \<open>matches\<close> is the
  call of \<open>ecdsa_sig_matches\<close>. Indexing past the keys panics.
\<close>

fun multisig_walk :: "(bytes \<Rightarrow> bytes \<Rightarrow> bool consensus) \<Rightarrow> bytes list \<Rightarrow> bytes list \<Rightarrow> bool consensus" where
  "multisig_walk matches [] keys = Inr True"
| "multisig_walk matches (s # sigs) [] = Inl (Panic ''index out of bounds'')"
| "multisig_walk matches (s # sigs) (k # keys) =
    rbind (matches s k) (\<lambda>f_ok.
    let rest = (if f_ok then sigs else s # sigs)
    in if length rest > length keys then Inr False else multisig_walk matches rest keys)"

definition checkmultisig_pairs ::
  "btc_lib \<Rightarrow> bytes list \<Rightarrow> bytes list \<Rightarrow> eval_context \<Rightarrow> bytes \<Rightarrow> pre_tapscript \<Rightarrow> bool consensus" where
  "checkmultisig_pairs L sigs pubkeys ctx script_code ver =
    multisig_walk (\<lambda>sig pubkey. ecdsa_sig_matches L sig pubkey ctx script_code ver) sigs pubkeys"

fun pop_n :: "nat \<Rightarrow> stack \<Rightarrow> (bytes list \<times> stack) consensus" where
  "pop_n 0 stk = Inr ([], stk)"
| "pop_n (Suc n) stk =
    rbind (pop stk) (\<lambda>(v, stk). rbind (pop_n n stk) (\<lambda>(vs, stk). Inr (v # vs, stk)))"

text \<open>Returns the stack and the operation count, which the caller passes by reference.\<close>

definition op_checkmultisig ::
  "btc_lib \<Rightarrow> stack \<Rightarrow> nat \<Rightarrow> eval_context \<Rightarrow> eval_cells \<Rightarrow> bool \<Rightarrow> nat \<Rightarrow> pre_tapscript \<Rightarrow> (stack \<times> nat) consensus" where
  "op_checkmultisig L stk alt_len ctx cells verify op_count ver =
    rbind (pop_num stk (ec_minimal_data ctx)) (\<lambda>(n, stk).
    if \<not> (0 \<le> n \<and> n \<le> MAX_PUBKEYS_PER_MULTISIG) then Inl (Script ''multisig n'')
    else
      let op_count = op_count + nat n in
      if MAX_OPS_LEGACY < op_count then Inl (Script ''op count'')
      else
        rbind (pop_n (nat n) stk) (\<lambda>(pubkeys, stk).
        rbind (pop_num stk (ec_minimal_data ctx)) (\<lambda>(m, stk).
        if m < 0 \<or> n < m then Inl (Script ''multisig m'')
        else
          rbind (pop_n (nat m) stk) (\<lambda>(sigs, stk).
          rbind (pop stk) (\<lambda>(dummy, stk).
          if dummy \<noteq> [] \<and> ec_null_dummy ctx then Inl (Script ''NULLDUMMY'')
          else
            rbind (prepare_script_code ctx cells sigs ver) (\<lambda>script_code.
            rbind (checkmultisig_pairs L sigs pubkeys ctx script_code ver) (\<lambda>f_success.
            if \<not> f_success \<and> ec_nullfail ctx \<and> list_ex (\<lambda>s. s \<noteq> []) sigs then Inl (Script ''NULLFAIL'')
            else if verify then
              (if \<not> f_success then Inl (Script ''CHECKMULTISIGVERIFY'') else Inr (stk, op_count))
            else
              rbind (push stk alt_len (bool_encode f_success)) (\<lambda>stk. Inr (stk, op_count)))))))))"

section \<open>Schnorr signature checks\<close>

datatype tap_sig_result = EmptySig | ValidSig

definition checksig_schnorr :: "btc_lib \<Rightarrow> bytes \<Rightarrow> bytes \<Rightarrow> eval_context \<Rightarrow> eval_cells \<Rightarrow> bool consensus" where
  "checksig_schnorr L sig pubkey ctx cells =
    (let check = (\<lambda>sig_bytes sighash_ty.
           rbind (ok_or (lib_xonly_from_slice L pubkey) (Script ''tapscript xonly'')) (\<lambda>xonly.
           rbind (ok_or (ec_tapscript ctx) (Script ''invariant: tapscript spend without tapleaf hash'')) (\<lambda>exec.
           rbind (tapscript_signature_hash L exec sighash_ty (cl_codeseparator_pos cells)) (\<lambda>sighash.
           Inr (lib_verify_schnorr L sig_bytes sighash xonly)))))
     in if length sig = 64 then check sig 0
        else if length sig = 65 then
          (if sig ! 64 = 0x00 then Inr False
           else
             rbind (ok_or (lib_tap_sighash_type L (sig ! 64)) (Script ''tapscript sighash''))
               (\<lambda>ty. check (take 64 sig) ty))
        else Inr False)"

definition tapscript_sig_result ::
  "btc_lib \<Rightarrow> bytes \<Rightarrow> bytes \<Rightarrow> eval_context \<Rightarrow> eval_cells \<Rightarrow> (tap_sig_result \<times> eval_cells) consensus" where
  "tapscript_sig_result L sig pubkey ctx cells =
    (let left = cl_validation_weight_left cells - TAPSCRIPT_VALIDATION_WEIGHT_PER_SIGOP;
         cells = (if sig \<noteq> [] then cells\<lparr>cl_validation_weight_left := left\<rparr> else cells)
     in if sig \<noteq> [] \<and> left < 0 then Inl (Script ''tapscript validation weight'')
        else if pubkey = [] then Inl (Script ''tapscript empty pubkey'')
        else if length pubkey \<noteq> 32 then
          (if sig = [] then Inr (EmptySig, cells) else Inr (ValidSig, cells))
        else if sig = [] then Inr (EmptySig, cells)
        else
          rbind (checksig_schnorr L sig pubkey ctx cells) (\<lambda>ok.
          if \<not> ok then Inl (Script ''tapscript CHECKSIG failed'') else Inr (ValidSig, cells)))"

definition op_checksig_tapscript ::
  "btc_lib \<Rightarrow> stack \<Rightarrow> nat \<Rightarrow> bytes \<Rightarrow> bytes \<Rightarrow> eval_context \<Rightarrow> eval_cells \<Rightarrow> bool \<Rightarrow> (stack \<times> eval_cells) consensus" where
  "op_checksig_tapscript L stk alt_len sig pubkey ctx cells verify =
    rbind (tapscript_sig_result L sig pubkey ctx cells) (\<lambda>(res, cells).
    case res of
      EmptySig \<Rightarrow>
        if verify then Inl (Script ''CHECKSIGVERIFY empty'')
        else rbind (push stk alt_len []) (\<lambda>stk. Inr (stk, cells))
    | ValidSig \<Rightarrow>
        if \<not> verify then rbind (push stk alt_len [0x01]) (\<lambda>stk. Inr (stk, cells)) else Inr (stk, cells))"

definition op_checksig ::
  "btc_lib \<Rightarrow> stack \<Rightarrow> nat \<Rightarrow> eval_context \<Rightarrow> eval_cells \<Rightarrow> bool \<Rightarrow> (stack \<times> eval_cells) consensus" where
  "op_checksig L stk alt_len ctx cells verify =
    rbind (pop stk) (\<lambda>(pubkey, stk).
    rbind (pop stk) (\<lambda>(sig, stk).
    case from_sig_version (ec_sig_version ctx) of
      None \<Rightarrow> op_checksig_tapscript L stk alt_len sig pubkey ctx cells verify
    | Some pre \<Rightarrow>
        rbind (checksig_legacy L sig pubkey ctx cells pre) (\<lambda>ok.
        if verify then (if \<not> ok then Inl (Script ''CHECKSIGVERIFY'') else Inr (stk, cells))
        else rbind (push stk alt_len (bool_encode ok)) (\<lambda>stk. Inr (stk, cells)))))"

definition op_checksigadd ::
  "btc_lib \<Rightarrow> stack \<Rightarrow> nat \<Rightarrow> eval_context \<Rightarrow> eval_cells \<Rightarrow> (stack \<times> eval_cells) consensus" where
  "op_checksigadd L stk alt_len ctx cells =
    rbind (require_n stk 3) (\<lambda>_.
    rbind (pop stk) (\<lambda>(pubkey, stk).
    rbind (pop stk) (\<lambda>(n_raw, stk).
    rbind (pop stk) (\<lambda>(sig, stk).
    rbind (decode_i64 n_raw (ec_minimal_data ctx)) (\<lambda>n.
    rbind (tapscript_sig_result L sig pubkey ctx cells) (\<lambda>(res, cells).
    rbind (push stk alt_len
             (scriptnum_encode (case res of EmptySig \<Rightarrow> n | ValidSig \<Rightarrow> i64_saturate (n + 1))))
      (\<lambda>stk. Inr (stk, cells))))))))"

section \<open>Locktime opcodes\<close>

definition csv_locktime_mask :: "u32 \<Rightarrow> u32" where
  "csv_locktime_mask type_bit = 0x0000FFFF OR type_bit"

definition sequence_csv_ok :: "u32 \<Rightarrow> u32 \<Rightarrow> bool" where
  "sequence_csv_ok seq_n csv =
    (if seq_n AND push_bit 31 1 \<noteq> 0 then False
     else
       let type_bit = push_bit 22 1;
           mask = csv_locktime_mask type_bit;
           seq_masked = seq_n AND mask;
           csv_masked = csv AND mask
       in if (seq_masked XOR csv_masked) AND type_bit \<noteq> 0 then False
          else csv_masked AND 0xFFFF \<le> seq_masked AND 0xFFFF)"

text \<open>\<open>scriptnum_decode_width(stack.last().unwrap(), 5, rm)?\<close> after \<open>require_n(stack, 1)?\<close>.\<close>

definition top_locktime :: "stack \<Rightarrow> bool \<Rightarrow> int consensus" where
  "top_locktime stk rm =
    rbind (require_n stk 1) (\<lambda>_. map_err from_scriptnum_error (scriptnum_decode_width (stk ! 0) 5 rm))"

definition input_sequence :: "eval_context \<Rightarrow> u32 consensus" where
  "input_sequence ctx =
    (case get_at (tx_input (ec_tx ctx)) (ec_input_index ctx) of
       None \<Rightarrow> Inl (Panic ''input index'')
     | Some inp \<Rightarrow> Inr (ti_sequence inp))"

definition op_cltv :: "btc_lib \<Rightarrow> stack \<Rightarrow> eval_context \<Rightarrow> unit consensus" where
  "op_cltv L stk ctx =
    (if \<not> ec_bip65_active ctx then Inr ()
     else
       rbind (top_locktime stk (ec_minimal_data ctx)) (\<lambda>locktime.
       if locktime < 0 then Inl (Script ''CLTV negative'')
       else
         let tx_lock = uint (tx_lock_time (ec_tx ctx));
             lock_is_time = (500000000 \<le> locktime);
             tx_is_time = (500000000 \<le> tx_lock)
         in if lock_is_time \<noteq> tx_is_time then Inl (Script ''CLTV type'')
            else if tx_lock < locktime then Inl (Script ''CLTV'')
            else
              rbind (input_sequence ctx) (\<lambda>seq.
              if lib_sequence_is_final L seq then Inl (Script ''CLTV final sequence'') else Inr ())))"

definition op_csv :: "stack \<Rightarrow> eval_context \<Rightarrow> unit consensus" where
  "op_csv stk ctx =
    (if \<not> ec_bip112_active ctx then Inr ()
     else
       rbind (top_locktime stk (ec_minimal_data ctx)) (\<lambda>csv.
       if csv < 0 then Inl (Script ''CSV negative'')
       else if (word_of_int csv :: u32) AND push_bit 31 1 \<noteq> 0 then Inr ()
       else if tx_version (ec_tx ctx) < 2 then Inl (Script ''CSV version'')
       else
         rbind (input_sequence ctx) (\<lambda>seq.
         if \<not> sequence_csv_ok seq (word_of_int csv) then Inl (Script ''CSV'') else Inr ())))"

section \<open>The evaluation loop\<close>

text \<open>The opcode match of an executed opcode.\<close>

definition exec_op :: "btc_lib \<Rightarrow> eval_context \<Rightarrow> u8 \<Rightarrow> u32 \<Rightarrow> nat \<Rightarrow> eval_state \<Rightarrow> eval_state consensus" where
  "exec_op L ctx code this_pos byte_index st =
    (let stk = st_stack st;
         alt_len = length (st_altstack st);
         cells = st_cells st;
         rm = ec_minimal_data ctx;
         on_stack = (\<lambda>f. rbind (f stk) (\<lambda>stk. Inr (st\<lparr>st_stack := stk\<rparr>)));
         on_cells = (\<lambda>r. rbind r (\<lambda>(stk, cells). Inr (st\<lparr>st_stack := stk, st_cells := cells\<rparr>)));
         multisig = (\<lambda>verify name.
           case from_sig_version (ec_sig_version ctx) of
             None \<Rightarrow> Inl (Script (name @ '' disabled in tapscript''))
           | Some pre \<Rightarrow>
               rbind (op_checkmultisig L stk alt_len ctx cells verify (st_op_count st) pre) (\<lambda>(stk, op_count).
               Inr (st\<lparr>st_stack := stk, st_op_count := op_count\<rparr>)))
     in case stack_op L rm alt_len code of
          Some f \<Rightarrow> on_stack f
        | None \<Rightarrow>
     case arith_op rm alt_len code of
          Some f \<Rightarrow> on_stack f
        | None \<Rightarrow>
     case hash_op L alt_len code of
          Some f \<Rightarrow> on_stack f
        | None \<Rightarrow>
          if code = 0x6B then
            rbind (pop stk) (\<lambda>(v, stk). Inr (st\<lparr>st_stack := stk, st_altstack := v # st_altstack st\<rparr>))
          else if code = 0x6C then
            (case st_altstack st of
               [] \<Rightarrow> Inl (Script ''altstack empty'')
             | v # alt \<Rightarrow>
                 rbind (push stk (length alt) v) (\<lambda>stk. Inr (st\<lparr>st_stack := stk, st_altstack := alt\<rparr>)))
          else if code = 0xAB then
            Inr (st\<lparr>st_cells := cells\<lparr>cl_codeseparator_pos := this_pos,
                                    cl_codeseparator_script_off := Some (byte_index + 1)\<rparr>\<rparr>)
          else if code = 0xAC then on_cells (op_checksig L stk alt_len ctx cells False)
          else if code = 0xAD then on_cells (op_checksig L stk alt_len ctx cells True)
          else if code = 0xBA then
            (if ec_sig_version ctx \<noteq> TapScript then Inl (Script ''unknown opcode 0xba'')
             else on_cells (op_checksigadd L stk alt_len ctx cells))
          else if code = 0xAE then multisig False ''CHECKMULTISIG''
          else if code = 0xAF then multisig True ''CHECKMULTISIGVERIFY''
          else if code = 0xB1 then rbind (op_cltv L stk ctx) (\<lambda>_. Inr st)
          else if code = 0xB2 then rbind (op_csv stk ctx) (\<lambda>_. Inr st)
          else if code \<in> {0xB0, 0xB3, 0xB4, 0xB5, 0xB6, 0xB7, 0xB8, 0xB9} then Inr st
          else Inl (Script (''unknown opcode 0x'' @ hex2 code)))"

definition minimal_if_rule :: "eval_context \<Rightarrow> bool" where
  "minimal_if_rule ctx =
    (ec_sig_version ctx = TapScript \<or> ec_minimal_if ctx \<and> ec_sig_version ctx = WitnessV0)"

text \<open>\<open>OP_IF\<close> and, with \<open>neg\<close>, \<open>OP_NOTIF\<close>.\<close>

definition eval_if :: "btc_lib \<Rightarrow> eval_context \<Rightarrow> bool \<Rightarrow> bool \<Rightarrow> eval_state \<Rightarrow> eval_state consensus" where
  "eval_if L ctx executing neg st =
    (if executing then
       rbind (pop (st_stack st)) (\<lambda>(v, stk).
       if minimal_if_rule ctx \<and> \<not> is_minimal_if_arg v then Inl (Script ''MINIMALIF'')
       else Inr (st\<lparr>st_stack := stk, st_cond := cs_push (read_scriptbool L v \<noteq> neg) (st_cond st)\<rparr>))
     else Inr (st\<lparr>st_cond := cs_push False (st_cond st)\<rparr>))"

definition count_op :: "eval_context \<Rightarrow> u8 \<Rightarrow> eval_state \<Rightarrow> eval_state consensus" where
  "count_op ctx code st =
    (if ec_sig_version ctx \<noteq> TapScript \<and> code > 0x60 then
       let st = st\<lparr>st_op_count := st_op_count st + 1\<rparr>
       in if st_op_count st > MAX_OPS_LEGACY then Inl (Script ''op count'') else Inr st
     else Inr st)"

text \<open>The rules that hold in unexecuted branches too.\<close>

definition always_checks :: "eval_context \<Rightarrow> u8 \<Rightarrow> unit consensus" where
  "always_checks ctx code =
    (if code = OP_VERIF \<or> code = OP_VERNOTIF then Inl (Script ''OP_VERIF'')
     else if ec_sig_version ctx \<noteq> TapScript \<and> is_disabled_legacy code then
       Inl (Script (''disabled opcode 0x'' @ hex2 code))
     else if code = OP_CODESEPARATOR \<and> ec_const_scriptcode ctx \<and> ec_sig_version ctx = Base then
       Inl (Script ''OP_CODESEPARATOR'')
     else Inr ())"

definition eval_opcode :: "btc_lib \<Rightarrow> eval_context \<Rightarrow> u8 \<Rightarrow> bool \<Rightarrow> u32 \<Rightarrow> nat \<Rightarrow> eval_state \<Rightarrow> eval_state consensus" where
  "eval_opcode L ctx code executing this_pos byte_index st =
    rbind (count_op ctx code st) (\<lambda>st.
    if code = 0x63 then eval_if L ctx executing False st
    else if code = 0x64 then eval_if L ctx executing True st
    else if code = 0x67 then
      (if cs_is_empty (st_cond st) then Inl (Script ''OP_ELSE'')
       else Inr (st\<lparr>st_cond := cs_toggle_top (st_cond st)\<rparr>))
    else if code = 0x68 then
      (if cs_is_empty (st_cond st) then Inl (Script ''OP_ENDIF'')
       else Inr (st\<lparr>st_cond := cs_pop (st_cond st)\<rparr>))
    else
      rbind (always_checks ctx code) (\<lambda>_.
      if \<not> executing then Inr st else exec_op L ctx code this_pos byte_index st))"

definition eval_push :: "eval_context \<Rightarrow> bytes \<Rightarrow> bytes \<Rightarrow> bool \<Rightarrow> nat \<Rightarrow> eval_state \<Rightarrow> eval_state consensus" where
  "eval_push ctx script data executing byte_index st =
    rbind (script_elem_new data) (\<lambda>elem.
    if executing then
      let opcode = (case get_at script byte_index of Some b \<Rightarrow> b | None \<Rightarrow> 0)
      in if ec_minimal_data ctx \<and> \<not> check_minimal_push elem opcode then Inl (Script ''MINIMALDATA'')
         else
           rbind (push (st_stack st) (length (st_altstack st)) data) (\<lambda>stk.
           Inr (st\<lparr>st_stack := stk\<rparr>))
    else Inr st)"

definition eval_instr ::
  "btc_lib \<Rightarrow> eval_context \<Rightarrow> bytes \<Rightarrow> nat \<times> instruction \<Rightarrow> eval_state \<Rightarrow> eval_state consensus" where
  "eval_instr L ctx script item st =
    (let (byte_index, ins) = item;
         this_pos = st_opcode_pos st;
         executing = cs_all_true (st_cond st);
         st = st\<lparr>st_opcode_pos := sat_add (st_opcode_pos st) 1\<rparr>
     in case ins of
          PushBytes b \<Rightarrow> eval_push ctx script b executing byte_index st
        | Op code \<Rightarrow> eval_opcode L ctx code executing this_pos byte_index st)"

fun eval_items ::
  "btc_lib \<Rightarrow> eval_context \<Rightarrow> bytes \<Rightarrow> (unit + nat \<times> instruction) list \<Rightarrow> eval_state \<Rightarrow> eval_state consensus" where
  "eval_items L ctx script [] st = Inr st"
| "eval_items L ctx script (Inl _ # items) st = Inl (Script ''script parse'')"
| "eval_items L ctx script (Inr item # items) st =
    rbind (eval_instr L ctx script item st) (eval_items L ctx script items)"

definition init_state :: "stack \<Rightarrow> eval_cells \<Rightarrow> eval_state" where
  "init_state stk cells =
    \<lparr>st_stack = stk, st_altstack = [], st_cond = cs_default, st_op_count = 0, st_opcode_pos = 0, st_cells = cells\<rparr>"

text \<open>Returns the cleanstack flag with the final stack and cells, which the caller passes by reference.\<close>

definition eval_script :: "btc_lib \<Rightarrow> bytes \<Rightarrow> stack \<Rightarrow> eval_context \<Rightarrow> eval_cells \<Rightarrow> (bool \<times> stack \<times> eval_cells) consensus" where
  "eval_script L script stk ctx cells =
    (let tap = (ec_sig_version ctx = TapScript) in
     if tap \<and> tapscript_has_op_success script then Inr (False, stk, cells)
     else if tap \<and> length stk > MAX_STACK_SIZE then Inl (Script ''stack size'')
     else if tap \<and> list_ex (\<lambda>item. length item > MAX_SCRIPT_ELEMENT_SIZE) stk then Inl (Script ''PUSH_SIZE'')
     else if \<not> tap \<and> length script > MAX_SCRIPT_SIZE_LEGACY then Inl (Script ''script too large'')
     else
       rbind (eval_items L ctx script (lib_instruction_indices L script) (init_state stk cells)) (\<lambda>st.
       if \<not> cs_is_empty (st_cond st) then Inl (Script ''unbalanced IF'')
       else Inr (True, st_stack st, st_cells st)))"

definition require_clean_true :: "btc_lib \<Rightarrow> stack \<Rightarrow> unit consensus" where
  "require_clean_true L stk =
    (if length stk \<noteq> 1 then Inl (Script ''cleanstack'')
     else if \<not> read_scriptbool L (stk ! 0) then Inl (Script ''script false'')
     else Inr ())"

definition require_true_top :: "btc_lib \<Rightarrow> stack \<Rightarrow> unit consensus" where
  "require_true_top L stk =
    (if stk = [] \<or> \<not> read_scriptbool L (hd stk) then Inl (Script ''script false'') else Inr ())"

end
