(* ===== verification/InterpProps.thy ===== *)
theory InterpProps
  imports Interp "HOL-Library.Multiset" "HOL-Library.Sublist"
begin

text \<open>
  Properties of the interpreter. The locale \<open>script_run\<close> is the shape of the loop of \<open>eval_script\<close>: a
  step per item, the first error ends the run. Its lemmas carry a step fact (an invariant, a rejected
  item, a counter, absence of panics) to whole runs, and it is interpreted on \<open>eval_instr\<close> and
  \<open>eval_items\<close>. The collection \<open>bounds_intros\<close> holds the per-opcode facts.
\<close>

named_theorems bounds_intros \<open>operations that keep the stack limits\<close>

section \<open>Runs\<close>

locale script_run =
  fixes step :: "nat \<times> instruction \<Rightarrow> 's \<Rightarrow> 's consensus"
    and run :: "(unit + nat \<times> instruction) list \<Rightarrow> 's \<Rightarrow> 's consensus"
  assumes run_Nil: "run [] s = Inr s"
    and run_bad: "\<exists>m. run (Inl u # items) s = Inl (Script m)"
    and run_Cons: "run (Inr i # items) s = rbind (step i s) (run items)"
begin

lemma run_Cons_ok:
  "run (x # items) s = Inr s' \<longleftrightarrow> (\<exists>i s1. x = Inr i \<and> step i s = Inr s1 \<and> run items s1 = Inr s')"
proof (cases x)
  case (Inl u)
  then show ?thesis using run_bad [of u items s] by auto
next
  case (Inr i)
  then show ?thesis by (simp add: run_Cons rbind_eq_Inr)
qed

lemma run_invariant:
  assumes "\<And>i s s'. I s \<Longrightarrow> step i s = Inr s' \<Longrightarrow> I s'"
  shows "run items s = Inr s' \<Longrightarrow> I s \<Longrightarrow> I s'"
  by (induction items arbitrary: s) (auto simp: run_Nil run_Cons_ok dest: assms)

lemma run_parsed: "run items s = Inr s' \<Longrightarrow> \<exists>is. items = map Inr is"
proof (induction items arbitrary: s)
  case (Cons x items)
  from Cons.prems obtain i s1 where x: "x = Inr i" "run items s1 = Inr s'" unfolding run_Cons_ok by blast
  from Cons.IH [OF x(2)] obtain "is" where "items = map Inr is" by blast
  then show ?case using x by (intro exI [of _ "i # is"]) simp
qed simp

lemma run_rejects:
  assumes "\<And>s s'. step i s \<noteq> Inr s'"
  shows "Inr i \<in> set items \<Longrightarrow> run items s \<noteq> Inr s'"
proof (induction items arbitrary: s)
  case (Cons x items)
  then show ?case unfolding run_Cons_ok using assms by fastforce
qed simp

lemma run_counter:
  fixes w :: "nat \<times> instruction \<Rightarrow> nat"
  assumes "\<And>i s s'. step i s = Inr s' \<Longrightarrow> \<mu> s + w i \<le> \<mu> s'"
  shows "run (map Inr is) s = Inr s' \<Longrightarrow> \<mu> s + sum_list (map w is) \<le> \<mu> s'"
proof (induction "is" arbitrary: s)
  case (Cons i "is")
  then obtain s1 where "step i s = Inr s1" "run (map Inr is) s1 = Inr s'" by (auto simp: run_Cons_ok)
  then show ?case using Cons.IH [of s1] assms [of i s s1] by simp
qed (simp add: run_Nil)

lemma run_traced:
  assumes "\<And>i s s' a. R s a \<Longrightarrow> step i s = Inr s' \<Longrightarrow> \<exists>ops. K i ops \<and> (\<exists>a'. run_steps g ops a = Some a' \<and> R s' a')"
    and "\<And>xs ys a. run_steps g (xs @ ys) a = (case run_steps g xs a of None \<Rightarrow> None | Some b \<Rightarrow> run_steps g ys b)"
  shows "run (map Inr is) s = Inr s' \<Longrightarrow> R s a \<Longrightarrow>
    \<exists>opss a'. list_all2 K is opss \<and> run_steps g (concat opss) a = Some a' \<and> R s' a'"
proof (induction "is" arbitrary: s a)
  case Nil
  then show ?case by (auto simp: run_Nil intro!: exI [of _ "[]"])
next
  case (Cons i "is")
  then obtain s1 where s1: "step i s = Inr s1" "run (map Inr is) s1 = Inr s'" by (auto simp: run_Cons_ok)
  from assms(1) [OF Cons.prems(2) s1(1)] obtain ops b where ops: "K i ops" "run_steps g ops a = Some b" "R s1 b" by blast
  from Cons.IH [OF s1(2) ops(3)] obtain opss a' where
    "list_all2 K is opss" "run_steps g (concat opss) b = Some a'" "R s' a'" by blast
  then show ?case using ops by (intro exI [of _ "ops # opss"] exI [of _ a']) (simp add: assms(2))
qed

lemma run_no_panic:
  assumes "\<And>i s s'. P s \<Longrightarrow> Inr i \<in> set items0 \<Longrightarrow> step i s = Inr s' \<Longrightarrow> P s'"
    and "\<And>i s m. P s \<Longrightarrow> Inr i \<in> set items0 \<Longrightarrow> step i s \<noteq> Inl (Panic m)"
  shows "set items \<subseteq> set items0 \<Longrightarrow> P s \<Longrightarrow> run items s \<noteq> Inl (Panic m)"
proof (induction items arbitrary: s)
  case (Cons x items)
  show ?case
  proof (cases x)
    case (Inl u)
    then show ?thesis using run_bad [of u items s] by auto
  next
    case (Inr i)
    then show ?thesis using Cons assms [of s i] by (auto simp: run_Cons rbind_eq_Inl)
  qed
qed (simp add: run_Nil)

end

interpretation run: script_run "eval_instr L ctx script" "eval_items L ctx script" for L ctx script
  by unfold_locales auto

section \<open>Stack limits\<close>

lemma push_eq_Inr [result_simps]:
  "push stk alt_len v = Inr s \<longleftrightarrow> s = v # stk \<and> length stk + alt_len + 1 \<le> 1000"
  by (auto simp: push_def MAX_STACK_SIZE_def)

lemma pop_eq_Inr [result_simps]: "pop stk = Inr p \<longleftrightarrow> stk = fst p # snd p"
  by (auto simp: pop_def split: list.splits)

lemma require_n_eq_Inr [result_simps]: "require_n stk n = Inr u \<longleftrightarrow> n \<le> length stk"
  by (auto simp: require_n_def)

lemma pop_num_eq_Inr [result_simps]:
  "pop_num stk rm = Inr p \<longleftrightarrow> (\<exists>v. stk = v # snd p \<and> decode_i64 v rm = Inr (fst p))"
  by (cases p) (auto simp: pop_num_def result_simps)

lemma script_elem_new_eq_Inr [result_simps]: "script_elem_new d = Inr e \<longleftrightarrow> e = d \<and> length d \<le> 520"
  by (auto simp: script_elem_new_def MAX_SCRIPT_ELEMENT_SIZE_def)

lemma decode_i64_bound: "decode_i64 v rm = Inr n \<Longrightarrow> \<bar>n\<bar> < 2 ^ 31"
  using scriptnum_value_bound [of v 3]
  by (auto simp: decode_i64_def scriptnum_decode_def scriptnum_decode_width_eq map_err_def split: if_splits sum.splits)

lemma encode_short: "\<bar>n\<bar> < 2 ^ 39 \<Longrightarrow> length (scriptnum_encode n) \<le> 520"
  using scriptnum_encode_length [of n 4] by simp

definition elems :: "stack \<Rightarrow> bool" where
  "elems stk \<longleftrightarrow> (\<forall>e\<in>set stk. length e \<le> 520)"

definition bounded :: "nat \<Rightarrow> (stack \<Rightarrow> stack consensus) \<Rightarrow> bool" where
  "bounded alt_len f \<longleftrightarrow> (\<forall>stk stk'. f stk = Inr stk' \<and> elems stk \<longrightarrow>
     elems stk' \<and> length stk' + alt_len \<le> max 1000 (length stk + alt_len))"

lemma elems_simps [simp]:
  "elems []"
  "elems (v # stk) \<longleftrightarrow> length v \<le> 520 \<and> elems stk"
  by (auto simp: elems_def)

lemma elems_nth: "elems stk \<Longrightarrow> i < length stk \<Longrightarrow> length (stk ! i) \<le> 520"
  by (simp add: elems_def)

lemma elems_take: "elems stk \<Longrightarrow> elems (take n stk @ drop m stk)"
  by (auto simp: elems_def dest: in_set_takeD in_set_dropD)

lemma elems_update: "elems stk \<Longrightarrow> length v \<le> 520 \<Longrightarrow> elems (stk[i := v])"
  using set_update_subset_insert [of stk i v] by (auto simp: elems_def)

lemma swap_at_bounds:
  "elems stk \<Longrightarrow> i < length stk \<Longrightarrow> j < length stk \<Longrightarrow> elems (swap_at stk i j)"
  "length (swap_at stk i j) = length stk"
  "swap_at stk i j = [] \<longleftrightarrow> stk = []"
  by (auto simp: swap_at_def intro!: elems_update elems_nth)

lemma bool_encode_length [simp]: "length (bool_encode b) \<le> 520"
  by (simp add: bool_encode_def)

lemmas op_results = bounded_def result_simps push_eq_Inr

lemma stack_ops_bounded [bounds_intros]:
  "bounded alt_len Inr"
  "length v \<le> 520 \<Longrightarrow> bounded alt_len (\<lambda>stk. push stk alt_len v)"
  "bounded alt_len (op_verify L)"
  "bounded alt_len op_2drop"
  "bounded alt_len (op_2dup alt_len)"
  "bounded alt_len (op_3dup alt_len)"
  "bounded alt_len (op_2over alt_len)"
  "bounded alt_len (op_ifdup L alt_len)"
  "bounded alt_len op_drop"
  "bounded alt_len (op_dup alt_len)"
  "bounded alt_len (op_nip alt_len)"
  "bounded alt_len (op_over alt_len)"
  "bounded alt_len (op_equal alt_len)"
  "bounded alt_len op_equalverify"
  by (auto simp: op_results op_verify_def op_2drop_def op_2dup_def op_3dup_def op_2over_def op_ifdup_def
      op_drop_def op_dup_def op_nip_def op_over_def op_equal_def op_equalverify_def Let_def
      split: if_splits intro!: elems_nth)

lemma swap_ops_bounded [bounds_intros]:
  "bounded alt_len op_2swap"
  "bounded alt_len op_rot"
  "bounded alt_len op_swap"
  "bounded alt_len (op_tuck alt_len)"
  by (auto simp: op_results op_2swap_def op_rot_def op_swap_def op_tuck_def swap_at_bounds(2,3)
      intro!: swap_at_bounds(1) elems_nth)

lemma op_2rot_bounded [bounds_intros]: "bounded alt_len op_2rot"
  by (auto simp: op_results op_2rot_def Let_def intro!: elems_update elems_nth)

lemma op_depth_bounded [bounds_intros]: "bounded alt_len (op_depth alt_len)"
  by (auto simp: op_results op_depth_def intro!: encode_short)

lemma op_size_bounded [bounds_intros]: "bounded alt_len (op_size alt_len)"
proof -
  have "length (scriptnum_encode (int (length (stk ! 0)))) \<le> 520" if "elems stk" "Suc 0 \<le> length stk" for stk
    using elems_nth [of stk 0] that by (intro encode_short) (cases stk, auto)
  then show ?thesis by (auto simp: op_results op_size_def)
qed

lemma pick_roll_bounded [bounds_intros]:
  "bounded alt_len (op_pick alt_len rm)"
  "bounded alt_len (op_roll alt_len rm)"
  by (auto simp: op_results op_pick_def op_roll_def elems_nth elems_take split: if_splits)

lemma stack_op_bounded: "stack_op L rm alt_len code = Some f \<Longrightarrow> bounded alt_len f"
  by (auto simp: stack_op_def split: if_splits intro!: bounds_intros)

lemma numeric_ops_bounded [bounds_intros]:
  "(\<And>v. \<bar>v\<bar> < 2 ^ 31 \<Longrightarrow> length (f v) \<le> 520) \<Longrightarrow> bounded alt_len (\<lambda>stk. unary_num stk alt_len rm f)"
  "(\<And>a b. \<bar>a\<bar> < 2 ^ 31 \<Longrightarrow> \<bar>b\<bar> < 2 ^ 31 \<Longrightarrow> \<bar>g a b\<bar> < 2 ^ 39) \<Longrightarrow> bounded alt_len (\<lambda>stk. bin_arith stk alt_len rm g)"
  "bounded alt_len (\<lambda>stk. bin_cmp stk alt_len rm h)"
  "bounded alt_len (op_numequalverify rm)"
  "bounded alt_len (op_within alt_len rm)"
  by (auto simp: op_results unary_num_def bin_arith_def bin_cmp_def op_numequalverify_def op_within_def
      dest!: decode_i64_bound intro!: encode_short split: if_splits)

lemma arith_op_bounded: "arith_op rm alt_len code = Some f \<Longrightarrow> bounded alt_len f"
  by (auto simp: arith_op_def i64_saturate_def split: if_splits intro!: bounds_intros encode_short)

lemma hash_op_bounded:
  assumes "digest_lengths L" "hash_op L alt_len code = Some f"
  shows "bounded alt_len f"
proof -
  have "bounded alt_len (push_digest h alt_len)" if "\<And>v. length (h v) \<le> 520" for h
    using that by (auto simp: op_results push_digest_def)
  then show ?thesis using assms by (auto simp: hash_op_def digest_lengths_def split: if_splits)
qed

section \<open>The state invariant\<close>

text \<open>
  \<open>M\<close> is the larger of 1000 and the size of the initial stack (a witness v0 stack can start above the
  limit).
\<close>

definition state_ok :: "eval_context \<Rightarrow> nat \<Rightarrow> eval_state \<Rightarrow> bool" where
  "state_ok ctx M st \<longleftrightarrow>
    length (st_stack st) + length (st_altstack st) \<le> M \<and> elems (st_stack st) \<and> elems (st_altstack st)
    \<and> (ec_sig_version ctx \<noteq> TapScript \<longrightarrow> st_op_count st \<le> 201)"

lemma pop_n_eq_Inr [result_simps]:
  "pop_n n stk = Inr p \<longleftrightarrow> stk = fst p @ snd p \<and> length (fst p) = n"
proof (induction n arbitrary: stk p)
  case 0
  show ?case by (cases p) auto
next
  case (Suc n)
  show ?case
  proof (cases p)
    case (Pair vs rest)
    then show ?thesis using Suc by (cases vs) (force simp: result_simps)+
  qed
qed

lemma op_checkmultisig_bounds:
  assumes "op_checkmultisig L stk alt_len ctx cells verify op_count ver = Inr (stk', op_count')"
  shows "(elems stk \<longrightarrow> elems stk') \<and> length stk' + alt_len \<le> max 1000 (length stk + alt_len) \<and> op_count \<le> op_count' \<and> op_count' \<le> 201"
proof -
  obtain n keys m sigs d rest where stk: "stk = n # keys @ m # sigs @ d # rest"
    and res: "stk' = rest \<or> (\<exists>b. push rest alt_len (bool_encode b) = Inr stk')"
    and ops: "op_count \<le> op_count'" "op_count' \<le> 201"
    using assms
    by (fastforce simp: op_checkmultisig_def result_simps Let_def MAX_OPS_LEGACY_def split: if_splits)
  have "elems stk \<Longrightarrow> elems rest" by (auto simp: stk elems_def)
  then show ?thesis using res ops by (auto simp: stk result_simps)
qed

text \<open>What an executed opcode can have done.\<close>

lemma exec_op_cases:
  assumes "exec_op L ctx code this_pos byte_index st = Inr st'"
  obtains
    (on_stack) f stk' where
      "stack_op L (ec_minimal_data ctx) (length (st_altstack st)) code = Some f
       \<or> arith_op (ec_minimal_data ctx) (length (st_altstack st)) code = Some f
       \<or> hash_op L (length (st_altstack st)) code = Some f"
      "f (st_stack st) = Inr stk'" "st' = st\<lparr>st_stack := stk'\<rparr>"
  | (to_alt) v stk' where "st_stack st = v # stk'" "st' = st\<lparr>st_stack := stk', st_altstack := v # st_altstack st\<rparr>"
  | (from_alt) v alt stk' where "st_altstack st = v # alt" "push (st_stack st) (length alt) v = Inr stk'"
      "st' = st\<lparr>st_stack := stk', st_altstack := alt\<rparr>"
  | (codesep) "code = 0xAB"
      "st' = st\<lparr>st_cells := (st_cells st)\<lparr>cl_codeseparator_pos := this_pos,
                                    cl_codeseparator_script_off := Some (byte_index + 1)\<rparr>\<rparr>"
  | (checksig) verify stk' cells where
      "op_checksig L (st_stack st) (length (st_altstack st)) ctx (st_cells st) verify = Inr (stk', cells)"
      "st' = st\<lparr>st_stack := stk', st_cells := cells\<rparr>"
  | (checksigadd) stk' cells where "ec_sig_version ctx = TapScript"
      "op_checksigadd L (st_stack st) (length (st_altstack st)) ctx (st_cells st) = Inr (stk', cells)"
      "st' = st\<lparr>st_stack := stk', st_cells := cells\<rparr>"
  | (multisig) verify stk' op_count pre where "from_sig_version (ec_sig_version ctx) = Some pre"
      "op_checkmultisig L (st_stack st) (length (st_altstack st)) ctx (st_cells st) verify (st_op_count st) pre
        = Inr (stk', op_count)"
      "st' = st\<lparr>st_stack := stk', st_op_count := op_count\<rparr>"
  | (unchanged) "st' = st"
proof -
  consider f where "stack_op L (ec_minimal_data ctx) (length (st_altstack st)) code = Some f"
    | f where "stack_op L (ec_minimal_data ctx) (length (st_altstack st)) code = None"
        "arith_op (ec_minimal_data ctx) (length (st_altstack st)) code = Some f"
    | f where "stack_op L (ec_minimal_data ctx) (length (st_altstack st)) code = None"
        "arith_op (ec_minimal_data ctx) (length (st_altstack st)) code = None"
        "hash_op L (length (st_altstack st)) code = Some f"
    | "stack_op L (ec_minimal_data ctx) (length (st_altstack st)) code = None"
        "arith_op (ec_minimal_data ctx) (length (st_altstack st)) code = None"
        "hash_op L (length (st_altstack st)) code = None"
    by (metis not_Some_eq)
  then show thesis
  proof cases
    case 4
    then show thesis
      using assms
      by (auto simp: exec_op_def result_simps Let_def split: if_splits list.splits option.splits
          intro: to_alt from_alt codesep checksig checksigadd multisig unchanged)
  qed (use assms on_stack in \<open>auto simp: exec_op_def result_simps\<close>)
qed

text \<open>The tapscript signature budget: 50 for each non-empty signature, never below zero.\<close>

definition weight_step :: "eval_cells \<Rightarrow> eval_cells \<Rightarrow> bool" where
  "weight_step c c' \<longleftrightarrow>
    cl_codeseparator_pos c' = cl_codeseparator_pos c
    \<and> cl_codeseparator_script_off c' = cl_codeseparator_script_off c
    \<and> (cl_validation_weight_left c' = cl_validation_weight_left c
       \<or> 0 \<le> cl_validation_weight_left c' \<and> cl_validation_weight_left c' = cl_validation_weight_left c - 50)"

lemma tapscript_sig_result_weight:
  "tapscript_sig_result L sig pubkey ctx cells = Inr (res, cells') \<Longrightarrow> weight_step cells cells'"
  by (auto simp: tapscript_sig_result_def weight_step_def result_simps Let_def
      TAPSCRIPT_VALIDATION_WEIGHT_PER_SIGOP_def split: if_splits)

lemma op_checksig_bounds:
  assumes "op_checksig L stk alt_len ctx cells verify = Inr (stk', cells')"
  shows "(elems stk \<longrightarrow> elems stk') \<and> length stk' + alt_len \<le> max 1000 (length stk + alt_len) \<and> weight_step cells cells'
    \<and> (ec_sig_version ctx \<noteq> TapScript \<longrightarrow> cells' = cells)"
proof (cases "ec_sig_version ctx = TapScript")
  case True
  then show ?thesis
    using assms
    by (auto simp: op_checksig_def op_checksig_tapscript_def result_simps
        split: if_splits tap_sig_result.splits dest: tapscript_sig_result_weight)
next
  case False
  then obtain pre where "from_sig_version (ec_sig_version ctx) = Some pre" by (cases "ec_sig_version ctx") auto
  then show ?thesis
    using assms False by (auto simp: op_checksig_def result_simps weight_step_def split: if_splits)
qed

lemma op_checksigadd_bounds:
  assumes "op_checksigadd L stk alt_len ctx cells = Inr (stk', cells')"
  shows "(elems stk \<longrightarrow> elems stk') \<and> length stk' + alt_len \<le> max 1000 (length stk + alt_len) \<and> weight_step cells cells'"
proof -
  obtain pk n_raw sig rest n res where stk: "stk = pk # n_raw # sig # rest"
    and n: "decode_i64 n_raw (ec_minimal_data ctx) = Inr n"
    and res: "tapscript_sig_result L sig pk ctx cells = Inr (res, cells')"
    and stk': "stk' = scriptnum_encode (case res of EmptySig \<Rightarrow> n | ValidSig \<Rightarrow> i64_saturate (n + 1)) # rest"
      "length rest + alt_len + 1 \<le> 1000"
    using assms by (auto simp: op_checksigadd_def result_simps)
  have "length (scriptnum_encode n) \<le> 520" "length (scriptnum_encode (i64_saturate (n + 1))) \<le> 520"
    using decode_i64_bound [OF n] by (auto intro!: encode_short simp: i64_saturate_def)
  then show ?thesis
    using stk stk' tapscript_sig_result_weight [OF res] by (auto split: tap_sig_result.splits)
qed

lemma exec_op_ok:
  assumes step: "exec_op L ctx code this_pos byte_index st = Inr st'"
    and ok: "state_ok ctx M st" and M: "1000 \<le> M" and L: "digest_lengths L"
  shows "state_ok ctx M st'"
  using step
proof (cases rule: exec_op_cases)
  case (on_stack f stk')
  then have "bounded (length (st_altstack st)) f"
    using stack_op_bounded arith_op_bounded hash_op_bounded [OF L] by blast
  then have "elems stk' \<and> length stk' + length (st_altstack st) \<le> max 1000 (length (st_stack st) + length (st_altstack st))"
    using on_stack(2) ok unfolding bounded_def state_ok_def by blast
  then show ?thesis using on_stack(3) ok M by (auto simp: state_ok_def)
next
  case (checksig verify stk' cells)
  then show ?thesis using op_checksig_bounds [OF checksig(1)] ok M by (auto simp: state_ok_def)
next
  case (checksigadd stk' cells)
  then show ?thesis using op_checksigadd_bounds [OF checksigadd(2)] ok M by (auto simp: state_ok_def)
next
  case (multisig verify stk' op_count pre)
  then show ?thesis using op_checkmultisig_bounds [OF multisig(2)] ok M by (auto simp: state_ok_def)
qed (use ok M in \<open>auto simp: state_ok_def result_simps\<close>)

text \<open>What one item can have done.\<close>

lemma count_op_eq_Inr [result_simps]:
  "count_op ctx code st = Inr st' \<longleftrightarrow>
    (if ec_sig_version ctx \<noteq> TapScript \<and> code > 0x60
     then st' = st\<lparr>st_op_count := st_op_count st + 1\<rparr> \<and> st_op_count st < 201 else st' = st)"
  by (auto simp: count_op_def Let_def MAX_OPS_LEGACY_def)

lemma eval_instr_cases:
  assumes "eval_instr L ctx script (byte_index, ins) st = Inr st'"
  defines "st1 \<equiv> st\<lparr>st_opcode_pos := sat_add (st_opcode_pos st) 1\<rparr>"
  obtains
    (skip_push) b where "ins = PushBytes b" "\<not> cs_all_true (st_cond st)" "length b \<le> 520" "st' = st1"
  | (push) b stk' where "ins = PushBytes b" "cs_all_true (st_cond st)" "length b \<le> 520"
      "push (st_stack st) (length (st_altstack st)) b = Inr stk'" "st' = st1\<lparr>st_stack := stk'\<rparr>"
  | (control) code st2 op where "ins = Op code" "count_op ctx code st1 = Inr st2"
      "code = 0x63 \<or> code = 0x64 \<Longrightarrow> \<exists>v. op = CPush v" "code = 0x67 \<Longrightarrow> op = CElse" "code = 0x68 \<Longrightarrow> op = CEndif"
      "code \<in> {0x63, 0x64, 0x67, 0x68}" "cond_step op (st_cond st) = Some (st_cond st')"
      "st_altstack st' = st_altstack st" "st_cells st' = st_cells st" "st_op_count st' = st_op_count st2"
      "st_stack st' = st_stack st \<or> cs_all_true (st_cond st) \<and> (\<exists>v. st_stack st = v # st_stack st')"
  | (skip) code where "ins = Op code" "count_op ctx code st1 = Inr st'" "code \<notin> {0x63, 0x64, 0x67, 0x68}"
      "always_checks ctx code = Inr ()" "\<not> cs_all_true (st_cond st)"
  | (exec) code st2 where "ins = Op code" "count_op ctx code st1 = Inr st2" "code \<notin> {0x63, 0x64, 0x67, 0x68}"
      "always_checks ctx code = Inr ()" "cs_all_true (st_cond st)"
      "exec_op L ctx code (st_opcode_pos st) byte_index st2 = Inr st'"
proof (cases ins)
  case (PushBytes b)
  then show thesis
    using assms skip_push push by (auto simp: eval_instr_def eval_push_def result_simps Let_def split: if_splits)
next
  case (Op code)
  then obtain st2 where cnt: "count_op ctx code st1 = Inr st2"
    and ev: "eval_opcode L ctx code (cs_all_true (st_cond st)) (st_opcode_pos st) byte_index st1 = Inr st'"
    using assms by (auto simp: eval_instr_def eval_opcode_def result_simps Let_def)
  have same: "st_cond st2 = st_cond st" "st_stack st2 = st_stack st" "st_altstack st2 = st_altstack st"
      "st_cells st2 = st_cells st"
    using cnt by (auto simp: result_simps st1_def split: if_splits)
  consider "code = 0x63 \<or> code = 0x64" | "code = 0x67" | "code = 0x68" | "code \<notin> {0x63, 0x64, 0x67, 0x68}" by auto
  then show thesis
  proof cases
    case 1
    then obtain neg where "eval_if L ctx (cs_all_true (st_cond st)) neg st2 = Inr st'"
      using ev cnt by (auto simp: eval_opcode_def)
    then show thesis
      using 1 same by (intro control [OF Op cnt, of "CPush (cs_all_true (st_cond st) \<and> (read_scriptbool L (hd (st_stack st)) \<noteq> neg))"])
        (auto simp: eval_if_def result_simps split: if_splits)
  next
    case 2
    then show thesis using ev cnt same by (intro control [OF Op cnt, of CElse]) (auto simp: eval_opcode_def split: if_splits)
  next
    case 3
    then show thesis using ev cnt same by (intro control [OF Op cnt, of CEndif]) (auto simp: eval_opcode_def split: if_splits)
  next
    case 4
    then show thesis
      using ev cnt skip [OF Op _ 4] exec [OF Op cnt 4] by (auto simp: eval_opcode_def result_simps split: if_splits)
  qed
qed

lemma eval_instr_ok:
  assumes step: "eval_instr L ctx script item st = Inr st'"
    and ok: "state_ok ctx M st" and M: "1000 \<le> M" and L: "digest_lengths L"
  shows "state_ok ctx M st'"
proof -
  obtain byte_index ins where item: "item = (byte_index, ins)" by force
  have count: "state_ok ctx M st2"
    if "count_op ctx code (st\<lparr>st_opcode_pos := sat_add (st_opcode_pos st) 1\<rparr>) = Inr st2" for code st2
    using that ok by (auto simp: result_simps state_ok_def split: if_splits)
  from step [unfolded item] show ?thesis
  proof (cases rule: eval_instr_cases)
    case (control code st2 op)
    then show ?thesis using count [OF control(2)] ok by (auto simp: state_ok_def)
  next
    case (exec code st2)
    then show ?thesis using exec_op_ok [OF exec(6) count [OF exec(2)] M L] by simp
  qed (use count ok M in \<open>auto simp: state_ok_def result_simps\<close>)
qed

section \<open>Cells\<close>

lemma exec_op_cells:
  assumes "exec_op L ctx code this_pos byte_index st = Inr st'"
  shows "(code = 0xAB \<and> st_cells st' = (st_cells st)\<lparr>cl_codeseparator_pos := this_pos,
            cl_codeseparator_script_off := Some (byte_index + 1)\<rparr>
          \<or> weight_step (st_cells st) (st_cells st'))
    \<and> (ec_sig_version ctx \<noteq> TapScript \<longrightarrow> cl_validation_weight_left (st_cells st') = cl_validation_weight_left (st_cells st))"
  using assms
proof (cases rule: exec_op_cases)
  case (checksig verify stk' cells)
  then show ?thesis using op_checksig_bounds [OF checksig(1)] by auto
next
  case (checksigadd stk' cells)
  then show ?thesis using op_checksigadd_bounds [OF checksigadd(2)] by auto
qed (auto simp: weight_step_def)

definition weight_spent :: "eval_context \<Rightarrow> int \<Rightarrow> int \<Rightarrow> bool" where
  "weight_spent ctx w w' \<longleftrightarrow> 0 \<le> w' \<and> w' \<le> w \<and> 50 dvd (w - w') \<and> (ec_sig_version ctx \<noteq> TapScript \<longrightarrow> w' = w)"

lemma weight_spent_step:
  "v' = v \<or> ec_sig_version ctx = TapScript \<and> 0 \<le> v' \<and> v' = v - 50 \<Longrightarrow> weight_spent ctx w v \<Longrightarrow> weight_spent ctx w v'"
  by (auto simp: weight_spent_def algebra_simps dest: dvd_add [of 50 _ 50])

lemma eval_instr_weight:
  assumes "eval_instr L ctx script item st = Inr st'"
  shows "cl_validation_weight_left (st_cells st') = cl_validation_weight_left (st_cells st)
    \<or> ec_sig_version ctx = TapScript \<and> 0 \<le> cl_validation_weight_left (st_cells st')
      \<and> cl_validation_weight_left (st_cells st') = cl_validation_weight_left (st_cells st) - 50"
proof -
  obtain byte_index ins where item: "item = (byte_index, ins)" by force
  from assms [unfolded item] show ?thesis
  proof (cases rule: eval_instr_cases)
    case (exec code st2)
    have "st_cells st2 = st_cells st" using exec(2) by (auto simp: result_simps split: if_splits)
    then show ?thesis using exec_op_cells [OF exec(6)] by (auto simp: weight_step_def)
  qed (auto simp: result_simps split: if_splits)
qed

lemma eval_instr_cond:
  assumes "eval_instr L ctx script (byte_index, ins) st = Inr st'"
  shows "ins \<in> Op ` {0x63, 0x64, 0x67, 0x68} \<or> st_cond st' = st_cond st"
  using assms
proof (cases rule: eval_instr_cases)
  case (exec code st2)
  have "st_cond st' = st_cond st2" using exec(6) by (cases rule: exec_op_cases) auto
  then show ?thesis using exec(2) by (auto simp: result_simps split: if_splits)
qed (auto simp: result_simps split: if_splits)

text \<open>The nesting steps one instruction makes.\<close>

definition control_ops :: "nat \<times> instruction \<Rightarrow> cond_op list \<Rightarrow> bool" where
  "control_ops item ops \<longleftrightarrow>
    (case snd item of
       Op code \<Rightarrow>
         if code = 0x63 \<or> code = 0x64 then \<exists>v. ops = [CPush v]
         else if code = 0x67 then ops = [CElse]
         else if code = 0x68 then ops = [CEndif]
         else ops = []
     | PushBytes _ \<Rightarrow> ops = [])"

lemma run_steps_append:
  "run_steps g (xs @ ys) a = (case run_steps g xs a of None \<Rightarrow> None | Some b \<Rightarrow> run_steps g ys b)"
  by (induction xs arbitrary: a) (auto split: option.splits)

lemma eval_instr_traced:
  assumes "cs_rel (st_cond st) bs" "eval_instr L ctx script item st = Inr st'"
  shows "\<exists>ops. control_ops item ops \<and> (\<exists>bs'. run_steps naive_step ops bs = Some bs' \<and> cs_rel (st_cond st') bs')"
proof -
  obtain byte_index ins where item: "item = (byte_index, ins)" by force
  show ?thesis
  proof (cases "ins \<in> Op ` {0x63, 0x64, 0x67, 0x68}")
    case False
    then have "st_cond st' = st_cond st" using eval_instr_cond assms(2) unfolding item by blast
    then show ?thesis using assms(1) False
      by (intro exI [of _ "[]"]) (auto simp: item control_ops_def split: instruction.splits)
  next
    case True
    from assms(2) [unfolded item] obtain code st2 op where op: "ins = Op code"
      "code = 0x63 \<or> code = 0x64 \<Longrightarrow> \<exists>v. op = CPush v" "code = 0x67 \<Longrightarrow> op = CElse" "code = 0x68 \<Longrightarrow> op = CEndif"
      "code \<in> {0x63, 0x64, 0x67, 0x68}" "cond_step op (st_cond st) = Some (st_cond st')"
      by (cases rule: eval_instr_cases) (use True in auto)
    have "rel_option cs_rel (cond_step op (st_cond st)) (naive_step op bs)"
      by (rule cond.step_sim [OF assms(1)])
    then obtain bs' where "naive_step op bs = Some bs'" "cs_rel (st_cond st') bs'"
      using op(6) by (cases "naive_step op bs") auto
    then show ?thesis using op
      by (intro exI [of _ "[op]"] conjI exI [of _ bs']) (auto simp: item control_ops_def)
  qed
qed

lemma eval_script_run:
  assumes "eval_script L script stk ctx cells = Inr (b, stk', cells')"
  obtains (op_success) "ec_sig_version ctx = TapScript" "tapscript_has_op_success script" "\<not> b" "stk' = stk" "cells' = cells"
  | (run) "is" st where "b" "lib_instruction_indices L script = map Inr is"
      "eval_items L ctx script (map Inr is) (init_state stk cells) = Inr st"
      "cs_is_empty (st_cond st)" "stk' = st_stack st" "cells' = st_cells st"
      "ec_sig_version ctx \<noteq> TapScript \<Longrightarrow> length script \<le> 10000"
      "ec_sig_version ctx = TapScript \<Longrightarrow> \<not> tapscript_has_op_success script \<and> length stk \<le> 1000 \<and> elems stk"
proof (cases "ec_sig_version ctx = TapScript \<and> tapscript_has_op_success script")
  case True
  then show thesis using assms op_success by (simp add: eval_script_def)
next
  case False
  then obtain st where st: "eval_items L ctx script (lib_instruction_indices L script) (init_state stk cells) = Inr st"
    and rest: "cs_is_empty (st_cond st)" "stk' = st_stack st" "cells' = st_cells st" "b"
      "ec_sig_version ctx \<noteq> TapScript \<Longrightarrow> length script \<le> 10000"
      "ec_sig_version ctx = TapScript \<Longrightarrow> length stk \<le> 1000 \<and> elems stk"
    using assms by (auto simp: eval_script_def result_simps Let_def MAX_STACK_SIZE_def MAX_SCRIPT_SIZE_LEGACY_def
        MAX_SCRIPT_ELEMENT_SIZE_def elems_def list_ex_iff not_less split: if_splits)
  obtain "is" where "lib_instruction_indices L script = map Inr is" using run.run_parsed [OF st] by blast
  then show thesis using run st rest False by auto
qed

section \<open>Properties of whole runs\<close>

lemma init_ok: "elems stk \<Longrightarrow> state_ok ctx (max 1000 (length stk)) (init_state stk cells)"
  by (simp add: state_ok_def init_state_def)

lemma run_state_ok:
  assumes "eval_items L ctx script items (init_state stk cells) = Inr st" "digest_lengths L" "elems stk"
  shows "state_ok ctx (max 1000 (length stk)) st"
proof (rule run.run_invariant [where I = "state_ok ctx (max 1000 (length stk))", OF _ assms(1)])
  show "state_ok ctx (max 1000 (length stk)) s'"
    if "state_ok ctx (max 1000 (length stk)) s" "eval_instr L ctx script i s = Inr s'" for i s s'
    using that eval_instr_ok [OF that(2,1) _ assms(2)] by simp
qed (rule init_ok [OF assms(3)])

text \<open>
  C15. Resource limits of the interpreter. Starting from elements of at most 520 bytes, a script that
  succeeds leaves only such elements, and at most 1000 of them (or no more than it started with, when a
  witness v0 stack starts above the limit).
\<close>

theorem eval_script_limits:
  assumes "eval_script L script stk ctx cells = Inr (b, stk', cells')"
    and "digest_lengths L" and "\<forall>e\<in>set stk. length e \<le> 520"
  shows "length stk' \<le> max 1000 (length stk) \<and> (\<forall>e\<in>set stk'. length e \<le> 520)"
  using assms(1)
proof (cases rule: eval_script_run)
  case op_success
  then show ?thesis using assms(3) by simp
next
  case (run "is" st)
  have "elems stk" using assms(3) by (simp add: elems_def)
  then have "state_ok ctx (max 1000 (length stk)) st" by (rule run_state_ok [OF run(3) assms(2)])
  then show ?thesis using run(5) by (auto simp: state_ok_def elems_def)
qed

definition sample_tx :: transaction where
  "sample_tx =
    \<lparr>tx_version = 2, tx_lock_time = 7,
     tx_input = [\<lparr>ti_previous_output = ([1, 2], 0), ti_script_sig = [], ti_sequence = 5, ti_witness = []\<rparr>],
     tx_output = [\<lparr>to_value = 50, to_script_pubkey = [0xAC]\<rparr>]\<rparr>"

definition sample_ctx :: "bytes \<Rightarrow> sig_version \<Rightarrow> eval_context" where
  "sample_ctx script v = from_eval_parts sample_tx 0 50 script v True True True base_sig_precompute"

lemmas sample_eval_simps =
  sample_ctx_def from_eval_parts_def sample_tx_def eval_script_def Let_def init_state_def
  cs_default_def cs_is_empty_def cs_all_true_def cs_push_def cs_pop_def cs_toggle_top_def eval_instr_def
  eval_push_def eval_opcode_def count_op_def always_checks_def is_disabled_legacy_def exec_op_def stack_op_def
  arith_op_def hash_op_def push_def pop_def require_n_def script_elem_new_def eval_if_def minimal_if_rule_def
  MAX_STACK_SIZE_def MAX_SCRIPT_ELEMENT_SIZE_def MAX_SCRIPT_SIZE_LEGACY_def MAX_OPS_LEGACY_def

lemma sample_run:
  "eval_script sample_lib [1, 7, 0x76, 0x63, 0x76, 0x68] [] (sample_ctx [] Base) cells = Inr (True, [[7], [7]], cells)"
  if "cells = init_cells sample_lib (sample_ctx [] Base)"
  unfolding that by (simp add: sample_eval_simps op_dup_def)

theorem eval_script_limits_witness:
  "\<exists>cells stk'. eval_script sample_lib [1, 7, 0x76, 0x63, 0x76, 0x68] [] (sample_ctx [] Base) cells = Inr (True, stk', cells)
     \<and> length stk' \<le> 1000 \<and> (\<forall>e\<in>set stk'. length e \<le> 520)"
  using eval_script_limits [OF sample_run [OF refl] sample_digest_lengths] sample_run [OF refl] by fastforce

definition counted :: "nat \<times> instruction \<Rightarrow> bool" where
  "counted item = (case snd item of Op code \<Rightarrow> code > 0x60 | PushBytes _ \<Rightarrow> False)"

lemma eval_instr_counts:
  assumes "eval_instr L ctx script item st = Inr st'" "ec_sig_version ctx \<noteq> TapScript"
  shows "st_op_count st + (if counted item then 1 else 0) \<le> st_op_count st'"
proof -
  obtain byte_index ins where item: "item = (byte_index, ins)" by force
  from assms(1) [unfolded item] show ?thesis
  proof (cases rule: eval_instr_cases)
    case (exec code st2)
    have "st_op_count st2 \<le> st_op_count st'"
      using exec(6) by (cases rule: exec_op_cases) (auto dest: op_checkmultisig_bounds)
    then show ?thesis using exec(1,2) assms(2) by (auto simp: item counted_def result_simps split: if_splits)
  qed (use assms(2) in \<open>auto simp: item counted_def result_simps split: if_splits\<close>)
qed

lemma sum_list_filter_count: "sum_list (map (\<lambda>i. if P i then 1 else 0 :: nat) xs) = length (filter P xs)"
  by (induction xs) auto

text \<open>
  C31. The 201-operation limit of pre-tapscript scripts. A Base or witness v0 script that succeeds has
  parsed to the end, is at most 10,000 bytes long, contains at most 201 opcodes above \<open>OP_16\<close>, in executed
  and unexecuted branches together, and reports that the final stack is still to be checked.
\<close>

theorem eval_script_op_limit:
  assumes "eval_script L script stk ctx cells = Inr (b, stk', cells')" "ec_sig_version ctx \<noteq> TapScript"
    and "digest_lengths L" and "\<forall>e\<in>set stk. length e \<le> 520"
  shows "b \<and> length script \<le> 10000
    \<and> (\<exists>is. lib_instruction_indices L script = map Inr is \<and> length (filter counted is) \<le> 201)"
  using assms(1)
proof (cases rule: eval_script_run)
  case op_success
  then show ?thesis using assms(2) by simp
next
  case (run "is" st)
  have "elems stk" using assms(4) by (simp add: elems_def)
  then have "state_ok ctx (max 1000 (length stk)) st" by (rule run_state_ok [OF run(3) assms(3)])
  then have "st_op_count st \<le> 201" using assms(2) by (simp add: state_ok_def)
  moreover have "st_op_count (init_state stk cells) + sum_list (map (\<lambda>i. if counted i then 1 else 0) is) \<le> st_op_count st"
    by (rule run.run_counter [OF _ run(3)]) (rule eval_instr_counts [OF _ assms(2)])
  ultimately show ?thesis using run assms(2) by (auto simp: sum_list_filter_count)
qed

theorem eval_script_op_limit_witness:
  "\<exists>is. lib_instruction_indices sample_lib [1, 7, 0x76, 0x63, 0x76, 0x68] = map Inr is \<and> length (filter counted is) \<le> 201"
  using eval_script_op_limit [OF sample_run [OF refl] _ sample_digest_lengths]
  by (simp add: sample_ctx_def from_eval_parts_def)

text \<open>
  C32. The opcodes that invalidate a script wherever they occur: a pre-tapscript script in which a
  disabled opcode parses, and any script without \<open>OP_SUCCESS\<close> in which \<open>OP_VERIF\<close> or \<open>OP_VERNOTIF\<close>
  parses, never succeeds, even when the opcode stands in a branch that is not executed.
\<close>

theorem forbidden_opcode_rejects:
  assumes "Inr (i, Op code) \<in> set (lib_instruction_indices L script)"
    and "is_disabled_legacy code \<and> ec_sig_version ctx \<noteq> TapScript \<or> code \<in> {OP_VERIF, OP_VERNOTIF}"
    and "\<not> (ec_sig_version ctx = TapScript \<and> tapscript_has_op_success script)"
  shows "\<not> is_ok (eval_script L script stk ctx cells)"
proof -
  have "eval_instr L ctx script (i, Op code) st \<noteq> Inr st'" for st st'
  proof
    assume "eval_instr L ctx script (i, Op code) st = Inr st'"
    then show False
      by (cases rule: eval_instr_cases)
        (use assms(2) in \<open>auto simp: always_checks_def is_disabled_legacy_def split: if_splits\<close>)
  qed
  then have bad: "eval_items L ctx script (lib_instruction_indices L script) st \<noteq> Inr st'" for st st'
    by (rule run.run_rejects [OF _ assms(1)])
  show ?thesis
  proof
    assume "is_ok (eval_script L script stk ctx cells)"
    then obtain b stk' cells' where "eval_script L script stk ctx cells = Inr (b, stk', cells')"
      by (cases "eval_script L script stk ctx cells") auto
    then show False using bad assms(3) by (cases rule: eval_script_run) auto
  qed
qed

theorem forbidden_opcode_rejects_witness:
  "\<not> is_ok (eval_script sample_lib [0x51, 0, 0x63, 0x7E, 0x68] [] (sample_ctx [] Base)
      (init_cells sample_lib (sample_ctx [] Base)))"
proof (rule forbidden_opcode_rejects)
  show "Inr (3, Op 0x7E) \<in> set (lib_instruction_indices sample_lib [0x51, 0, 0x63, 0x7E, 0x68])"
    by simp
qed (simp_all add: sample_ctx_def from_eval_parts_def is_disabled_legacy_def)

text \<open>
  C33. An unexecuted branch is inert: while some enclosing condition is false, every instruction that does
  not fail leaves both stacks, the code separator position and the signature budget untouched.
\<close>

theorem skipped_branch_inert:
  assumes "eval_instr L ctx script item st = Inr st'" "cs_rel (st_cond st) bs" "False \<in> set bs"
  shows "st_stack st' = st_stack st \<and> st_altstack st' = st_altstack st \<and> st_cells st' = st_cells st"
proof -
  obtain byte_index ins where item: "item = (byte_index, ins)" by force
  have "\<not> cs_all_true (st_cond st)" using cond.rel_all_true [OF assms(2)] assms(3) by (auto simp: list_all_iff)
  with assms(1) [unfolded item] show ?thesis
    by (cases rule: eval_instr_cases) (auto simp: result_simps split: if_splits)
qed

theorem skipped_branch_inert_witness:
  "\<exists>st st'. False \<in> set [True, False] \<and> cs_rel (st_cond st) [True, False]
     \<and> eval_instr sample_lib (sample_ctx [] Base) [0xAB] (0, Op 0xAB) st = Inr st'
     \<and> st_cells st' = st_cells st \<and> st_stack st' = [[7]]"
proof -
  let ?st = "(init_state [[7]] (init_cells sample_lib (sample_ctx [] Base)))\<lparr>st_cond := \<lparr>cs_size = 2, cs_first_false = Some 1\<rparr>\<rparr>"
  have ev: "eval_instr sample_lib (sample_ctx [] Base) [0xAB] (0, Op 0xAB) ?st
      = Inr (?st\<lparr>st_opcode_pos := 1, st_op_count := 1\<rparr>)"
    by (simp add: sample_eval_simps sat_add_def)
  have rel: "cs_rel (st_cond ?st) [True, False]" by (simp add: cs_rel_def)
  have "st_stack ?st = [[7]]" by (simp add: init_state_def)
  then show ?thesis using skipped_branch_inert [OF ev rel] ev rel by (intro exI [of _ ?st] exI) auto
qed

text \<open>
  C29. A script that runs to its end has balanced conditionals: its IF, NOTIF, ELSE and ENDIF
  instructions, in order, drive a plain vector of booleans from empty back to empty, with no ELSE or
  ENDIF outside an open IF.
\<close>

theorem eval_script_balanced:
  assumes "eval_script L script stk ctx cells = Inr (True, stk', cells')"
  shows "\<exists>is opss. lib_instruction_indices L script = map Inr is \<and> list_all2 control_ops is opss
    \<and> run_steps naive_step (concat opss) [] = Some []"
  using assms
proof (cases rule: eval_script_run)
  case (run "is" st)
  have "\<exists>opss bs. list_all2 control_ops is opss \<and> run_steps naive_step (concat opss) [] = Some bs \<and> cs_rel (st_cond st) bs"
    by (rule run.run_traced [where R = "\<lambda>st. cs_rel (st_cond st)", OF _ run_steps_append run(3)])
      (erule (1) eval_instr_traced, simp add: init_state_def cond.rel_empty)
  then obtain opss bs where "list_all2 control_ops is opss" "run_steps naive_step (concat opss) [] = Some bs"
      "cs_rel (st_cond st) bs" by blast
  moreover have "bs = []" using cond.rel_is_empty [OF calculation(3)] run(4) by simp
  ultimately show ?thesis using run(2) by blast
qed simp

theorem eval_script_balanced_witness:
  "\<exists>is opss. lib_instruction_indices sample_lib [1, 7, 0x76, 0x63, 0x76, 0x68] = map Inr is
     \<and> list_all2 control_ops is opss \<and> run_steps naive_step (concat opss) [] = Some []"
  by (rule eval_script_balanced [OF sample_run [OF refl]])

text \<open>
  C34. The BIP342 signature budget. Over any evaluation the validation weight left never becomes
  negative and only falls by multiples of 50; scripts before tapscript do not touch it.
\<close>

theorem validation_weight_budget:
  assumes "eval_script L script stk ctx cells = Inr (b, stk', cells')" "0 \<le> cl_validation_weight_left cells"
  shows "0 \<le> cl_validation_weight_left cells' \<and> cl_validation_weight_left cells' \<le> cl_validation_weight_left cells
    \<and> 50 dvd (cl_validation_weight_left cells - cl_validation_weight_left cells')
    \<and> (ec_sig_version ctx \<noteq> TapScript \<longrightarrow> cl_validation_weight_left cells' = cl_validation_weight_left cells)"
  using assms(1)
proof (cases rule: eval_script_run)
  case op_success
  then show ?thesis using assms(2) by simp
next
  case (run "is" st)
  let ?I = "\<lambda>st. weight_spent ctx (cl_validation_weight_left cells) (cl_validation_weight_left (st_cells st))"
  have "?I st"
  proof (rule run.run_invariant [where I = ?I, OF _ run(3)])
    show "?I s'" if "?I s" "eval_instr L ctx script i s = Inr s'" for i s s'
      using eval_instr_weight [OF that(2)] that(1) by (rule weight_spent_step)
  qed (use assms(2) in \<open>simp add: init_state_def weight_spent_def\<close>)
  then show ?thesis using run(6) by (simp add: weight_spent_def)
qed

theorem validation_weight_budget_witness:
  "\<exists>cells'. eval_script sample_lib [1, 9, 1, 8, 0xAD] [] (sample_ctx [] TapScript)
       (init_cells sample_lib (sample_ctx [] TapScript)) = Inr (True, [], cells')
     \<and> cl_validation_weight_left (init_cells sample_lib (sample_ctx [] TapScript)) = 51
     \<and> cl_validation_weight_left cells' = 1 \<and> 50 dvd (51 - cl_validation_weight_left cells')"
proof -
  let ?c = "init_cells sample_lib (sample_ctx [] TapScript)"
  have w: "cl_validation_weight_left ?c = 51"
    by (simp add: init_cells_def tapscript_init_weight_def TAPSCRIPT_VALIDATION_WEIGHT_OFFSET_def sample_ctx_def
        from_eval_parts_def sample_tx_def get_at_def)
  have "\<not> tapscript_has_op_success [1, 9, 1, 8, 0xAD]"
    by (simp add: tapscript_has_op_success_def op_success_loop.simps is_op_success_def Let_def)
  then have "eval_script sample_lib [1, 9, 1, 8, 0xAD] [] (sample_ctx [] TapScript) ?c
      = Inr (True, [], ?c\<lparr>cl_validation_weight_left := cl_validation_weight_left ?c - 50\<rparr>)"
    using w
    by (simp add: sample_eval_simps op_checksig_def op_checksig_tapscript_def
        tapscript_sig_result_def TAPSCRIPT_VALIDATION_WEIGHT_PER_SIGOP_def)
  from validation_weight_budget [OF this] this w show ?thesis by auto
qed

section \<open>Multisig\<close>

lemma greedy_step: "P s k \<Longrightarrow> (\<exists>ks'. subseq ks' (k # keys) \<and> list_all2 P (s # sigs) ks')
    \<longleftrightarrow> (\<exists>ks'. subseq ks' keys \<and> list_all2 P sigs ks')"
proof
  assume "\<exists>ks'. subseq ks' (k # keys) \<and> list_all2 P (s # sigs) ks'"
  then obtain k' ks' where "subseq (k' # ks') (k # keys)" "list_all2 P sigs ks'" by (auto simp: list_all2_Cons1)
  then have "subseq ks' keys" by (auto simp: subseq_Cons2_iff split: if_splits dest: subseq_Cons')
  then show "\<exists>ks'. subseq ks' keys \<and> list_all2 P sigs ks'" using \<open>list_all2 P sigs ks'\<close> by blast
next
  assume "P s k" "\<exists>ks'. subseq ks' keys \<and> list_all2 P sigs ks'"
  then obtain ks' where "subseq ks' keys" "list_all2 P sigs ks'" by blast
  then show "\<exists>ks'. subseq ks' (k # keys) \<and> list_all2 P (s # sigs) ks'"
    using \<open>P s k\<close> by (intro exI [of _ "k # ks'"]) simp
qed

lemma skip_step:
  assumes "\<not> P s k"
  shows "(\<exists>ks'. subseq ks' (k # keys) \<and> list_all2 P (s # sigs) ks') \<longleftrightarrow> (\<exists>ks'. subseq ks' keys \<and> list_all2 P (s # sigs) ks')"
proof -
  have "subseq (k' # ks') (k # keys) \<longleftrightarrow> subseq (k' # ks') keys" if "P s k'" for k' ks'
    using that assms by (auto simp: subseq_Cons2_iff)
  then show ?thesis by (auto simp: list_all2_Cons1)
qed

lemma too_few_keys: "length keys < length sigs \<Longrightarrow> \<not> (\<exists>ks'. subseq ks' keys \<and> list_all2 P sigs ks')"
  by (auto dest!: list_emb_length list_all2_lengthD)

lemma multisig_walk_matching:
  assumes "length sigs \<le> length keys"
    and "\<And>s k. s \<in> set sigs \<Longrightarrow> k \<in> set keys \<Longrightarrow> matches s k = Inr (P s k)"
  shows "multisig_walk matches sigs keys = Inr (\<exists>ks'. subseq ks' keys \<and> list_all2 P sigs ks')"
  using assms
proof (induction matches sigs keys rule: multisig_walk.induct)
  case (3 matches s sigs k keys)
  let ?rest = "if P s k then sigs else s # sigs"
  have eq: "(\<exists>ks'. subseq ks' (k # keys) \<and> list_all2 P (s # sigs) ks') = (\<exists>ks'. subseq ks' keys \<and> list_all2 P ?rest ks')"
    using greedy_step [of P s k keys sigs] skip_step [of P s k keys sigs] by simp
  have m: "matches s k = Inr (P s k)" using "3.prems" by simp
  show ?case
  proof (cases "length ?rest > length keys")
    case True
    then show ?thesis unfolding eq using too_few_keys [OF True, of P] m by (simp add: Let_def split: if_splits)
  next
    case False
    have "multisig_walk matches ?rest keys = Inr (\<exists>ks'. subseq ks' keys \<and> list_all2 P ?rest ks')"
      by (rule "3.IH" [of "P s k"]) (use False m "3.prems" in \<open>auto split: if_splits\<close>)
    then show ?thesis unfolding eq using m False by (simp add: Let_def split: if_splits)
  qed
qed auto

text \<open>
  C16. \<open>OP_CHECKMULTISIG\<close> accepts exactly when the signatures match keys in order: if every pair can be
  compared, the single pass over the keys reports whether some subsequence of the keys pairs up with all
  the signatures. The early exit never loses a match, and the walk never reads past the keys.
\<close>

theorem checkmultisig_pairs_matching:
  assumes "length sigs \<le> length pubkeys"
    and "\<And>s k. s \<in> set sigs \<Longrightarrow> k \<in> set pubkeys \<Longrightarrow> ecdsa_sig_matches L s k ctx script_code ver = Inr (P s k)"
  shows "checkmultisig_pairs L sigs pubkeys ctx script_code ver
    = Inr (\<exists>ks. subseq ks pubkeys \<and> list_all2 P sigs ks)"
  unfolding checkmultisig_pairs_def by (rule multisig_walk_matching [OF assms])

theorem checkmultisig_pairs_matching_witness:
  "checkmultisig_pairs sample_lib [[7, 1], [9, 1]] [[7], [8], [9]] ((sample_ctx [] Base)\<lparr>ec_bip66_active := False\<rparr>) [] PreBase
    = Inr (\<exists>ks. subseq ks [[7], [8], [9]] \<and> list_all2 (\<lambda>s k :: bytes. butlast s = k) [[7, 1], [9, 1]] ks)"
  by (rule checkmultisig_pairs_matching)
    (auto simp: ecdsa_sig_matches_def checksig_legacy_encodings_def check_signature_encoding_def sample_ctx_def
      from_eval_parts_def or_false_def parse_der_sig_def parse_pubkey_def sighash_for_script_def verify_ecdsa_def)

end
