(* ===== verification/Verify.thy ===== *)
theory Verify
  imports Interp
begin

text \<open>
  Input verification of \<open>crates/rbitcoin-consensus/src/script/\<close>: template classification
  (\<open>classify.rs\<close>), the typed paths (\<open>p2pkh.rs\<close>, \<open>p2wpkh.rs\<close>, \<open>p2wsh.rs\<close>, \<open>p2tr.rs\<close>, \<open>nested.rs\<close>), the
  bare interpreter path and the dispatch (\<open>mod.rs\<close>). The shared sighash cache and the memoized spent-output
  hashes are transparent. Witness items and script bytes are lists; the interpreter stack has its top
  first, so a witness becomes a stack by \<open>rev\<close>.
\<close>

section \<open>Classification\<close>

datatype script_kind = P2wpkh | P2wsh | P2tr | P2pkh | P2sh | Bare

definition is_anyone_can_spend :: "bytes \<Rightarrow> bool" where
  "is_anyone_can_spend script = (script = [OP_TRUE])"

text \<open>A script with a witness version has at least four bytes, so the slice from 2 is in range.\<close>

definition witness_program :: "btc_lib \<Rightarrow> bytes \<Rightarrow> (u8 \<times> bytes) option" where
  "witness_program L script =
    (case lib_witness_version L script of None \<Rightarrow> None | Some version \<Rightarrow> Some (version, drop 2 script))"

definition classify :: "btc_lib \<Rightarrow> bytes \<Rightarrow> script_kind" where
  "classify L script =
    (if lib_is_p2wpkh L script then P2wpkh
     else if lib_is_p2wsh L script then P2wsh
     else if lib_is_p2tr L script then P2tr
     else if lib_is_p2pkh L script then P2pkh
     else if lib_is_p2sh L script then P2sh
     else Bare)"

section \<open>Running a script for a job\<close>

definition input_at :: "transaction \<Rightarrow> nat \<Rightarrow> txin consensus" where
  "input_at tx i = ok_or (get_at (tx_input tx) i) (Panic ''input index'')"

text \<open>\<open>EvalContext::from_job\<close> followed by \<open>eval_script\<close>, with the fresh cells of the new context.\<close>

definition run_script ::
  "btc_lib \<Rightarrow> script_check_job \<Rightarrow> transaction \<Rightarrow> nat \<Rightarrow> u64 \<Rightarrow> bytes \<Rightarrow> sig_version \<Rightarrow> stack \<Rightarrow> stack consensus" where
  "run_script L job tx i amount script version stk =
    rbind (from_job L job tx i amount script version) (\<lambda>ctx.
    rbind (eval_script L script stk ctx (init_cells L ctx)) (\<lambda>(_, stk, _). Inr stk))"

definition final_check :: "btc_lib \<Rightarrow> script_check_job \<Rightarrow> stack \<Rightarrow> unit consensus" where
  "final_check L job stk =
    (if f_cleanstack (j_flags job) then require_clean_true L stk else require_true_top L stk)"

definition verify_bare :: "btc_lib \<Rightarrow> script_check_job \<Rightarrow> nat \<Rightarrow> transaction \<Rightarrow> u64 \<Rightarrow> bytes \<Rightarrow> unit consensus" where
  "verify_bare L job i tx amount script =
    rbind (input_at tx i) (\<lambda>input.
    let ss = ti_script_sig input in
    rbind (if ss \<noteq> [] then run_script L job tx i amount ss Base [] else Inr []) (\<lambda>stk.
    rbind (run_script L job tx i amount script Base stk) (\<lambda>stk.
    final_check L job stk)))"

section \<open>P2PKH\<close>

fun two_pushes ::
  "(unit + instruction) list \<Rightarrow> bytes option \<Rightarrow> bytes option \<Rightarrow> (bytes option \<times> bytes option) consensus" where
  "two_pushes [] sig pubkey = Inr (sig, pubkey)"
| "two_pushes (Inl _ # items) sig pubkey = Inl (Script ''p2pkh scriptSig'')"
| "two_pushes (Inr (PushBytes b) # items) sig pubkey =
    (if length b > MAX_SCRIPT_ELEMENT_SIZE then Inl (Script ''p2pkh scriptSig'')
     else if sig = None then two_pushes items (Some b) pubkey
     else if pubkey = None then two_pushes items sig (Some b)
     else Inl (Script ''p2pkh scriptSig len''))"
| "two_pushes (Inr (Op _) # items) sig pubkey = Inl (Script ''p2pkh scriptSig unexpected op'')"

definition parse_two_pushes :: "btc_lib \<Rightarrow> bytes \<Rightarrow> (bytes \<times> bytes) consensus" where
  "parse_two_pushes L script =
    rbind (two_pushes (lib_instructions L script) None None) (\<lambda>r.
    case r of
      (Some sig, Some pubkey) \<Rightarrow> Inr (sig, pubkey)
    | _ \<Rightarrow> Inl (Script ''p2pkh scriptSig len''))"

definition P2PKH_SCRIPT_CODE_KEYHASH_REMOVED :: bytes where
  "P2PKH_SCRIPT_CODE_KEYHASH_REMOVED = [OP_DUP, OP_HASH160, OP_EQUALVERIFY, OP_CHECKSIG]"

definition sighash_script_code :: "bytes \<Rightarrow> bytes \<Rightarrow> bytes" where
  "sighash_script_code spk sig =
    (if length spk = 25 \<and> length sig = 20 \<and> sig = take 20 (drop 3 spk)
     then P2PKH_SCRIPT_CODE_KEYHASH_REMOVED else spk)"

definition p2pkh_verify :: "btc_lib \<Rightarrow> script_check_job \<Rightarrow> nat \<Rightarrow> transaction \<Rightarrow> bytes \<Rightarrow> unit consensus" where
  "p2pkh_verify L job i tx spk =
    (if length spk < 23 then Inl (Panic ''range end index out of range'')
     else
       let keyhash = take 20 (drop 3 spk) in
       rbind (input_at tx i) (\<lambda>input.
       rbind (parse_two_pushes L (ti_script_sig input)) (\<lambda>(sig_raw, pubkey_raw).
       if lib_hash160 L pubkey_raw \<noteq> keyhash then Inl (Script ''p2pkh pubkey hash'')
       else
         rbind (parse_der_sig L sig_raw (f_bip66_active (j_flags job))) (\<lambda>(sig, sighash_ty).
         rbind (parse_pubkey L pubkey_raw) (\<lambda>pubkey.
         rbind (ok_or (lib_legacy_signature_hash L tx i (sighash_script_code spk sig_raw) sighash_ty)
                  (Script ''p2pkh sighash'')) (\<lambda>sighash.
         if verify_ecdsa L sighash sig pubkey then Inr () else Inl (Script ''p2pkh ecdsa'')))))))"

definition p2pkh_scriptsig_shape_error :: "consensus_error \<Rightarrow> bool" where
  "p2pkh_scriptsig_shape_error err =
    (case err of
       Script msg \<Rightarrow>
         msg \<in> {''p2pkh scriptSig len'', ''p2pkh scriptSig'', ''p2pkh scriptSig op'', ''p2pkh scriptSig unexpected op''}
     | _ \<Rightarrow> False)"

section \<open>Witness version 0\<close>

definition execute_witness_v0 ::
  "btc_lib \<Rightarrow> script_check_job \<Rightarrow> nat \<Rightarrow> transaction \<Rightarrow> bytes \<Rightarrow> bytes list \<Rightarrow> u64 \<Rightarrow> unit consensus" where
  "execute_witness_v0 L job i tx script items amount =
    (if list_ex (\<lambda>item. length item > MAX_SCRIPT_ELEMENT_SIZE) items then Inl (Script ''PUSH_SIZE'')
     else
       rbind (run_script L job tx i amount script WitnessV0 (rev items)) (\<lambda>stk.
       require_clean_true L stk))"

definition p2wsh_verify_with_scripthash ::
  "btc_lib \<Rightarrow> script_check_job \<Rightarrow> nat \<Rightarrow> transaction \<Rightarrow> bytes \<Rightarrow> u64 \<Rightarrow> unit consensus" where
  "p2wsh_verify_with_scripthash L job i tx scripthash amount =
    rbind (input_at tx i) (\<lambda>input.
    if ti_witness input = [] then Inl (Script ''p2wsh empty witness'')
    else
      let script_bytes = last (ti_witness input) in
      if lib_sha256 L script_bytes \<noteq> scripthash then Inl (Script ''p2wsh script hash'')
      else execute_witness_v0 L job i tx script_bytes (butlast (ti_witness input)) amount)"

definition p2wsh_verify ::
  "btc_lib \<Rightarrow> script_check_job \<Rightarrow> nat \<Rightarrow> transaction \<Rightarrow> bytes \<Rightarrow> u64 \<Rightarrow> unit consensus" where
  "p2wsh_verify L job i tx spk amount =
    (if length spk < 34 then Inl (Panic ''34-byte p2wsh script'')
     else p2wsh_verify_with_scripthash L job i tx (take 32 (drop 2 spk)) amount)"

definition witness_pair :: "txin \<Rightarrow> (bytes \<times> bytes) consensus" where
  "witness_pair input =
    (case ti_witness input of
       [sig_raw, pubkey_raw] \<Rightarrow> Inr (sig_raw, pubkey_raw)
     | _ \<Rightarrow> Inl (Script ''p2wpkh witness len''))"

definition check_element_sizes :: "bytes \<Rightarrow> bytes \<Rightarrow> unit consensus" where
  "check_element_sizes sig_raw pubkey_raw =
    (if length sig_raw > MAX_SCRIPT_ELEMENT_SIZE \<or> length pubkey_raw > MAX_SCRIPT_ELEMENT_SIZE
     then Inl (Script ''PUSH_SIZE'') else Inr ())"

definition p2wpkh_verify_loaded ::
  "btc_lib \<Rightarrow> script_check_job \<Rightarrow> nat \<Rightarrow> transaction \<Rightarrow> bytes \<Rightarrow> bytes \<Rightarrow> tx_script_precompute \<Rightarrow> u64 \<Rightarrow> bytes \<Rightarrow> bytes \<Rightarrow> unit consensus" where
  "p2wpkh_verify_loaded L job i tx keyhash program pre amount sig_raw pubkey_raw =
    rbind (check_element_sizes sig_raw pubkey_raw) (\<lambda>_.
    if lib_hash160 L pubkey_raw \<noteq> keyhash then Inl (Script ''p2wpkh pubkey hash'')
    else if f_witness_pubkeytype (j_flags job) \<and> \<not> is_compressed_pubkey pubkey_raw then Inl (Script ''WITNESS_PUBKEYTYPE'')
    else
      rbind (parse_der_sig L sig_raw (f_bip66_active (j_flags job))) (\<lambda>(sig, sighash_ty).
      rbind (parse_pubkey L pubkey_raw) (\<lambda>pubkey.
      rbind (bip143_p2wpkh_signature_hash L tx i program amount sighash_ty pre) (\<lambda>sighash.
      if verify_ecdsa L sighash sig pubkey then Inr () else Inl (Script ''p2wpkh ecdsa'')))))"

definition p2wpkh_verify ::
  "btc_lib \<Rightarrow> script_check_job \<Rightarrow> nat \<Rightarrow> transaction \<Rightarrow> tx_script_precompute \<Rightarrow> bytes \<Rightarrow> u64 \<Rightarrow> unit consensus" where
  "p2wpkh_verify L job i tx pre spk amount =
    rbind (ok_or (get_range spk 2 22) (Script ''p2wpkh program'')) (\<lambda>keyhash.
    rbind (input_at tx i) (\<lambda>input.
    rbind (witness_pair input) (\<lambda>(sig_raw, pubkey_raw).
    if sig_raw = [] \<or> pubkey_raw = [] then Inl (Script ''p2wpkh empty witness item'')
    else p2wpkh_verify_loaded L job i tx keyhash spk pre amount sig_raw pubkey_raw)))"

definition p2wpkh_verify_with_keyhash ::
  "btc_lib \<Rightarrow> script_check_job \<Rightarrow> nat \<Rightarrow> transaction \<Rightarrow> bytes \<Rightarrow> bytes \<Rightarrow> tx_script_precompute \<Rightarrow> u64 \<Rightarrow> unit consensus" where
  "p2wpkh_verify_with_keyhash L job i tx keyhash program pre amount =
    rbind (input_at tx i) (\<lambda>input.
    rbind (witness_pair input) (\<lambda>(sig_raw, pubkey_raw).
    p2wpkh_verify_loaded L job i tx keyhash program pre amount sig_raw pubkey_raw))"

definition P2PKH_PREFIX :: bytes where
  "P2PKH_PREFIX = [OP_DUP, OP_HASH160, 0x14]"

definition P2PKH_SUFFIX :: bytes where
  "P2PKH_SUFFIX = [OP_EQUALVERIFY, OP_CHECKSIG]"

definition p2wpkh_verify_interpreted ::
  "btc_lib \<Rightarrow> script_check_job \<Rightarrow> nat \<Rightarrow> transaction \<Rightarrow> bytes \<Rightarrow> u64 \<Rightarrow> unit consensus" where
  "p2wpkh_verify_interpreted L job i tx keyhash amount =
    rbind (input_at tx i) (\<lambda>input.
    let witness = ti_witness input in
    if length witness \<noteq> 2 then Inl (Script ''p2wpkh witness len'')
    else execute_witness_v0 L job i tx (P2PKH_PREFIX @ keyhash @ P2PKH_SUFFIX) witness amount)"

section \<open>Taproot\<close>

definition bip341_annex :: "bytes list \<Rightarrow> bytes option" where
  "bip341_annex witness =
    (if length witness < 2 then None
     else if last witness \<noteq> [] \<and> last witness ! 0 = OP_RESERVED then Some (last witness)
     else None)"

definition p2tr_verify_key_path ::
  "btc_lib \<Rightarrow> script_check_job \<Rightarrow> nat \<Rightarrow> transaction \<Rightarrow> bytes \<Rightarrow> u64 \<Rightarrow> bytes \<Rightarrow> unit consensus" where
  "p2tr_verify_key_path L job i tx output_key amount spent_script =
    rbind (input_at tx i) (\<lambda>input.
    rbind (ok_or (get_at (ti_witness input) 0) (Script ''p2tr sig'')) (\<lambda>sig_raw.
    rbind (if length sig_raw = 64 then Inr (sig_raw, 0)
           else if length sig_raw = 65 then
             (if sig_raw ! 64 = 0x00 then Inl (Script ''p2tr sighash type'')
              else
                rbind (ok_or (lib_tap_sighash_type L (sig_raw ! 64)) (Script ''p2tr sighash type''))
                  (\<lambda>ty. Inr (take 64 sig_raw, ty)))
           else Inl (Script ''p2tr sig len'')) (\<lambda>(sig_bytes, sighash_ty).
    rbind (ok_or (lib_xonly_from_slice L output_key) (Script ''p2tr xonly'')) (\<lambda>xonly.
    rbind (tap_signature_hash L job i sighash_ty (map_option (annex_hash L) (bip341_annex (ti_witness input)))
             None amount spent_script) (\<lambda>sighash.
    if lib_verify_schnorr L sig_bytes sighash xonly then Inr () else Inl (Script ''p2tr schnorr''))))))"

definition TAPSCRIPT_LEAF :: u8 where
  "TAPSCRIPT_LEAF = 0xC0"

definition CONTROL_BASE :: nat where
  "CONTROL_BASE = 33"

definition CONTROL_NODE :: nat where
  "CONTROL_NODE = 32"

definition CONTROL_MAX_NODES :: nat where
  "CONTROL_MAX_NODES = 128"

definition output_key_matches_tweak :: "btc_lib \<Rightarrow> bytes \<Rightarrow> bytes \<Rightarrow> bool \<Rightarrow> bytes \<Rightarrow> bool" where
  "output_key_matches_tweak L internal output_key parity_odd tweak =
    (case lib_scalar_from_be_bytes L tweak of
       None \<Rightarrow> False
     | Some scalar \<Rightarrow> lib_tweak_add_check L internal output_key parity_odd scalar)"

text \<open>The Merkle path of the control block, folded into the leaf hash.\<close>

definition control_node :: "bytes \<Rightarrow> nat \<Rightarrow> bytes" where
  "control_node control i = take CONTROL_NODE (drop (CONTROL_BASE + i * CONTROL_NODE) control)"

definition verify_control_commitment :: "btc_lib \<Rightarrow> bytes \<Rightarrow> bytes \<Rightarrow> bytes \<Rightarrow> (u8 \<times> bytes) consensus" where
  "verify_control_commitment L control output_key_bytes script =
    (if length control < CONTROL_BASE then Inl (Script ''TAPROOT_WRONG_CONTROL_SIZE'')
     else
       let extra = length control - CONTROL_BASE;
           nodes = extra div CONTROL_NODE
       in if extra mod CONTROL_NODE \<noteq> 0 \<or> nodes > CONTROL_MAX_NODES then Inl (Script ''TAPROOT_WRONG_CONTROL_SIZE'')
          else
            let leaf = control ! 0 AND 0xFE;
                parity_odd = (control ! 0 AND 1 \<noteq> 0)
            in rbind (ok_or (lib_xonly_from_slice L (take (CONTROL_BASE - 1) (drop 1 control)))
                        (Script ''WITNESS_PROGRAM_MISMATCH'')) (\<lambda>internal.
               rbind (ok_or (lib_xonly_from_slice L output_key_bytes) (Script ''WITNESS_PROGRAM_MISMATCH'')) (\<lambda>output_key.
               let tapleaf_hash = lib_tap_leaf_hash L (enc_u8 L leaf @ enc_script L script);
                   curr = fold (\<lambda>i curr. lib_tap_node_hash L curr (control_node control i)) [0..<nodes] tapleaf_hash;
                   tweak = lib_tap_tweak_hash L internal curr
               in if \<not> output_key_matches_tweak L internal output_key parity_odd tweak
                  then Inl (Script ''WITNESS_PROGRAM_MISMATCH'')
                  else Inr (leaf, tapleaf_hash))))"

definition p2tr_verify_script_path ::
  "btc_lib \<Rightarrow> script_check_job \<Rightarrow> nat \<Rightarrow> transaction \<Rightarrow> bytes \<Rightarrow> u64 \<Rightarrow> bytes \<Rightarrow> unit consensus" where
  "p2tr_verify_script_path L job i tx output_key_bytes amount spent_script =
    rbind (input_at tx i) (\<lambda>input.
    let annex = bip341_annex (ti_witness input);
        items = (if annex \<noteq> None then butlast (ti_witness input) else ti_witness input)
    in if length items < 2 then Inl (Script ''p2tr script path short'')
       else
         let control_bytes = last items;
             items = butlast items;
             script_bytes = last items;
             stk = rev (butlast items)
         in rbind (verify_control_commitment L control_bytes output_key_bytes script_bytes) (\<lambda>(leaf, tapleaf_hash).
            if leaf \<noteq> TAPSCRIPT_LEAF then Inr ()
            else
              let exec = tapscript_exec_new L job i tapleaf_hash amount spent_script annex in
              rbind (from_job L job tx i amount script_bytes TapScript) (\<lambda>ctx.
              let ctx = with_tapscript ctx exec in
              rbind (eval_script L script_bytes stk ctx (init_cells L ctx)) (\<lambda>(clean, stk, _).
              if clean then require_clean_true L stk else Inr ()))))"

definition p2tr_verify ::
  "btc_lib \<Rightarrow> script_check_job \<Rightarrow> nat \<Rightarrow> transaction \<Rightarrow> u64 \<Rightarrow> bytes \<Rightarrow> unit consensus" where
  "p2tr_verify L job i tx amount spk =
    (if length spk < 34 then Inl (Panic ''range end index out of range'')
     else
       let output_key = take 32 (drop 2 spk) in
       rbind (input_at tx i) (\<lambda>input.
       let wit_len = length (ti_witness input) in
       if wit_len = 0 then Inl (Script ''p2tr empty witness'')
       else if wit_len = 1 \<or> wit_len = 2 \<and> bip341_annex (ti_witness input) \<noteq> None
       then p2tr_verify_key_path L job i tx output_key amount spk
       else p2tr_verify_script_path L job i tx output_key amount spk))"

section \<open>P2SH\<close>

definition require_room_for_p2sh_hash_push :: "stack \<Rightarrow> unit consensus" where
  "require_room_for_p2sh_hash_push stk =
    (if length stk \<ge> MAX_STACK_SIZE then Inl (Script ''stack size'') else Inr ())"

definition check_p2sh_redeem_hash :: "btc_lib \<Rightarrow> bytes \<Rightarrow> bytes \<Rightarrow> unit consensus" where
  "check_p2sh_redeem_hash L spk redeem =
    (if length spk \<noteq> 23 then Inl (Script ''p2sh spk'')
     else if lib_hash160 L redeem \<noteq> take 20 (drop 2 spk) then Inl (Script ''p2sh redeem hash'')
     else Inr ())"

definition minimal_push_encoding :: "bytes \<Rightarrow> bytes" where
  "minimal_push_encoding data = word_of_nat (length data) # data"

definition p2sh_script_sig_stack :: "btc_lib \<Rightarrow> script_check_job \<Rightarrow> nat \<Rightarrow> transaction \<Rightarrow> u64 \<Rightarrow> stack consensus" where
  "p2sh_script_sig_stack L job i tx amount =
    rbind (input_at tx i) (\<lambda>input.
    let script_sig = ti_script_sig input in
    rbind (run_script L job tx i amount script_sig Base []) (\<lambda>stk.
    rbind (require_room_for_p2sh_hash_push stk) (\<lambda>_.
    if \<not> lib_is_push_only L script_sig then Inl (Script ''p2sh scriptSig op'') else Inr stk)))"

definition verify_p2sh_legacy ::
  "btc_lib \<Rightarrow> script_check_job \<Rightarrow> nat \<Rightarrow> transaction \<Rightarrow> stack \<Rightarrow> u64 \<Rightarrow> bytes \<Rightarrow> unit consensus" where
  "verify_p2sh_legacy L job i tx stk amount outer =
    (case stk of
       [] \<Rightarrow> Inl (Script ''p2sh empty scriptSig'')
     | redeem # stk \<Rightarrow>
         rbind (check_p2sh_redeem_hash L outer redeem) (\<lambda>_.
         rbind (run_script L job tx i amount redeem Base stk) (\<lambda>stk.
         final_check L job stk)))"

definition needs_interpreted_ecdsa :: "script_check_job \<Rightarrow> bool" where
  "needs_interpreted_ecdsa job =
    (f_low_s (j_flags job) \<or> f_strictenc (j_flags job) \<or> f_nullfail (j_flags job))"

definition try_p2sh_nested_segwit ::
  "btc_lib \<Rightarrow> script_check_job \<Rightarrow> nat \<Rightarrow> transaction \<Rightarrow> tx_script_precompute \<Rightarrow> stack \<Rightarrow> u64 \<Rightarrow> bytes \<Rightarrow> unit consensus option" where
  "try_p2sh_nested_segwit L job i tx pre items amount outer =
    (if \<not> f_witness_active (j_flags job) then None
     else
       case get_at (tx_input tx) i of
         None \<Rightarrow> Some (Inl (Panic ''input index''))
       | Some input \<Rightarrow>
           (case items of
              [] \<Rightarrow> None
            | redeem # rest \<Rightarrow>
                (case witness_program L redeem of
                   None \<Rightarrow> None
                 | Some (version, program) \<Rightarrow>
                     Some
                       (if rest \<noteq> [] \<or> ti_script_sig input \<noteq> minimal_push_encoding redeem
                        then Inl (Script ''WITNESS_MALLEATED_P2SH'')
                        else
                          rbind (check_p2sh_redeem_hash L outer redeem) (\<lambda>_.
                          if \<not> read_scriptbool L program then Inl (Script ''EVAL_FALSE'')
                          else if version = 0 \<and> length program = 20 then
                            (if needs_interpreted_ecdsa job then p2wpkh_verify_interpreted L job i tx program amount
                             else p2wpkh_verify_with_keyhash L job i tx program redeem pre amount)
                          else if version = 0 \<and> length program = 32 then
                            p2wsh_verify_with_scripthash L job i tx program amount
                          else if version = 0 then Inl (Script ''WITNESS_PROGRAM_WRONG_LENGTH'')
                          else if f_discourage_upgradable_witness (j_flags job)
                          then Inl (Script ''DISCOURAGE_UPGRADABLE_WITNESS_PROGRAM'')
                          else Inr ())))))"

section \<open>Dispatch\<close>

definition PAY_TO_ANCHOR_PROGRAM :: bytes where
  "PAY_TO_ANCHOR_PROGRAM = [0x4E, 0x73]"

definition verify_native_witness ::
  "btc_lib \<Rightarrow> script_check_job \<Rightarrow> nat \<Rightarrow> transaction \<Rightarrow> tx_script_precompute \<Rightarrow> u8 \<Rightarrow> bytes \<Rightarrow> u64 \<Rightarrow> bytes \<Rightarrow> unit consensus" where
  "verify_native_witness L job i tx pre version program amount script =
    rbind (input_at tx i) (\<lambda>input.
    if ti_script_sig input \<noteq> [] then Inl (Script ''WITNESS_MALLEATED'')
    else if \<not> read_scriptbool L program then Inl (Script ''EVAL_FALSE'')
    else if version = 0 \<and> length program = 20 \<and> needs_interpreted_ecdsa job then
      p2wpkh_verify_interpreted L job i tx program amount
    else if version = 0 \<and> length program = 20 then p2wpkh_verify L job i tx pre script amount
    else if version = 0 \<and> length program = 32 then p2wsh_verify L job i tx script amount
    else if version = 0 then Inl (Script ''WITNESS_PROGRAM_WRONG_LENGTH'')
    else if version = 1 \<and> length program = 32 \<and> f_taproot_active (j_flags job) then
      p2tr_verify L job i tx amount script
    else if version = 1 \<and> length program = 32 then Inr ()
    else if version = 1 \<and> length program = 2 \<and> program = PAY_TO_ANCHOR_PROGRAM then Inr ()
    else if f_discourage_upgradable_witness (j_flags job)
    then Inl (Script ''DISCOURAGE_UPGRADABLE_WITNESS_PROGRAM'')
    else Inr ())"

definition verify_p2pkh_kind ::
  "btc_lib \<Rightarrow> script_check_job \<Rightarrow> nat \<Rightarrow> transaction \<Rightarrow> u64 \<Rightarrow> bytes \<Rightarrow> unit consensus" where
  "verify_p2pkh_kind L job i tx amount script =
    (if needs_interpreted_ecdsa job then verify_bare L job i tx amount script
     else
       case p2pkh_verify L job i tx script of
         Inr _ \<Rightarrow> Inr ()
       | Inl e \<Rightarrow> if p2pkh_scriptsig_shape_error e then verify_bare L job i tx amount script else Inl e)"

definition verify_p2sh_kind ::
  "btc_lib \<Rightarrow> script_check_job \<Rightarrow> nat \<Rightarrow> transaction \<Rightarrow> tx_script_precompute \<Rightarrow> u64 \<Rightarrow> bytes \<Rightarrow> bool \<Rightarrow> unit consensus" where
  "verify_p2sh_kind L job i tx pre amount script has_witness =
    (if \<not> f_bip16_active (j_flags job) then verify_bare L job i tx amount script
     else
       rbind (p2sh_script_sig_stack L job i tx amount) (\<lambda>stk.
       case try_p2sh_nested_segwit L job i tx pre stk amount script of
         Some res \<Rightarrow> res
       | None \<Rightarrow>
           if f_witness_active (j_flags job) \<and> has_witness then Inl (Script ''WITNESS_UNEXPECTED'')
           else verify_p2sh_legacy L job i tx stk amount script))"

definition verify_input ::
  "btc_lib \<Rightarrow> script_check_job \<Rightarrow> nat \<Rightarrow> transaction \<Rightarrow> tx_script_precompute \<Rightarrow> u64 \<Rightarrow> bytes \<Rightarrow> unit consensus" where
  "verify_input L job i tx pre amount script =
    rbind (input_at tx i) (\<lambda>input.
    let has_witness = (ti_witness input \<noteq> []);
        legacy =
          (let kind = classify L script in
           if f_witness_active (j_flags job) \<and> has_witness \<and> \<not> (kind = P2sh \<and> f_bip16_active (j_flags job))
           then Inl (Script ''WITNESS_UNEXPECTED'')
           else
             case kind of
               P2pkh \<Rightarrow> verify_p2pkh_kind L job i tx amount script
             | P2sh \<Rightarrow> verify_p2sh_kind L job i tx pre amount script has_witness
             | _ \<Rightarrow> verify_bare L job i tx amount script)
    in if f_witness_active (j_flags job) then
         (case witness_program L script of
            Some (version, program) \<Rightarrow> verify_native_witness L job i tx pre version program amount script
          | None \<Rightarrow> legacy)
       else legacy)"

section \<open>All inputs of a job\<close>

text \<open>Decimal \<open>Display\<close> of an index.\<close>

fun dec :: "nat \<Rightarrow> string" where
  "dec n = (if n < 10 then [char_of (48 + n)] else dec (n div 10) @ [char_of (48 + n mod 10)])"

definition annotate_script_err :: "btc_lib \<Rightarrow> script_check_job \<Rightarrow> nat \<Rightarrow> consensus_error \<Rightarrow> consensus_error" where
  "annotate_script_err L job i err =
    (case err of
       Script msg \<Rightarrow>
         if contains msg ''txid='' then err
         else
           let txid = (if j_txid job \<noteq> replicate 32 0 then j_txid job
                       else lib_compute_txid L (job_transaction job))
           in Script (msg @ '' txid='' @ lib_display_txid L txid @ '' vin='' @ dec i)
     | _ \<Rightarrow> err)"

definition midstate_row :: "btc_lib \<Rightarrow> script_check_job \<Rightarrow> tx_script_precompute consensus" where
  "midstate_row L job = (if j_skip_segwit_midstates job then Inr base_sig_precompute else job_pre_row L job)"

definition verify_annotated ::
  "btc_lib \<Rightarrow> script_check_job \<Rightarrow> transaction \<Rightarrow> tx_script_precompute \<Rightarrow> nat \<Rightarrow> u64 \<Rightarrow> bytes \<Rightarrow> unit consensus" where
  "verify_annotated L job tx pre i amount script =
    map_err (annotate_script_err L job i) (verify_input L job i tx pre amount script)"

fun verify_rest ::
  "btc_lib \<Rightarrow> script_check_job \<Rightarrow> transaction \<Rightarrow> tx_script_precompute \<Rightarrow> nat list \<Rightarrow> unit consensus" where
  "verify_rest L job tx pre [] = Inr ()"
| "verify_rest L job tx pre (ii # rest) =
    rbind (prevout_parts job ii) (\<lambda>(amount, script).
    rbind (verify_annotated L job tx pre ii amount script) (\<lambda>_.
    verify_rest L job tx pre rest))"

definition verify_loaded_inputs_from ::
  "btc_lib \<Rightarrow> script_check_job \<Rightarrow> transaction \<Rightarrow> nat \<Rightarrow> u64 \<Rightarrow> bytes \<Rightarrow> nat list \<Rightarrow> unit consensus" where
  "verify_loaded_inputs_from L job tx first value0 script0 rest =
    rbind (midstate_row L job) (\<lambda>pre.
    rbind (verify_annotated L job tx pre first value0 script0) (\<lambda>_.
    verify_rest L job tx pre rest))"

definition verify_loaded_inputs :: "btc_lib \<Rightarrow> script_check_job \<Rightarrow> transaction \<Rightarrow> unit consensus" where
  "verify_loaded_inputs L job tx =
    (case job_inputs job of
       [] \<Rightarrow> Inr ()
     | first # rest \<Rightarrow>
         rbind (prevout_parts job first) (\<lambda>(value0, script0).
         verify_loaded_inputs_from L job tx first value0 script0 rest))"

definition pure_anyone_can_spend :: "transaction \<Rightarrow> nat \<Rightarrow> bytes \<Rightarrow> bool consensus" where
  "pure_anyone_can_spend tx i script =
    rbind (input_at tx i) (\<lambda>vin.
    Inr (ti_script_sig vin = [] \<and> ti_witness vin = [] \<and> is_anyone_can_spend script))"

text \<open>The scan of the remaining inputs: \<open>True\<close> when every one is pure.\<close>

fun all_pure :: "script_check_job \<Rightarrow> transaction \<Rightarrow> nat list \<Rightarrow> bool consensus" where
  "all_pure job tx [] = Inr True"
| "all_pure job tx (i # rest) =
    rbind (prevout_parts job i) (\<lambda>(_, script).
    rbind (pure_anyone_can_spend tx i script) (\<lambda>pure.
    if \<not> pure then Inr False else all_pure job tx rest))"

definition verify_job_all_inputs :: "btc_lib \<Rightarrow> script_check_job \<Rightarrow> unit consensus" where
  "verify_job_all_inputs L job =
    (let tx = job_transaction job in
     case job_inputs job of
       [] \<Rightarrow> Inr ()
     | first # rest \<Rightarrow>
         rbind (prevout_parts job first) (\<lambda>(value0, script0).
         rbind (pure_anyone_can_spend tx first script0) (\<lambda>pure.
         if \<not> pure then verify_loaded_inputs_from L job tx first value0 script0 rest
         else
           rbind (all_pure job tx rest) (\<lambda>all.
           if \<not> all then verify_loaded_inputs L job tx else Inr ()))))"

end
