(* ===== verification/NoPanic.thy ===== *)
theory NoPanic
  imports InterpProps Verify
begin

text \<open>
  Absence of unwinding. \<open>Panic\<close> stands for every out-of-range index, slice and failed \<open>expect\<close> of the
  script code; \<open>no_panic\<close> says a result is not one. The simplification rules of the collection
  \<open>panic_simps\<close> push it through the result combinators, so most operations are settled by unfolding.
\<close>

named_theorems panic_simps \<open>no_panic of the result combinators\<close>

definition no_panic :: "'a consensus \<Rightarrow> bool" where
  "no_panic r \<longleftrightarrow> (\<forall>m. r \<noteq> Inl (Panic m))"

lemma no_panic_combinators [panic_simps]:
  "no_panic (Inr a)"
  "no_panic (Inl e) \<longleftrightarrow> (\<forall>m. e \<noteq> Panic m)"
  "no_panic (rbind r f) \<longleftrightarrow> no_panic r \<and> (\<forall>a. r = Inr a \<longrightarrow> no_panic (f a))"
  "no_panic (ok_or x e) \<longleftrightarrow> x \<noteq> None \<or> (\<forall>m. e \<noteq> Panic m)"
  "no_panic (map_err from_scriptnum_error s)"
  "no_panic (if c then r else r') \<longleftrightarrow> (c \<longrightarrow> no_panic r) \<and> (\<not> c \<longrightarrow> no_panic r')"
  subgoal by (simp add: no_panic_def)
  subgoal by (simp add: no_panic_def)
  subgoal by (cases r) (auto simp: no_panic_def)
  subgoal by (cases x) (auto simp: no_panic_def)
  subgoal
  proof (cases s)
    case (Inl e)
    then show ?thesis by (cases e) (auto simp: no_panic_def)
  qed (simp add: no_panic_def)
  subgoal by simp
  done

section \<open>Interpreter operations\<close>

lemma stack_primitives_no_panic [panic_simps]:
  "no_panic (push stk alt_len v)"
  "no_panic (pop stk)"
  "no_panic (require_n stk n)"
  "no_panic (decode_i64 v rm)"
  "no_panic (script_elem_new d)"
  by (auto simp: push_def pop_def require_n_def decode_i64_def script_elem_new_def panic_simps split: list.splits)

lemma pop_num_no_panic [panic_simps]: "no_panic (pop_num stk rm)"
  by (auto simp: pop_num_def panic_simps)

lemma pop_n_no_panic [panic_simps]: "no_panic (pop_n n stk)"
  by (induction n arbitrary: stk) (auto simp: panic_simps)

lemma stack_op_no_panic: "stack_op L rm alt_len code = Some f \<Longrightarrow> no_panic (f stk)"
  by (auto simp: stack_op_def op_verify_def op_2drop_def op_2dup_def op_3dup_def op_2over_def op_2rot_def op_2swap_def
      op_ifdup_def op_depth_def op_drop_def op_dup_def op_nip_def op_over_def op_pick_def op_roll_def op_rot_def
      op_swap_def op_tuck_def op_size_def op_equal_def op_equalverify_def Let_def panic_simps split: if_splits)

lemma arith_op_no_panic: "arith_op rm alt_len code = Some f \<Longrightarrow> no_panic (f stk)"
  by (auto simp: arith_op_def unary_num_def bin_arith_def bin_cmp_def op_numequalverify_def op_within_def panic_simps
      split: if_splits)

lemma hash_op_no_panic: "hash_op L alt_len code = Some f \<Longrightarrow> no_panic (f stk)"
  by (auto simp: hash_op_def push_digest_def panic_simps split: if_splits)

section \<open>Signature checks\<close>

text \<open>
  What the code relies on. The lax DER parser accepts whatever the strict grammar accepts; the parser
  yields indices inside the script; the P2PKH template test implies 25 bytes.
\<close>

definition lax_parses_strict :: "btc_lib \<Rightarrow> bool" where
  "lax_parses_strict L \<longleftrightarrow> (\<forall>sig. is_valid_signature_encoding sig \<longrightarrow> lib_from_der_lax L (butlast sig) \<noteq> None)"

definition parser_in_range :: "btc_lib \<Rightarrow> bool" where
  "parser_in_range L \<longleftrightarrow>
    (\<forall>script i ins. Inr (i, ins) \<in> set (lib_instruction_indices L script) \<longrightarrow> i < length script)"

definition p2pkh_length :: "btc_lib \<Rightarrow> bool" where
  "p2pkh_length L \<longleftrightarrow> (\<forall>script. lib_is_p2pkh L script \<longrightarrow> length script = 25)"

definition prevouts_ok :: "script_check_job \<Rightarrow> bool" where
  "prevouts_ok job \<longleftrightarrow> (\<forall>i < length (tx_input (job_transaction job)). no_panic (prevout_parts job i))"

definition ctx_ok :: "eval_context \<Rightarrow> bool" where
  "ctx_ok ctx \<longleftrightarrow> ec_input_index ctx < length (tx_input (ec_tx ctx))
    \<and> (\<forall>e. ec_tapscript ctx = Some e \<longrightarrow>
         prevouts_ok (te_job e) \<and> te_input_index e < length (tx_input (job_transaction (te_job e))))"

definition cells_ok :: "eval_context \<Rightarrow> eval_cells \<Rightarrow> bool" where
  "cells_ok ctx cells \<longleftrightarrow> (\<forall>off. cl_codeseparator_script_off cells = Some off \<longrightarrow> off \<le> length (ec_script_code ctx))"

lemma parse_der_sig_no_panic [panic_simps]: "no_panic (parse_der_sig L sig strict)"
  by (auto simp: parse_der_sig_def panic_simps Let_def)

lemma parse_pubkey_no_panic [panic_simps]: "no_panic (parse_pubkey L raw)"
  by (auto simp: parse_pubkey_def panic_simps)

lemma check_signature_encoding_no_panic:
  assumes "lax_parses_strict L"
  shows "no_panic (check_signature_encoding L sig ctx)"
proof -
  have "\<exists>p. parse_der_sig L sig False = Inr p" if "is_valid_signature_encoding sig"
  proof -
    have "sig \<noteq> []" using that by (auto simp: is_valid_signature_encoding_def)
    then show ?thesis using that assms by (auto simp: parse_der_sig_def lax_parses_strict_def Let_def)
  qed
  then show ?thesis
    by (auto simp: check_signature_encoding_def panic_simps Let_def split: sum.splits)
qed

lemma or_false_no_panic [panic_simps]:
  "no_panic (or_false r f) \<longleftrightarrow> no_panic r \<and> (\<forall>a. r = Inr a \<longrightarrow> no_panic (f a))"
  by (cases r) (auto simp: or_false_def no_panic_def split: consensus_error.splits)

lemma bip143_no_panic:
  "i < length (tx_input tx) \<Longrightarrow> no_panic (bip143_signature_hash L tx i code amount ty pre)"
  by (simp add: bip143_signature_hash_def get_at_def panic_simps Let_def)

lemma sighash_for_script_no_panic:
  "ctx_ok ctx \<Longrightarrow> no_panic (sighash_for_script L ctx ty code ver)"
  by (auto simp: sighash_for_script_def bip143_p2wsh_signature_hash_def panic_simps ctx_ok_def
      intro: bip143_no_panic split: pre_tapscript.splits)

lemma ecdsa_sig_matches_no_panic:
  assumes "ctx_ok ctx" "lax_parses_strict L"
  shows "no_panic (ecdsa_sig_matches L sig pubkey ctx code ver)"
  using sighash_for_script_no_panic [OF assms(1)] check_signature_encoding_no_panic [OF assms(2)]
  by (auto simp: ecdsa_sig_matches_def checksig_legacy_encodings_def panic_simps)

lemma legacy_script_code_no_panic: "no_panic (legacy_script_code script sigs)"
proof -
  have "no_panic (encode_sigs sigs)" by (induction sigs) (auto simp: panic_simps)
  then show ?thesis by (auto simp: legacy_script_code_def panic_simps)
qed

lemma prepare_script_code_no_panic: "cells_ok ctx cells \<Longrightarrow> no_panic (prepare_script_code ctx cells sigs ver)"
  using legacy_script_code_no_panic
  by (auto simp: prepare_script_code_def script_code_bytes_def cells_ok_def panic_simps split: option.splits)

lemma checksig_legacy_no_panic:
  "ctx_ok ctx \<Longrightarrow> cells_ok ctx cells \<Longrightarrow> lax_parses_strict L \<Longrightarrow> no_panic (checksig_legacy L sig pubkey ctx cells ver)"
  by (auto simp: checksig_legacy_def panic_simps prepare_script_code_no_panic ecdsa_sig_matches_no_panic)

lemma multisig_walk_no_panic:
  "(\<And>s k. no_panic (matches s k)) \<Longrightarrow> length sigs \<le> length keys \<Longrightarrow> no_panic (multisig_walk matches sigs keys)"
  by (induction matches sigs keys rule: multisig_walk.induct) (auto simp: panic_simps Let_def)

lemma op_checkmultisig_no_panic:
  assumes "ctx_ok ctx" "cells_ok ctx cells" "lax_parses_strict L"
  shows "no_panic (op_checkmultisig L stk alt_len ctx cells verify op_count ver)"
  using prepare_script_code_no_panic [OF assms(2)] multisig_walk_no_panic [OF ecdsa_sig_matches_no_panic [OF assms(1,3)]]
  by (auto simp: op_checkmultisig_def checkmultisig_pairs_def result_simps panic_simps Let_def nat_mono)

lemma job_pre_row_no_panic [panic_simps]: "no_panic (job_pre_row L job)"
  by (auto simp: job_pre_row_def panic_simps split: job_pre.splits)

lemma first_prevout_error_no_panic:
  assumes "\<And>i. i \<in> set is \<Longrightarrow> no_panic (prevout_parts job i)" "first_prevout_error job is = Some e"
  shows "\<forall>m. e \<noteq> Panic m"
  using assms
proof (induction "is")
  case (Cons i "is")
  show ?case
  proof (cases "prevout_parts job i")
    case (Inl e')
    then show ?thesis using Cons.prems(1) [of i] Cons.prems(2) by (simp add: panic_simps)
  next
    case (Inr a)
    then show ?thesis using Cons by simp
  qed
qed simp

lemma tap_spent_hashes_no_panic:
  assumes "prevouts_ok job"
  shows "no_panic (tap_spent_hashes L job)"
proof -
  have "no_panic (prevout_parts job i)" if "i \<in> set (job_inputs job)" for i
    using that assms by (simp add: prevouts_ok_def job_inputs_def)
  then have "\<forall>m. e \<noteq> Panic m" if "first_prevout_error job (job_inputs job) = Some e" for e
    using first_prevout_error_no_panic that by blast
  then show ?thesis
    by (auto simp: tap_spent_hashes_def finish_spent_parts_def panic_simps Let_def split: option.splits prod.splits if_splits)
qed

lemma tap_signature_hash_no_panic:
  assumes "prevouts_ok job" "i < length (tx_input (job_transaction job))"
  shows "no_panic (tap_signature_hash L job i ty annex leaf v script)"
  using assms(2) tap_spent_hashes_no_panic [OF assms(1)]
  by (auto simp: tap_signature_hash_def get_at_def panic_simps Let_def)

lemma checksig_schnorr_no_panic:
  assumes "ctx_ok ctx"
  shows "no_panic (checksig_schnorr L sig pubkey ctx cells)"
proof -
  have "no_panic (tapscript_signature_hash L e ty pos)" if "ec_tapscript ctx = Some e" for e ty pos
    using that assms tap_signature_hash_no_panic by (simp add: ctx_ok_def tapscript_signature_hash_def)
  then show ?thesis by (auto simp: checksig_schnorr_def panic_simps Let_def result_simps)
qed

lemma tapscript_sig_result_no_panic:
  "ctx_ok ctx \<Longrightarrow> no_panic (tapscript_sig_result L sig pubkey ctx cells)"
  by (auto simp: tapscript_sig_result_def panic_simps Let_def intro: checksig_schnorr_no_panic)

lemma op_checksig_no_panic:
  assumes "ctx_ok ctx" "cells_ok ctx cells" "lax_parses_strict L"
  shows "no_panic (op_checksig L stk alt_len ctx cells verify)"
  using checksig_legacy_no_panic [OF assms] tapscript_sig_result_no_panic [OF assms(1)]
  by (auto simp: op_checksig_def op_checksig_tapscript_def panic_simps split: option.splits tap_sig_result.splits)

lemma op_checksigadd_no_panic:
  "ctx_ok ctx \<Longrightarrow> no_panic (op_checksigadd L stk alt_len ctx cells)"
  by (auto simp: op_checksigadd_def panic_simps tapscript_sig_result_no_panic)

lemma locktime_ops_no_panic:
  assumes "ctx_ok ctx"
  shows "no_panic (op_cltv L stk ctx)" "no_panic (op_csv stk ctx)"
  using assms
  by (auto simp: op_cltv_def op_csv_def top_locktime_def input_sequence_def ctx_ok_def get_at_def panic_simps Let_def)

section \<open>Whole scripts\<close>

lemma exec_op_no_panic:
  assumes ok: "ctx_ok ctx" "cells_ok ctx (st_cells st)" "lax_parses_strict L"
  shows "no_panic (exec_op L ctx code this_pos byte_index st)"
proof -
  note ops = op_checksig_no_panic [OF ok] op_checkmultisig_no_panic [OF ok] op_checksigadd_no_panic [OF ok(1)]
    locktime_ops_no_panic [OF ok(1)]
  let ?alt = "length (st_altstack st)"
  show ?thesis
  proof (cases "stack_op L (ec_minimal_data ctx) ?alt code")
    case (Some f)
    then show ?thesis using stack_op_no_panic [OF Some] by (simp add: exec_op_def panic_simps)
  next
    case stack: None
    show ?thesis
    proof (cases "arith_op (ec_minimal_data ctx) ?alt code")
      case (Some f)
      then show ?thesis using stack arith_op_no_panic [OF Some] by (simp add: exec_op_def panic_simps)
    next
      case arith: None
      show ?thesis
      proof (cases "hash_op L ?alt code")
        case (Some f)
        then show ?thesis using stack arith hash_op_no_panic [OF Some] by (simp add: exec_op_def panic_simps)
      next
        case None
        then show ?thesis
          using stack arith ops by (auto simp: exec_op_def panic_simps Let_def split: list.splits option.splits)
      qed
    qed
  qed
qed

lemma eval_instr_no_panic:
  assumes "ctx_ok ctx" "cells_ok ctx (st_cells st)" "lax_parses_strict L"
  shows "no_panic (eval_instr L ctx script item st)"
proof -
  have count: "no_panic (count_op ctx code s)" for code s by (auto simp: count_op_def panic_simps Let_def)
  have keep: "cells_ok ctx (st_cells s')"
    if "count_op ctx code (st\<lparr>st_opcode_pos := p\<rparr>) = Inr s'" for code p s'
    using that assms(2) by (auto simp: result_simps split: if_splits)
  obtain byte_index ins where item: "item = (byte_index, ins)" by force
  show ?thesis
    using count exec_op_no_panic [OF assms(1) keep assms(3)]
    by (cases ins) (auto simp: item eval_instr_def eval_push_def eval_opcode_def eval_if_def always_checks_def
        panic_simps Let_def)
qed

lemma eval_instr_cells_ok:
  assumes "eval_instr L ctx script (i, ins) st = Inr st'" "cells_ok ctx (st_cells st)"
    and "i < length script" "ec_script_code ctx = script"
  shows "cells_ok ctx (st_cells st')"
  using assms(1)
proof (cases rule: eval_instr_cases)
  case (exec code st2)
  have "st_cells st2 = st_cells st" using exec(2) by (auto simp: result_simps split: if_splits)
  then show ?thesis using exec_op_cells [OF exec(6)] assms by (auto simp: cells_ok_def weight_step_def)
qed (use assms in \<open>auto simp: cells_ok_def result_simps split: if_splits\<close>)

lemma eval_script_no_panic:
  assumes lib: "lax_parses_strict L" "parser_in_range L"
    and ctx: "ctx_ok ctx" "ec_script_code ctx = script" "cl_codeseparator_script_off cells = None"
  shows "no_panic (eval_script L script stk ctx cells)"
proof -
  let ?items = "lib_instruction_indices L script"
  have "eval_items L ctx script ?items (init_state stk cells) \<noteq> Inl (Panic m)" for m
  proof (rule run.run_no_panic [where P = "\<lambda>st. cells_ok ctx (st_cells st)" and ?items0.0 = ?items])
    show "cells_ok ctx (st_cells s')"
      if "cells_ok ctx (st_cells s)" "Inr item \<in> set ?items" "eval_instr L ctx script item s = Inr s'" for item s s'
    proof -
      obtain i ins where item: "item = (i, ins)" by force
      have "i < length script" using that(2) lib(2) unfolding parser_in_range_def item by blast
      then show ?thesis using eval_instr_cells_ok [OF that(3) [unfolded item] that(1) _ ctx(2)] by simp
    qed
    show "eval_instr L ctx script item s \<noteq> Inl (Panic m)" if "cells_ok ctx (st_cells s)" for item s m
      using eval_instr_no_panic [OF ctx(1) that lib(1)] by (simp add: no_panic_def)
  qed (use ctx(3) in \<open>simp_all add: init_state_def cells_ok_def\<close>)
  then have "no_panic (eval_items L ctx script ?items (init_state stk cells))" by (simp add: no_panic_def)
  then show ?thesis by (auto simp: eval_script_def panic_simps Let_def)
qed

section \<open>Input verification\<close>

definition lib_ok :: "btc_lib \<Rightarrow> bool" where
  "lib_ok L \<longleftrightarrow> lax_parses_strict L \<and> parser_in_range L \<and> p2pkh_length L"

lemma from_job_ok:
  assumes "from_job L job tx i amount script version = Inr ctx"
  shows "ec_tx ctx = tx" "ec_input_index ctx = i" "ec_script_code ctx = script" "ec_sig_version ctx = version"
    "ec_tapscript ctx = None"
  using assms by (auto simp: from_job_def apply_job_flags_def from_eval_parts_def result_simps Let_def split: if_splits)

lemma from_job_no_panic [panic_simps]: "no_panic (from_job L job tx i amount script version)"
  by (auto simp: from_job_def panic_simps Let_def)

lemma final_checks_no_panic [panic_simps]:
  "no_panic (require_clean_true L stk)"
  "no_panic (require_true_top L stk)"
  "no_panic (final_check L job stk)"
  by (auto simp: require_clean_true_def require_true_top_def final_check_def panic_simps)

lemma input_at_no_panic: "i < length (tx_input tx) \<Longrightarrow> no_panic (input_at tx i)"
  by (simp add: input_at_def get_at_def panic_simps)

lemma run_script_no_panic:
  assumes "lib_ok L" "i < length (tx_input tx)"
  shows "no_panic (run_script L job tx i amount script version stk)"
proof -
  have "no_panic (eval_script L script stk ctx (init_cells L ctx))"
    if "from_job L job tx i amount script version = Inr ctx" for ctx
    by (rule eval_script_no_panic)
      (use assms from_job_ok [OF that] in \<open>auto simp: lib_ok_def ctx_ok_def init_cells_def\<close>)
  then show ?thesis by (auto simp: run_script_def panic_simps)
qed

lemma verify_bare_no_panic:
  assumes "lib_ok L" "i < length (tx_input tx)"
  shows "no_panic (verify_bare L job i tx amount script)"
  using run_script_no_panic [OF assms] input_at_no_panic [OF assms(2)]
  by (auto simp: verify_bare_def panic_simps Let_def)

lemma two_pushes_no_panic: "no_panic (two_pushes items sig pubkey)"
  by (induction items sig pubkey rule: two_pushes.induct) (auto simp: panic_simps)

lemma p2pkh_verify_no_panic:
  "i < length (tx_input tx) \<Longrightarrow> length spk = 25 \<Longrightarrow> no_panic (p2pkh_verify L job i tx spk)"
  using two_pushes_no_panic input_at_no_panic [of i tx]
  by (auto simp: p2pkh_verify_def parse_two_pushes_def panic_simps Let_def split: option.splits)

lemma witness_v0_no_panic:
  assumes "lib_ok L" "i < length (tx_input tx)"
  shows "no_panic (execute_witness_v0 L job i tx script items amount)"
    "no_panic (p2wsh_verify_with_scripthash L job i tx hash amount)"
    "no_panic (p2wpkh_verify_interpreted L job i tx hash amount)"
    "length spk = 34 \<Longrightarrow> no_panic (p2wsh_verify L job i tx spk amount)"
  using run_script_no_panic [OF assms] input_at_no_panic [OF assms(2)]
  by (auto simp: execute_witness_v0_def p2wsh_verify_with_scripthash_def p2wsh_verify_def
      p2wpkh_verify_interpreted_def panic_simps Let_def)

lemma p2wpkh_no_panic:
  assumes "i < length (tx_input tx)"
  shows "no_panic (p2wpkh_verify_with_keyhash L job i tx hash program pre amount)"
    "no_panic (p2wpkh_verify L job i tx pre spk amount)"
proof -
  have "no_panic (p2wpkh_verify_loaded L job i tx hash program pre amount sig pk)" for hash program sig pk
    using bip143_no_panic [OF assms]
    by (auto simp: p2wpkh_verify_loaded_def check_element_sizes_def bip143_p2wpkh_signature_hash_def panic_simps)
  moreover have "no_panic (witness_pair input)" for input
    by (auto simp: witness_pair_def panic_simps split: list.splits)
  ultimately show "no_panic (p2wpkh_verify_with_keyhash L job i tx hash program pre amount)"
    "no_panic (p2wpkh_verify L job i tx pre spk amount)"
    using input_at_no_panic [OF assms] by (auto simp: p2wpkh_verify_with_keyhash_def p2wpkh_verify_def panic_simps)
qed

lemma verify_control_commitment_no_panic [panic_simps]:
  "no_panic (verify_control_commitment L control output_key script)"
  by (auto simp: verify_control_commitment_def panic_simps Let_def)

lemma p2tr_no_panic:
  assumes "lib_ok L" "i < length (tx_input tx)" "prevouts_ok job" "job_transaction job = tx" "length spk = 34"
  shows "no_panic (p2tr_verify L job i tx amount spk)"
proof -
  note inp = input_at_no_panic [OF assms(2)]
  have "no_panic (p2tr_verify_key_path L job i tx key amount spk)" for key
    using inp tap_signature_hash_no_panic [OF assms(3), of i] assms(2,4)
    by (auto simp: p2tr_verify_key_path_def panic_simps)
  moreover have ev: "no_panic (eval_script L script stk (with_tapscript ctx (tapscript_exec_new L job i h amount spk annex))
      (init_cells L (with_tapscript ctx (tapscript_exec_new L job i h amount spk annex))))"
    if "from_job L job tx i amount script TapScript = Inr ctx" for script stk ctx h annex
    by (rule eval_script_no_panic)
      (use assms from_job_ok [OF that] in
        \<open>auto simp: lib_ok_def ctx_ok_def init_cells_def with_tapscript_def tapscript_exec_new_def\<close>)
  have "no_panic (p2tr_verify_script_path L job i tx key amount spk)" for key
    using inp ev by (auto simp: p2tr_verify_script_path_def panic_simps Let_def)
  ultimately show ?thesis using inp assms(5) by (auto simp: p2tr_verify_def panic_simps Let_def)
qed

lemma p2sh_no_panic:
  assumes "lib_ok L" "i < length (tx_input tx)"
  shows "no_panic (verify_p2sh_kind L job i tx pre amount script has_witness)"
proof -
  have redeem: "no_panic (check_p2sh_redeem_hash L spk r)" for spk r
    by (auto simp: check_p2sh_redeem_hash_def panic_simps)
  have "no_panic (verify_p2sh_legacy L job i tx stk amount script)" for stk
    using redeem run_script_no_panic [OF assms] by (auto simp: verify_p2sh_legacy_def panic_simps split: list.splits)
  moreover have "no_panic (p2sh_script_sig_stack L job i tx amount)"
    using input_at_no_panic [OF assms(2)] run_script_no_panic [OF assms]
    by (auto simp: p2sh_script_sig_stack_def require_room_for_p2sh_hash_push_def panic_simps Let_def)
  moreover have "no_panic res" if "try_p2sh_nested_segwit L job i tx pre stk amount script = Some res" for stk res
    using that assms(2) redeem witness_v0_no_panic(2,3) [OF assms] p2wpkh_no_panic(1) [OF assms(2)]
    by (auto simp: try_p2sh_nested_segwit_def get_at_def panic_simps split: if_splits list.splits option.splits)
  ultimately show ?thesis
    using verify_bare_no_panic [OF assms] by (auto simp: verify_p2sh_kind_def panic_simps split: option.splits)
qed

lemma verify_input_no_panic:
  assumes "lib_ok L" "i < length (tx_input tx)" "prevouts_ok job" "job_transaction job = tx"
  shows "no_panic (verify_input L job i tx pre amount script)"
proof -
  note ops = verify_bare_no_panic [OF assms(1,2)] p2sh_no_panic [OF assms(1,2)] input_at_no_panic [OF assms(2)]
  have native: "no_panic (verify_native_witness L job i tx pre version program amount script)"
    if "witness_program L script = Some (version, program)" for version program
  proof -
    have "program = drop 2 script" using that by (auto simp: witness_program_def split: option.splits)
    then have "length program = 32 \<Longrightarrow> length script = 34" by simp
    then show ?thesis
      using ops(3) witness_v0_no_panic [OF assms(1,2)] p2wpkh_no_panic [OF assms(2)] p2tr_no_panic [OF assms]
      by (auto simp: verify_native_witness_def panic_simps)
  qed
  have "no_panic (verify_p2pkh_kind L job i tx amount script)" if "classify L script = P2pkh"
  proof -
    have "length script = 25"
      using that assms(1) by (auto simp: classify_def lib_ok_def p2pkh_length_def split: if_splits)
    then show ?thesis
      using ops(1) p2pkh_verify_no_panic [OF assms(2), of script L job]
      by (auto simp: verify_p2pkh_kind_def panic_simps split: sum.splits)
  qed
  then show ?thesis
    using ops native by (auto simp: verify_input_def panic_simps Let_def split: option.splits script_kind.splits)
qed

lemma no_panic_annotate [panic_simps]: "no_panic (map_err (annotate_script_err L job i) r) \<longleftrightarrow> no_panic r"
proof (cases r)
  case (Inl e)
  then show ?thesis by (cases e) (auto simp: annotate_script_err_def panic_simps Let_def)
qed (simp add: panic_simps)

lemma verify_job_no_panic:
  assumes "lib_ok L" "prevouts_ok job"
  shows "no_panic (verify_job_all_inputs L job)"
proof -
  let ?tx = "job_transaction job"
  have inputs: "i \<in> set (job_inputs job) \<Longrightarrow> i < length (tx_input ?tx)" for i by (simp add: job_inputs_def)
  have parts: "i \<in> set (job_inputs job) \<Longrightarrow> no_panic (prevout_parts job i)" for i
    using assms(2) inputs by (simp add: prevouts_ok_def)
  have inp: "i \<in> set (job_inputs job) \<Longrightarrow> no_panic (verify_annotated L job ?tx pre i amount script)" for i pre amount script
    using verify_input_no_panic [OF assms(1) inputs assms(2)] by (simp add: verify_annotated_def panic_simps)
  have rest: "no_panic (verify_rest L job ?tx pre is)" if "set is \<subseteq> set (job_inputs job)" for "is" pre
    using that by (induction "is") (auto simp: panic_simps parts inp)
  have pure: "no_panic (pure_anyone_can_spend ?tx i script)" if "i \<in> set (job_inputs job)" for i script
    using input_at_no_panic [OF inputs [OF that]] by (auto simp: pure_anyone_can_spend_def panic_simps)
  have all: "no_panic (all_pure job ?tx is)" if "set is \<subseteq> set (job_inputs job)" for "is"
    using that by (induction "is") (auto simp: panic_simps parts pure)
  have mid: "no_panic (midstate_row L job)" by (simp add: midstate_row_def panic_simps)
  show ?thesis
  proof (cases "job_inputs job")
    case Nil
    then show ?thesis by (simp add: verify_job_all_inputs_def panic_simps)
  next
    case (Cons i "is")
    then have sub: "set is \<subseteq> set (job_inputs job)" by auto
    show ?thesis
      using Cons parts [of i] pure [of i] inp [of i] rest [OF sub] all [OF sub] mid
      by (auto simp: verify_job_all_inputs_def verify_loaded_inputs_def verify_loaded_inputs_from_def
          panic_simps Let_def)
  qed
qed

section \<open>Properties\<close>

lemma sample_parse_range:
  "Inr (j, ins) \<in> set (sample_parse i script) \<Longrightarrow> j < i + length script"
proof (induction i script rule: sample_parse.induct)
  case (1 i script)
  show ?case
  proof (cases script)
    case Nil
    then show ?thesis using 1(3) by simp
  next
    case (Cons op rest)
    then show ?thesis using 1 by (fastforce split: if_splits)
  qed
qed

lemma sample_lib_ok: "lib_ok sample_lib"
  using sample_parse_range [of _ _ 0]
  by (auto simp: lib_ok_def lax_parses_strict_def parser_in_range_def p2pkh_length_def)



end
