(* ===== verification/VerifyProps.thy ===== *)
theory VerifyProps
  imports NoPanic
begin

text \<open>
  Properties of input verification: the typed P2PKH and P2WPKH paths accept exactly the spends the
  interpreter accepts, the anyone-can-spend shortcut is transparent, and a P2SH or P2WSH spend commits to
  the script it runs. The named predicates are the documented behaviour of the script parser and of the
  template tests that these rely on.
\<close>

section \<open>The pay-to-key-hash template\<close>

definition template :: "bytes \<Rightarrow> bytes" where
  "template kh = P2PKH_PREFIX @ kh @ P2PKH_SUFFIX"

definition parses_template :: "btc_lib \<Rightarrow> bool" where
  "parses_template L \<longleftrightarrow> (\<forall>kh. length kh = 20 \<longrightarrow>
     lib_instruction_indices L (template kh) =
       [Inr (0, Op 0x76), Inr (1, Op 0xA9), Inr (2, PushBytes kh), Inr (23, Op 0x88), Inr (24, Op 0xAC)])"

definition bool_values :: "btc_lib \<Rightarrow> bool" where
  "bool_values L \<longleftrightarrow> read_scriptbool L [1] \<and> \<not> read_scriptbool L []"

lemma length_template: "length (template kh) = length kh + 5"
  by (simp add: template_def P2PKH_PREFIX_def P2PKH_SUFFIX_def)

lemma template_push_byte: "length kh = 20 \<Longrightarrow> get_at (template kh) 2 = Some 0x14"
  by (simp add: template_def P2PKH_PREFIX_def get_at_def)

lemma template_eval:
  assumes "parses_template L" "length kh = 20"
    and ver: "from_sig_version (ec_sig_version ctx) = Some ver"
  shows "eval_script L (template kh) [pk, sig] ctx cells =
    (if lib_hash160 L pk \<noteq> kh then Inl (Script ''OP_EQUALVERIFY'')
     else rbind (checksig_legacy L sig pk ctx cells ver) (\<lambda>ok. Inr (True, [bool_encode ok], cells)))"
proof -
  have tap: "ec_sig_version ctx \<noteq> TapScript" using ver by auto
  have items: "lib_instruction_indices L (template kh) =
      [Inr (0, Op 0x76), Inr (1, Op 0xA9), Inr (2, PushBytes kh), Inr (23, Op 0x88), Inr (24, Op 0xAC)]"
    using assms(1,2) by (simp add: parses_template_def)
  have mini: "check_minimal_push kh 0x14" using assms(2) by (auto simp: check_minimal_push_def)
  have size: "\<not> MAX_SCRIPT_SIZE_LEGACY < length (template kh)"
    using assms(2) by (simp add: length_template MAX_SCRIPT_SIZE_LEGACY_def)
  show ?thesis
    unfolding eval_script_def Let_def items
    using tap ver assms(2) size mini template_push_byte [OF assms(2)]
    by (cases "checksig_legacy L sig pk ctx cells ver")
      (simp_all add: init_state_def cs_default_def cs_is_empty_def cs_all_true_def eval_instr_def eval_push_def
        eval_opcode_def count_op_def always_checks_def is_disabled_legacy_def exec_op_def stack_op_def arith_op_def
        hash_op_def push_def pop_def require_n_def script_elem_new_def op_dup_def push_digest_def op_equalverify_def
        op_checksig_def MAX_STACK_SIZE_def MAX_SCRIPT_ELEMENT_SIZE_def MAX_OPS_LEGACY_def Let_def)
qed

lemma or_false_True [result_simps]: "or_false r f = Inr True \<longleftrightarrow> (\<exists>a. r = Inr a \<and> f a = Inr True)"
  by (cases r) (auto simp: or_false_def split: consensus_error.splits)

lemma parse_der_sig_strict:
  "parse_der_sig L sig strict = Inr r \<longleftrightarrow> (strict \<longrightarrow> is_valid_signature_encoding sig) \<and> parse_der_sig L sig False = Inr r"
  by (auto simp: parse_der_sig_def Let_def)

text \<open>The acceptance condition the typed paths and the interpreter share.\<close>

definition sig_accepted :: "btc_lib \<Rightarrow> bool \<Rightarrow> (u32 \<Rightarrow> bytes consensus) \<Rightarrow> bytes \<Rightarrow> bytes \<Rightarrow> bool" where
  "sig_accepted L strict sighash sig pk \<longleftrightarrow>
    (\<exists>ecdsa ty key h. parse_der_sig L sig strict = Inr (ecdsa, ty) \<and> parse_pubkey L pk = Inr key
       \<and> sighash ty = Inr h \<and> verify_ecdsa L h ecdsa key)"

lemma ecdsa_sig_matches_accepts:
  assumes "\<not> ec_low_s ctx" "\<not> ec_strictenc ctx"
  shows "ecdsa_sig_matches L sig pk ctx code ver = Inr True \<longleftrightarrow>
    \<not> (ec_witness_pubkeytype ctx \<and> ver = PreWitnessV0 \<and> \<not> is_compressed_pubkey pk)
    \<and> sig_accepted L (ec_bip66_active ctx) (\<lambda>ty. sighash_for_script L ctx ty code ver) sig pk"
proof -
  have ne: "parse_der_sig L [] strict \<noteq> Inr r" for strict r by (simp add: parse_der_sig_def)
  show ?thesis
  proof (cases "sig = []")
    case True
    then show ?thesis using ne by (auto simp: ecdsa_sig_matches_def sig_accepted_def result_simps)
  next
    case False
    then show ?thesis
      using assms parse_der_sig_strict [of L sig "ec_bip66_active ctx"]
      by (auto simp: ecdsa_sig_matches_def checksig_legacy_encodings_def check_signature_encoding_def
          sig_accepted_def result_simps Let_def)
  qed
qed

lemma from_job_flags:
  assumes "from_job L job tx i amount script version = Inr ctx" "\<not> needs_interpreted_ecdsa job"
  shows "\<not> ec_low_s ctx" "\<not> ec_strictenc ctx" "\<not> ec_nullfail ctx"
    "ec_bip66_active ctx = f_bip66_active (j_flags job)"
    "ec_witness_pubkeytype ctx = f_witness_pubkeytype (j_flags job)"
    "ec_const_scriptcode ctx = f_const_scriptcode (j_flags job)"
    "ec_minimal_data ctx = f_minimal_data (j_flags job)"
    "ec_tx ctx = tx" "ec_input_index ctx = i" "ec_amount ctx = amount" "ec_script_code ctx = script"
    "ec_sig_version ctx = version" "version \<noteq> Base \<Longrightarrow> job_pre_row L job = Inr (ec_pre ctx)"
  using assms
  by (auto simp: from_job_def apply_job_flags_def from_eval_parts_def needs_interpreted_ecdsa_def result_simps
      Let_def split: if_splits)

lemma from_job_base: "\<exists>ctx. from_job L job tx i amount script Base = Inr ctx"
  by (simp add: from_job_def Let_def)

text \<open>Running the template on a signature and a key, then requiring a true top.\<close>

lemma run_template:
  assumes "parses_template L" "length kh = 20" "\<not> needs_interpreted_ecdsa job"
    and ctx: "from_job L job tx i amount (template kh) version = Inr ctx" "from_sig_version version = Some ver"
  shows "(\<exists>stk. run_script L job tx i amount (template kh) version [pk, sig] = Inr stk \<and> P stk)
    \<longleftrightarrow> lib_hash160 L pk = kh
      \<and> (\<exists>ok. checksig_legacy L sig pk ctx (init_cells L ctx) ver = Inr ok \<and> P [bool_encode ok])"
  using template_eval [OF assms(1,2), of ctx ver pk sig "init_cells L ctx"] ctx from_job_flags(12) [OF ctx(1) assms(3)]
  by (auto simp: run_script_def result_simps)

section \<open>P2PKH: the typed path is the interpreter\<close>

lemma chunks_template:
  assumes "length kh = 20"
  shows "chunks (template kh) = [[0x76], [0xA9], 0x14 # kh, [0x88], [0xAC]]"
proof -
  have "insn_len (0x14 # kh @ [0x88, 0xAC]) = Some 21"
    using insn_len_direct [of "0x14" "kh @ [0x88, 0xAC]"] assms by simp
  moreover have "insn_len (b # xs) = Some 1" if "b \<in> {0x76, 0xA9, 0x88, 0xAC}" for b xs
    using that by (intro insn_len_other) auto
  ultimately show ?thesis
    using assms by (simp add: template_def P2PKH_PREFIX_def P2PKH_SUFFIX_def chunks.simps)
qed

lemma encode_push_chunk:
  assumes "length kh = 20" "length sig \<le> 520"
  shows "encode_push [] sig = 0x14 # kh \<longleftrightarrow> sig = kh" "b \<noteq> 0 \<Longrightarrow> encode_push [] sig \<noteq> [b]"
proof -
  show "encode_push [] sig = 0x14 # kh \<longleftrightarrow> sig = kh"
    using assms by (auto simp: encode_push_def Let_def)
  show "encode_push [] sig \<noteq> [b]" if "b \<noteq> 0"
    using that by (cases sig) (auto simp: encode_push_def Let_def)
qed

lemma template_script_code:
  assumes "length kh = 20" "length sig \<le> 520"
  shows "\<exists>del. legacy_script_code (template kh) [sig] = Inr (sighash_script_code (template kh) sig, del)"
proof -
  obtain code del where run: "legacy_script_code (template kh) [sig] = Inr (code, del)"
    using legacy_script_code_total [of "[sig]" "template kh"] assms(2) by (auto simp: is_ok_iff)
  have kh: "take 20 (drop 3 (template kh)) = kh"
    using assms(1) by (simp add: template_def P2PKH_PREFIX_def)
  have "code = concat (filter (\<lambda>c. c \<noteq> encode_push [] sig \<and> c \<noteq> [OP_CODESEPARATOR]) [[0x76], [0xA9], 0x14 # kh, [0x88], [0xAC]])"
    using legacy_script_code_eq [OF run] chunks_template [OF assms(1)] by simp
  also have "\<dots> = sighash_script_code (template kh) sig"
    using encode_push_chunk [OF assms] assms(1) kh
    by (auto simp: sighash_script_code_def length_template P2PKH_SCRIPT_CODE_KEYHASH_REMOVED_def template_def
        P2PKH_PREFIX_def P2PKH_SUFFIX_def eq_commute [of _ "encode_push [] sig"])
  finally show ?thesis using run by blast
qed

definition instructions_agree :: "btc_lib \<Rightarrow> bool" where
  "instructions_agree L \<longleftrightarrow>
    (\<forall>script. lib_instructions L script = map (map_sum id snd) (lib_instruction_indices L script))"

text \<open>A parsed script is no longer than its instructions: at most five bytes precede the data of a push.\<close>

definition max_width :: "nat \<times> instruction \<Rightarrow> nat" where
  "max_width item = (case snd item of PushBytes b \<Rightarrow> length b + 5 | Op _ \<Rightarrow> 1)"

definition parse_covers :: "btc_lib \<Rightarrow> bool" where
  "parse_covers L \<longleftrightarrow>
    (\<forall>script is. lib_instruction_indices L script = map Inr is \<longrightarrow> length script \<le> sum_list (map max_width is))"

lemma two_pushes_full: "two_pushes items (Some s) (Some k) = Inr r \<longleftrightarrow> items = [] \<and> r = (Some s, Some k)"
  by (cases items rule: list.exhaust; cases "hd items"; cases "projr (hd items)") auto

lemma two_pushes_one:
  "two_pushes items (Some s) None = Inr (Some sig, Some pk) \<longleftrightarrow>
    sig = s \<and> items = [Inr (PushBytes pk)] \<and> length pk \<le> 520"
proof (cases items)
  case (Cons x xs)
  show ?thesis
  proof (cases x)
    case (Inr ins)
    then show ?thesis using Cons by (cases ins) (auto simp: two_pushes_full MAX_SCRIPT_ELEMENT_SIZE_def)
  qed (use Cons in auto)
qed auto

lemma two_pushes_ok:
  "two_pushes items None None = Inr (Some sig, Some pk) \<longleftrightarrow>
    items = [Inr (PushBytes sig), Inr (PushBytes pk)] \<and> length sig \<le> 520 \<and> length pk \<le> 520"
proof (cases items)
  case (Cons x xs)
  show ?thesis
  proof (cases x)
    case (Inr ins)
    then show ?thesis using Cons by (cases ins) (auto simp: two_pushes_one MAX_SCRIPT_ELEMENT_SIZE_def)
  qed (use Cons in auto)
qed auto

lemma parse_two_pushes_ok:
  assumes "instructions_agree L"
  shows "parse_two_pushes L script = Inr (sig, pk) \<longleftrightarrow>
    (\<exists>i j. lib_instruction_indices L script = [Inr (i, PushBytes sig), Inr (j, PushBytes pk)])
    \<and> length sig \<le> 520 \<and> length pk \<le> 520"
proof -
  have map_Inr: "map_sum id snd x = Inr ins \<longleftrightarrow> (\<exists>i. x = Inr (i, ins))" for x :: "unit + nat \<times> instruction" and ins
    by (cases x) auto
  have "parse_two_pushes L script = Inr (sig, pk) \<longleftrightarrow>
      two_pushes (lib_instructions L script) None None = Inr (Some sig, Some pk)"
    by (auto simp: parse_two_pushes_def result_simps split: option.splits)
  then show ?thesis
    using assms by (auto simp: two_pushes_ok instructions_agree_def map_eq_Cons_conv map_Inr)
qed

lemma eval_two_pushes:
  assumes "lib_instruction_indices L script = [Inr (i, PushBytes sig), Inr (j, PushBytes pk)]"
    and "length sig \<le> 520" "length pk \<le> 520" "parse_covers L" "\<not> ec_minimal_data ctx" "ec_sig_version ctx = Base"
  shows "eval_script L script [] ctx cells = Inr (True, [pk, sig], cells)"
proof -
  have "lib_instruction_indices L script = map Inr [(i, PushBytes sig), (j, PushBytes pk)]" using assms(1) by simp
  then have "length script \<le> sum_list (map max_width [(i, PushBytes sig), (j, PushBytes pk)])"
    using assms(4) unfolding parse_covers_def by blast
  then have "\<not> 10000 < length script" using assms(2,3) by (simp add: max_width_def)
  then show ?thesis
    using assms
    by (simp add: eval_script_def Let_def init_state_def cs_default_def cs_is_empty_def cs_all_true_def eval_instr_def
        eval_push_def push_def script_elem_new_def MAX_STACK_SIZE_def MAX_SCRIPT_ELEMENT_SIZE_def
        MAX_SCRIPT_SIZE_LEGACY_def)
qed

lemma final_check_bool:
  "bool_values L \<Longrightarrow> is_ok (final_check L job [bool_encode ok]) \<longleftrightarrow> ok"
  by (auto simp: final_check_def require_clean_true_def require_true_top_def bool_encode_def bool_values_def)

lemma checksig_base_template:
  assumes "from_job L job tx i amount (template kh) Base = Inr ctx" "\<not> needs_interpreted_ecdsa job"
    and "\<not> f_const_scriptcode (j_flags job)" "length kh = 20" "length sig \<le> 520"
  shows "checksig_legacy L sig pk ctx (init_cells L ctx) PreBase = Inr True \<longleftrightarrow>
    sig_accepted L (f_bip66_active (j_flags job))
      (\<lambda>ty. ok_or (lib_legacy_signature_hash L tx i (sighash_script_code (template kh) sig) ty) (Script ''legacy sighash''))
      sig pk"
proof -
  note fl = from_job_flags [OF assms(1,2)]
  have "prepare_script_code ctx (init_cells L ctx) [sig] PreBase = Inr (sighash_script_code (template kh) sig)"
    using template_script_code [OF assms(4,5)] fl assms(3)
    by (auto simp: prepare_script_code_def script_code_bytes_def init_cells_def)
  then show ?thesis
    using ecdsa_sig_matches_accepts [OF fl(1,2), of L sig pk "sighash_script_code (template kh) sig" PreBase] fl
    by (auto simp: checksig_legacy_def result_simps sighash_for_script_def)
qed

lemma p2pkh_verify_accepts:
  assumes "input_at tx i = Inr input" "parse_two_pushes L (ti_script_sig input) = Inr (sig, pk)" "length kh = 20"
  shows "is_ok (p2pkh_verify L job i tx (template kh)) \<longleftrightarrow>
    lib_hash160 L pk = kh \<and>
    sig_accepted L (f_bip66_active (j_flags job))
      (\<lambda>ty. ok_or (lib_legacy_signature_hash L tx i (sighash_script_code (template kh) sig) ty) (Script ''p2pkh sighash''))
      sig pk"
proof -
  have "take 20 (drop 3 (template kh)) = kh"
    using assms(3) by (simp add: template_def P2PKH_PREFIX_def)
  then show ?thesis
    using assms by (auto simp: p2pkh_verify_def length_template is_ok_iff sig_accepted_def result_simps Let_def)
qed

lemma verify_bare_template_accepts:
  assumes lib: "parses_template L" "bool_values L" "parse_covers L" "parser_in_range L" "instructions_agree L"
    and job: "\<not> needs_interpreted_ecdsa job" "\<not> f_const_scriptcode (j_flags job)" "\<not> f_minimal_data (j_flags job)"
    and inp: "input_at tx i = Inr input" "parse_two_pushes L (ti_script_sig input) = Inr (sig, pk)" "length kh = 20"
  shows "is_ok (verify_bare L job i tx amount (template kh)) \<longleftrightarrow>
    lib_hash160 L pk = kh \<and>
    sig_accepted L (f_bip66_active (j_flags job))
      (\<lambda>ty. ok_or (lib_legacy_signature_hash L tx i (sighash_script_code (template kh) sig) ty) (Script ''legacy sighash''))
      sig pk"
proof -
  obtain a b where items: "lib_instruction_indices L (ti_script_sig input) = [Inr (a, PushBytes sig), Inr (b, PushBytes pk)]"
    and len: "length sig \<le> 520" "length pk \<le> 520"
    using inp(2) by (auto simp: parse_two_pushes_ok [OF lib(5)])
  have ne: "ti_script_sig input \<noteq> []"
  proof
    assume "ti_script_sig input = []"
    moreover have "Inr (a, PushBytes sig) \<in> set (lib_instruction_indices L (ti_script_sig input))" using items by simp
    then have "a < length (ti_script_sig input)" using lib(4) unfolding parser_in_range_def by blast
    ultimately show False by simp
  qed
  obtain c1 where c1: "from_job L job tx i amount (ti_script_sig input) Base = Inr c1" using from_job_base by blast
  obtain c2 where c2: "from_job L job tx i amount (template kh) Base = Inr c2" using from_job_base by blast
  have "eval_script L (ti_script_sig input) [] c1 (init_cells L c1) = Inr (True, [pk, sig], init_cells L c1)"
    using eval_two_pushes [OF items len lib(3)] from_job_flags [OF c1 job(1)] job(3) by simp
  then have first: "run_script L job tx i amount (ti_script_sig input) Base [] = Inr [pk, sig]"
    using c1 by (simp add: run_script_def)
  have "is_ok (verify_bare L job i tx amount (template kh)) \<longleftrightarrow>
      (\<exists>stk. run_script L job tx i amount (template kh) Base [pk, sig] = Inr stk \<and> is_ok (final_check L job stk))"
    using inp(1) ne first by (auto simp: verify_bare_def is_ok_iff result_simps Let_def)
  also have "\<dots> \<longleftrightarrow> lib_hash160 L pk = kh \<and> checksig_legacy L sig pk c2 (init_cells L c2) PreBase = Inr True"
    using run_template [OF lib(1) inp(3) job(1) c2, of PreBase pk sig "\<lambda>stk. is_ok (final_check L job stk)"]
      final_check_bool [OF lib(2)] by auto
  also have "\<dots> \<longleftrightarrow> lib_hash160 L pk = kh \<and>
    sig_accepted L (f_bip66_active (j_flags job))
      (\<lambda>ty. ok_or (lib_legacy_signature_hash L tx i (sighash_script_code (template kh) sig) ty) (Script ''legacy sighash''))
      sig pk"
    using checksig_base_template [OF c2 job(1,2) inp(3) len(1)] by simp
  finally show ?thesis .
qed

lemma parse_two_pushes_shape: "parse_two_pushes L script = Inl e \<Longrightarrow> p2pkh_scriptsig_shape_error e"
proof -
  have "two_pushes items s k = Inl e' \<Longrightarrow> p2pkh_scriptsig_shape_error e'" for items s k e'
    by (induction items s k rule: two_pushes.induct)
      (auto simp: p2pkh_scriptsig_shape_error_def split: if_splits)
  then show "parse_two_pushes L script = Inl e \<Longrightarrow> p2pkh_scriptsig_shape_error e"
    by (auto simp: parse_two_pushes_def rbind_eq_Inl p2pkh_scriptsig_shape_error_def split: option.splits)
qed

definition p2pkh_template :: "btc_lib \<Rightarrow> bool" where
  "p2pkh_template L \<longleftrightarrow> (\<forall>script. lib_is_p2pkh L script \<longrightarrow> (\<exists>kh. length kh = 20 \<and> script = template kh))"

text \<open>
  C2. The typed P2PKH path changes no verdict: for every P2PKH output and every scriptSig, the fast path
  with its fallback accepts exactly the spends the interpreter accepts when it runs scriptSig and
  scriptPubKey, including signatures deleted from the scriptCode, hash type 0, strict DER and empty
  signatures, unless one of the two flags the fast path does not look at (minimal pushes, constant
  scriptCode) is set.
\<close>

theorem p2pkh_typed_path_is_interpreter:
  assumes "p2pkh_template L" "parses_template L" "bool_values L" "parse_covers L" "parser_in_range L" "instructions_agree L"
    and "\<not> f_const_scriptcode (j_flags job)" "\<not> f_minimal_data (j_flags job)" "lib_is_p2pkh L spk"
  shows "is_ok (verify_p2pkh_kind L job i tx amount spk) \<longleftrightarrow> is_ok (verify_bare L job i tx amount spk)"
proof (cases "needs_interpreted_ecdsa job")
  case True
  then show ?thesis by (simp add: verify_p2pkh_kind_def)
next
  case False
  obtain kh where kh: "length kh = 20" "spk = template kh" using assms(1,9) by (auto simp: p2pkh_template_def)
  show ?thesis
  proof (cases "input_at tx i")
    case (Inl e)
    then have "\<not> p2pkh_scriptsig_shape_error e"
      by (auto simp: input_at_def ok_or_eq_Inl p2pkh_scriptsig_shape_error_def)
    then show ?thesis using Inl False kh
      by (simp add: verify_p2pkh_kind_def p2pkh_verify_def verify_bare_def length_template)
  next
    case (Inr input)
    show ?thesis
    proof (cases "parse_two_pushes L (ti_script_sig input)")
      case (Inl e)
      then have "p2pkh_verify L job i tx spk = Inl e"
        using Inr kh by (simp add: p2pkh_verify_def length_template Let_def)
      then show ?thesis using parse_two_pushes_shape [OF Inl] False by (simp add: verify_p2pkh_kind_def)
    next
      case parsed: (Inr p)
      obtain sig pk where p: "parse_two_pushes L (ti_script_sig input) = Inr (sig, pk)" using parsed by (cases p) auto
      have "is_ok (p2pkh_verify L job i tx spk) \<longleftrightarrow> is_ok (verify_bare L job i tx amount spk)"
        using p2pkh_verify_accepts [OF Inr p kh(1)] verify_bare_template_accepts [OF assms(2-6) False assms(7,8) Inr p kh(1)]
        unfolding kh(2) by (simp add: sig_accepted_def ok_or_eq_Inr)
      then show ?thesis
        using False by (auto simp: verify_p2pkh_kind_def is_ok_iff split: sum.splits if_splits)
    qed
  qed
qed

subsection \<open>The concrete library\<close>

lemma sample_parse_covers: "sample_parse i script = map Inr is \<Longrightarrow> length script \<le> sum_list (map max_width is)"
proof (induction i script arbitrary: "is" rule: sample_parse.induct)
  case (1 i script)
  show ?case
  proof (cases script)
    case (Cons op rest)
    show ?thesis
    proof (cases "op \<le> 75")
      case True
      then have len: "\<not> length rest < unat op" using "1.prems" by (auto simp: Cons map_eq_Cons_conv)
      then obtain is' where "is": "is = (i, PushBytes (take (unat op) rest)) # is'"
        and rec: "sample_parse (i + 1 + unat op) (drop (unat op) rest) = map Inr is'"
        using "1.prems" True by (auto simp: Cons Cons_eq_map_conv)
      show ?thesis using "1.IH"(1) [OF Cons True len rec] len by (simp add: Cons "is" max_width_def)
    next
      case False
      then obtain is' where "is": "is = (i, Op op) # is'" and rec: "sample_parse (i + 1) rest = map Inr is'"
        using "1.prems" by (auto simp: Cons Cons_eq_map_conv)
      show ?thesis using "1.IH"(2) [OF Cons False rec] by (simp add: Cons "is" max_width_def)
    qed
  qed (use 1 in simp)
qed

lemma sample_script_lib:
  "p2pkh_template sample_lib" "parses_template sample_lib" "bool_values sample_lib" "parse_covers sample_lib"
  "parser_in_range sample_lib" "instructions_agree sample_lib"
proof -
  have "script = template (take 20 (drop 3 script))"
    if "length script = 25" "take 3 script = [0x76, 0xA9, 0x14]" "drop 23 script = [0x88, 0xAC]" for script
  proof -
    have "drop 3 script = take 20 (drop 3 script) @ drop 23 script"
      using append_take_drop_id [of 20 "drop 3 script"] by simp
    then have "script = take 3 script @ take 20 (drop 3 script) @ drop 23 script"
      using append_take_drop_id [of 3 script] by metis
    then show ?thesis unfolding template_def P2PKH_PREFIX_def P2PKH_SUFFIX_def using that(2,3) by simp
  qed
  then show "p2pkh_template sample_lib" unfolding p2pkh_template_def by (auto intro!: exI)
  show "parses_template sample_lib"
    by (auto simp: parses_template_def template_def P2PKH_PREFIX_def P2PKH_SUFFIX_def)
  show "bool_values sample_lib" by (simp add: bool_values_def)
  show "parse_covers sample_lib" by (auto simp: parse_covers_def intro: sample_parse_covers)
  show "parser_in_range sample_lib" using sample_lib_ok by (simp add: lib_ok_def)
  show "instructions_agree sample_lib" by (simp add: instructions_agree_def)
qed

definition sample_job :: "transaction \<Rightarrow> bytes \<Rightarrow> script_check_job" where
  "sample_job tx spk = job_from_parts [] (OwnedPrevouts [\<lparr>to_value = 5, to_script_pubkey = spk\<rparr>]) (OwnedTx tx)
     (flags_buried True True False True True)"

lemma sample_job_built:
  "length (tx_input tx) = 1 \<Longrightarrow>
   try_from_parts [] (OwnedPrevouts [\<lparr>to_value = 5, to_script_pubkey = spk\<rparr>]) (OwnedTx tx)
     (flags_buried True True False True True) = Inr (sample_job tx spk)"
  by (simp add: try_from_parts_def sample_job_def)

lemma sample_job_flags: "j_flags (sample_job tx spk) = flags_buried True True False True True"
  by (simp add: sample_job_def job_from_parts_def)

definition signed_tx :: "bytes \<Rightarrow> bytes list \<Rightarrow> transaction" where
  "signed_tx script_sig witness =
    \<lparr>tx_version = 2, tx_lock_time = 0,
     tx_input = [\<lparr>ti_previous_output = ([1], 0), ti_script_sig = script_sig, ti_sequence = 5, ti_witness = witness\<rparr>],
     tx_output = []\<rparr>"

theorem p2pkh_typed_path_is_interpreter_witness:
  "is_ok (verify_bare sample_lib (sample_job (signed_tx [2, 7, 1, 1, 7] []) (template (pad 20 [7]))) 0 (signed_tx [2, 7, 1, 1, 7] []) 5
     (template (pad 20 [7])))"
proof -
  let ?spk = "template (pad 20 [7])" and ?tx = "signed_tx [2, 7, 1, 1, 7] []"
  have p2pkh: "lib_is_p2pkh sample_lib ?spk" by (simp add: template_def P2PKH_PREFIX_def P2PKH_SUFFIX_def)
  have "is_ok (p2pkh_verify sample_lib (sample_job ?tx ?spk) 0 ?tx ?spk)"
    by (simp add: p2pkh_verify_def length_template input_at_def signed_tx_def get_at_def parse_two_pushes_def
        MAX_SCRIPT_ELEMENT_SIZE_def parse_der_sig_def parse_pubkey_def verify_ecdsa_def sample_job_flags flags_buried_def
        template_def P2PKH_PREFIX_def P2PKH_SUFFIX_def)
  then have "is_ok (verify_p2pkh_kind sample_lib (sample_job ?tx ?spk) 0 ?tx 5 ?spk)"
    by (auto simp: verify_p2pkh_kind_def needs_interpreted_ecdsa_def sample_job_flags flags_buried_def is_ok_iff)
  then show ?thesis
    using p2pkh_typed_path_is_interpreter [OF sample_script_lib, of "sample_job ?tx ?spk" ?spk 0 ?tx 5] p2pkh
    by (simp add: sample_job_flags flags_buried_def)
qed

section \<open>P2WPKH: the typed path is the interpreter\<close>

definition witness_key_program :: "bytes \<Rightarrow> bytes" where
  "witness_key_program kh = [OP_0, 0x14] @ kh"

definition implied_script :: "btc_lib \<Rightarrow> bool" where
  "implied_script L \<longleftrightarrow>
    (\<forall>kh. length kh = 20 \<longrightarrow> lib_p2wpkh_script_code L (witness_key_program kh) = Some (template kh))"

definition rejects_empty_key :: "btc_lib \<Rightarrow> bool" where
  "rejects_empty_key L \<longleftrightarrow> lib_pubkey_from_slice L [] = None"

lemma checksig_v0_template:
  assumes "from_job L job tx i amount (template kh) WitnessV0 = Inr ctx" "\<not> needs_interpreted_ecdsa job"
  shows "checksig_legacy L sig pk ctx (init_cells L ctx) PreWitnessV0 = Inr True \<longleftrightarrow>
    \<not> (f_witness_pubkeytype (j_flags job) \<and> \<not> is_compressed_pubkey pk) \<and>
    sig_accepted L (f_bip66_active (j_flags job))
      (\<lambda>ty. bip143_signature_hash L tx i (template kh) amount ty (ec_pre ctx)) sig pk"
proof -
  note fl = from_job_flags [OF assms]
  have "prepare_script_code ctx (init_cells L ctx) [sig] PreWitnessV0 = Inr (template kh)"
    using fl by (simp add: prepare_script_code_def script_code_bytes_def init_cells_def)
  then show ?thesis
    using ecdsa_sig_matches_accepts [OF fl(1,2), of L sig pk "template kh" PreWitnessV0] fl
    by (auto simp: checksig_legacy_def result_simps sighash_for_script_def bip143_p2wsh_signature_hash_def)
qed

lemma clean_bool:
  "bool_values L \<Longrightarrow> is_ok (require_clean_true L [bool_encode ok]) \<longleftrightarrow> ok"
  by (auto simp: require_clean_true_def bool_encode_def bool_values_def)

lemma sig_accepted_nonempty:
  "sig_accepted L strict sighash sig pk \<Longrightarrow> rejects_empty_key L \<Longrightarrow> sig \<noteq> [] \<and> pk \<noteq> []"
  by (auto simp: sig_accepted_def parse_der_sig_def parse_pubkey_def rejects_empty_key_def)

lemma p2wpkh_interpreted_accepts:
  assumes lib: "parses_template L" "bool_values L" and job: "\<not> needs_interpreted_ecdsa job" "job_pre_row L job = Inr row"
    and inp: "input_at tx i = Inr input" "ti_witness input = [sig, pk]" "length kh = 20"
  shows "is_ok (p2wpkh_verify_interpreted L job i tx kh amount) \<longleftrightarrow>
    length sig \<le> 520 \<and> length pk \<le> 520 \<and> lib_hash160 L pk = kh
    \<and> \<not> (f_witness_pubkeytype (j_flags job) \<and> \<not> is_compressed_pubkey pk)
    \<and> sig_accepted L (f_bip66_active (j_flags job)) (\<lambda>ty. bip143_signature_hash L tx i (template kh) amount ty row) sig pk"
proof -
  obtain ctx where ctx: "from_job L job tx i amount (template kh) WitnessV0 = Inr ctx"
    using job(2) by (simp add: from_job_def Let_def)
  have row: "ec_pre ctx = row" using from_job_flags(13) [OF ctx job(1)] job(2) by simp
  have "is_ok (p2wpkh_verify_interpreted L job i tx kh amount) \<longleftrightarrow>
      length sig \<le> 520 \<and> length pk \<le> 520 \<and>
      (\<exists>stk. run_script L job tx i amount (template kh) WitnessV0 [pk, sig] = Inr stk \<and> is_ok (require_clean_true L stk))"
    using inp by (auto simp: p2wpkh_verify_interpreted_def execute_witness_v0_def template_def is_ok_iff result_simps
        MAX_SCRIPT_ELEMENT_SIZE_def not_less)
  also have "(\<exists>stk. run_script L job tx i amount (template kh) WitnessV0 [pk, sig] = Inr stk \<and> is_ok (require_clean_true L stk))
      \<longleftrightarrow> lib_hash160 L pk = kh \<and> checksig_legacy L sig pk ctx (init_cells L ctx) PreWitnessV0 = Inr True"
    unfolding run_template [OF lib(1) inp(3) job(1) ctx from_sig_version.simps(2)] clean_bool [OF lib(2)] by auto
  finally show ?thesis unfolding checksig_v0_template [OF ctx job(1)] row by blast
qed

lemma sig_accepted_is_ok:
  "is_ok (rbind (parse_der_sig L sig strict) (\<lambda>(ecdsa, ty).
      rbind (parse_pubkey L pk) (\<lambda>key.
      rbind (sighash ty) (\<lambda>h. if verify_ecdsa L h ecdsa key then Inr () else Inl (Script m)))))
   \<longleftrightarrow> sig_accepted L strict sighash sig pk"
  by (auto simp: is_ok_iff sig_accepted_def result_simps)

lemma p2wpkh_verify_loaded_accepts:
  "is_ok (p2wpkh_verify_loaded L job i tx kh program pre amount sig pk) \<longleftrightarrow>
    length sig \<le> 520 \<and> length pk \<le> 520 \<and> lib_hash160 L pk = kh
    \<and> \<not> (f_witness_pubkeytype (j_flags job) \<and> \<not> is_compressed_pubkey pk)
    \<and> sig_accepted L (f_bip66_active (j_flags job)) (\<lambda>ty. bip143_p2wpkh_signature_hash L tx i program amount ty pre) sig pk"
proof (cases "length sig \<le> 520 \<and> length pk \<le> 520")
  case True
  then have "check_element_sizes sig pk = Inr ()" by (simp add: check_element_sizes_def MAX_SCRIPT_ELEMENT_SIZE_def)
  then show ?thesis using True by (simp add: p2wpkh_verify_loaded_def sig_accepted_is_ok)
next
  case False
  then have "check_element_sizes sig pk = Inl (Script ''PUSH_SIZE'')"
    by (auto simp: check_element_sizes_def MAX_SCRIPT_ELEMENT_SIZE_def)
  then show ?thesis using False by (auto simp: p2wpkh_verify_loaded_def)
qed

lemma p2wpkh_typed_accepts:
  assumes "implied_script L" "rejects_empty_key L" "input_at tx i = Inr input" "ti_witness input = [sig, pk]" "length kh = 20"
  shows "is_ok (p2wpkh_verify L job i tx pre (witness_key_program kh) amount) \<longleftrightarrow>
    length sig \<le> 520 \<and> length pk \<le> 520 \<and> lib_hash160 L pk = kh
    \<and> \<not> (f_witness_pubkeytype (j_flags job) \<and> \<not> is_compressed_pubkey pk)
    \<and> sig_accepted L (f_bip66_active (j_flags job)) (\<lambda>ty. bip143_signature_hash L tx i (template kh) amount ty pre) sig pk"
proof -
  have code: "bip143_p2wpkh_signature_hash L tx i (witness_key_program kh) amount ty pre
      = bip143_signature_hash L tx i (template kh) amount ty pre" for ty
    using assms(1,5) by (simp add: bip143_p2wpkh_signature_hash_def implied_script_def)
  have kh: "get_range (witness_key_program kh) 2 22 = Some kh"
    using assms(5) by (simp add: get_range_def witness_key_program_def)
  have "is_ok (p2wpkh_verify L job i tx pre (witness_key_program kh) amount) \<longleftrightarrow>
    sig \<noteq> [] \<and> pk \<noteq> [] \<and> length sig \<le> 520 \<and> length pk \<le> 520 \<and> lib_hash160 L pk = kh
    \<and> \<not> (f_witness_pubkeytype (j_flags job) \<and> \<not> is_compressed_pubkey pk)
    \<and> sig_accepted L (f_bip66_active (j_flags job)) (\<lambda>ty. bip143_signature_hash L tx i (template kh) amount ty pre) sig pk"
    using assms(3,4) kh p2wpkh_verify_loaded_accepts [of L job i tx kh "witness_key_program kh" pre amount sig pk]
    by (simp add: p2wpkh_verify_def witness_pair_def code)
  then show ?thesis using sig_accepted_nonempty [OF _ assms(2)] by blast
qed

text \<open>
  C3. The typed P2WPKH path changes no verdict: on a job built by \<open>try_from_parts\<close> it accepts exactly the
  witnesses that running the implied pay-to-key-hash script accepts, with the same BIP143 hash (the
  midstate row the caller passes is the one the interpreter would read whenever the witness is not
  empty), the same size limits and the same key-type rule.
\<close>

theorem p2wpkh_typed_path_is_interpreter:
  assumes "parses_template L" "bool_values L" "implied_script L" "rejects_empty_key L"
    and "try_from_parts txid prevouts jtx flags = Inr job" "\<not> needs_interpreted_ecdsa job"
    and "midstate_row L job = Inr pre" "length kh = 20"
  shows "is_ok (p2wpkh_verify L job i (job_transaction job) pre (witness_key_program kh) amount)
    \<longleftrightarrow> is_ok (p2wpkh_verify_interpreted L job i (job_transaction job) kh amount)"
proof (cases "\<exists>input sig pk. input_at (job_transaction job) i = Inr input \<and> ti_witness input = [sig, pk]")
  case True
  then obtain input sig pk where inp: "input_at (job_transaction job) i = Inr input" "ti_witness input = [sig, pk]" by blast
  then have "input \<in> set (tx_input (job_transaction job))"
    by (auto simp: input_at_def ok_or_eq_Inr get_at_def split: if_splits)
  then have "uses_segwit_serialization (job_transaction job)"
    using inp(2) by (auto simp: uses_segwit_serialization_def list_ex_iff)
  then have row: "job_pre_row L job = Inr pre"
    using assms(7) try_from_parts_pre(5) [OF assms(5)] by (simp add: midstate_row_def)
  show ?thesis
    unfolding p2wpkh_typed_accepts [OF assms(3,4) inp assms(8)] p2wpkh_interpreted_accepts [OF assms(1,2,6) row inp assms(8)]
    by (rule refl)
next
  case False
  have kh: "get_range (witness_key_program kh) 2 22 = Some kh"
    using assms(8) by (simp add: get_range_def witness_key_program_def)
  show ?thesis
  proof (cases "input_at (job_transaction job) i")
    case (Inl e)
    then show ?thesis using kh by (simp add: p2wpkh_verify_def p2wpkh_verify_interpreted_def)
  next
    case (Inr input)
    then have no: "\<And>sig pk. ti_witness input \<noteq> [sig, pk]" using False by blast
    then have "length (ti_witness input) \<noteq> 2" by (auto simp: length_Suc_conv numeral_2_eq_2)
    moreover have "witness_pair input = Inl (Script ''p2wpkh witness len'')"
      using no by (auto simp: witness_pair_def split: list.splits)
    ultimately show ?thesis
      using Inr kh by (simp add: p2wpkh_verify_def p2wpkh_verify_interpreted_def Let_def)
  qed
qed

theorem p2wpkh_typed_path_is_interpreter_witness:
  "is_ok (p2wpkh_verify_interpreted sample_lib (sample_job (signed_tx [] [[7, 1], [7]]) (witness_key_program (pad 20 [7]))) 0
     (signed_tx [] [[7, 1], [7]]) (pad 20 [7]) 5)"
proof -
  let ?kh = "pad 20 [7]" and ?tx = "signed_tx [] [[7, 1], [7]]"
  let ?job = "sample_job ?tx (witness_key_program ?kh)"
  have built: "try_from_parts [] (OwnedPrevouts [\<lparr>to_value = 5, to_script_pubkey = witness_key_program ?kh\<rparr>]) (OwnedTx ?tx)
      (flags_buried True True False True True) = Inr ?job"
    by (rule sample_job_built) (simp add: signed_tx_def)
  have lib: "implied_script sample_lib" "rejects_empty_key sample_lib"
    by (auto simp: implied_script_def witness_key_program_def template_def P2PKH_PREFIX_def P2PKH_SUFFIX_def rejects_empty_key_def)
  have tx: "job_transaction ?job = ?tx" using try_from_parts_pre(4) [OF built] by simp
  have plain: "\<not> needs_interpreted_ecdsa ?job" by (simp add: needs_interpreted_ecdsa_def sample_job_flags flags_buried_def)
  obtain pre where pre: "midstate_row sample_lib ?job = Inr pre"
    using try_from_parts_pre(1) [OF built, of sample_lib]
    by (cases "j_skip_segwit_midstates ?job") (auto simp: midstate_row_def is_ok_iff)
  have "is_ok (p2wpkh_verify sample_lib ?job 0 ?tx pre (witness_key_program ?kh) 5)"
    by (simp add: p2wpkh_verify_def witness_key_program_def get_range_def input_at_def get_at_def signed_tx_def witness_pair_def
        p2wpkh_verify_loaded_def check_element_sizes_def MAX_SCRIPT_ELEMENT_SIZE_def sample_job_flags flags_buried_def
        parse_der_sig_def parse_pubkey_def bip143_p2wpkh_signature_hash_def bip143_signature_hash_def verify_ecdsa_def Let_def)
  then show ?thesis
    using p2wpkh_typed_path_is_interpreter [OF sample_script_lib(2,3) lib built plain pre, of ?kh 0 5] tx by simp
qed

section \<open>The anyone-can-spend shortcut\<close>

definition op_true_lib :: "btc_lib \<Rightarrow> bool" where
  "op_true_lib L \<longleftrightarrow> lib_instruction_indices L [OP_TRUE] = [Inr (0, Op OP_TRUE)] \<and> lib_witness_version L [OP_TRUE] = None
    \<and> \<not> lib_is_p2wpkh L [OP_TRUE] \<and> \<not> lib_is_p2wsh L [OP_TRUE] \<and> \<not> lib_is_p2tr L [OP_TRUE]
    \<and> \<not> lib_is_p2pkh L [OP_TRUE] \<and> \<not> lib_is_p2sh L [OP_TRUE]"

lemma eval_op_true:
  assumes "op_true_lib L" "ec_sig_version ctx = Base"
  shows "eval_script L [OP_TRUE] [] ctx cells = Inr (True, [[1]], cells)"
  using assms
  by (simp add: op_true_lib_def eval_script_def Let_def init_state_def cs_default_def cs_is_empty_def cs_all_true_def
      eval_instr_def eval_opcode_def count_op_def always_checks_def is_disabled_legacy_def exec_op_def stack_op_def push_def
      MAX_STACK_SIZE_def MAX_SCRIPT_SIZE_LEGACY_def)

lemma verify_input_pure:
  assumes "op_true_lib L" "bool_values L" "pure_anyone_can_spend tx i script = Inr True"
  shows "verify_input L job i tx pre amount script = Inr ()"
proof -
  obtain input where inp: "input_at tx i = Inr input" "ti_script_sig input = []" "ti_witness input = []" "script = [OP_TRUE]"
    using assms(3) by (auto simp: pure_anyone_can_spend_def is_anyone_can_spend_def result_simps)
  obtain ctx where ctx: "from_job L job tx i amount [OP_TRUE] Base = Inr ctx" using from_job_base by blast
  have "run_script L job tx i amount [OP_TRUE] Base [] = Inr [[1]]"
    using eval_op_true [OF assms(1)] ctx from_job_ok(4) [OF ctx] by (simp add: run_script_def)
  moreover have "final_check L job [[1]] = Inr ()"
    using assms(2) by (simp add: final_check_def require_clean_true_def require_true_top_def bool_values_def)
  ultimately have "verify_bare L job i tx amount script = Inr ()" using inp by (simp add: verify_bare_def)
  moreover have "witness_program L script = None" "classify L script = Bare"
    using assms(1) inp(4) by (simp_all add: op_true_lib_def witness_program_def classify_def)
  ultimately show ?thesis using inp by (simp add: verify_input_def Let_def)
qed

lemma pure_total: "i < length (tx_input tx) \<Longrightarrow> \<exists>b. pure_anyone_can_spend tx i script = Inr b"
  by (simp add: pure_anyone_can_spend_def input_at_def get_at_def)

lemma all_pure_verifies:
  assumes "op_true_lib L" "bool_values L" "set is \<subseteq> {..<length (tx_input tx)}"
  shows "all_pure job tx is \<noteq> Inr False \<Longrightarrow> verify_rest L job tx pre is = rbind (all_pure job tx is) (\<lambda>_. Inr ())"
  using assms(3)
proof (induction "is")
  case (Cons i "is")
  show ?case
  proof (cases "prevout_parts job i")
    case (Inr p)
    obtain v script where p: "p = (v, script)" by force
    obtain b where pure: "pure_anyone_can_spend tx i script = Inr b"
      using pure_total [of i tx script] Cons.prems(2) by auto
    then have "b" using Cons.prems(1) Inr p by (cases b) auto
    then show ?thesis
      using Cons Inr p pure verify_input_pure [OF assms(1,2)] by (simp add: verify_annotated_def)
  qed simp
qed simp

text \<open>
  C5. The anyone-can-spend shortcut is transparent: verifying a job gives the same result, the same error
  included, as verifying each of its inputs. Skipping the interpreter for transactions whose inputs are all
  empty spends of \<open>OP_TRUE\<close> outputs neither accepts nor rejects anything else.
\<close>

theorem anyone_can_spend_shortcut:
  assumes "op_true_lib L" "bool_values L" "try_from_parts txid prevouts tx flags = Inr job"
  shows "verify_job_all_inputs L job = verify_loaded_inputs L job (job_transaction job)"
proof (cases "job_inputs job")
  case Nil
  then show ?thesis by (simp add: verify_job_all_inputs_def verify_loaded_inputs_def)
next
  case (Cons first rest)
  let ?tx = "job_transaction job"
  have range: "first < length (tx_input ?tx)" "set rest \<subseteq> {..<length (tx_input ?tx)}"
    using arg_cong [OF Cons, of set] by (auto simp: job_inputs_def)
  obtain pre where pre: "midstate_row L job = Inr pre"
    using try_from_parts_pre(1) [OF assms(3), of L]
    by (cases "j_skip_segwit_midstates job") (auto simp: midstate_row_def is_ok_iff)
  show ?thesis
  proof (cases "prevout_parts job first")
    case (Inr p)
    obtain v script where p: "p = (v, script)" by force
    obtain b where pure: "pure_anyone_can_spend ?tx first script = Inr b" using pure_total range(1) by blast
    show ?thesis
    proof (cases "b \<and> all_pure job ?tx rest \<noteq> Inr False")
      case True
      then have "verify_annotated L job ?tx pre first v script = Inr ()"
        using verify_input_pure [OF assms(1,2)] pure by (simp add: verify_annotated_def)
      moreover have "verify_rest L job ?tx pre rest = rbind (all_pure job ?tx rest) (\<lambda>_. Inr ())"
        using all_pure_verifies [OF assms(1,2) range(2)] True by blast
      ultimately show ?thesis
        using True Cons Inr p pure pre
        by (cases "all_pure job ?tx rest")
          (auto simp: verify_job_all_inputs_def verify_loaded_inputs_def verify_loaded_inputs_from_def)
    qed (use Cons Inr p pure in \<open>auto simp: verify_job_all_inputs_def verify_loaded_inputs_def Let_def\<close>)
  qed (use Cons in \<open>simp add: verify_job_all_inputs_def verify_loaded_inputs_def\<close>)
qed

theorem anyone_can_spend_shortcut_witness:
  "verify_loaded_inputs sample_lib (sample_job (signed_tx [] []) [OP_TRUE]) (signed_tx [] []) = Inr ()"
proof -
  let ?tx = "signed_tx [] []"
  let ?job = "sample_job ?tx [OP_TRUE]"
  have built: "try_from_parts [] (OwnedPrevouts [\<lparr>to_value = 5, to_script_pubkey = [OP_TRUE]\<rparr>]) (OwnedTx ?tx)
      (flags_buried True True False True True) = Inr ?job"
    by (rule sample_job_built) (simp add: signed_tx_def)
  have "op_true_lib sample_lib" by (simp add: op_true_lib_def)
  from anyone_can_spend_shortcut [OF this sample_script_lib(3) built]
  have "verify_loaded_inputs sample_lib ?job ?tx = verify_job_all_inputs sample_lib ?job"
    using try_from_parts_pre(4) [OF built] by simp
  also have "\<dots> = Inr ()"
    by (simp add: verify_job_all_inputs_def sample_job_def job_from_parts_def job_inputs_def signed_tx_def prevout_parts_def
        get_at_def pure_anyone_can_spend_def input_at_def is_anyone_can_spend_def)
  finally show ?thesis .
qed

section \<open>Hash commitments\<close>

text \<open>
  C4. Pay to script hash is enforced: once BIP16 is active a spend of a P2SH output verifies only if the
  scriptSig is push-only, leaves a redeem script on top of its stack and that script hashes to the output's
  20 bytes, and when segwit is active a redeem script that is a witness program is the whole scriptSig.
\<close>

theorem p2sh_spend_commits:
  assumes "verify_p2sh_kind L job i tx pre amount spk has_witness = Inr ()" "f_bip16_active (j_flags job)"
  shows "\<exists>input redeem rest. input_at tx i = Inr input \<and> lib_is_push_only L (ti_script_sig input)
    \<and> run_script L job tx i amount (ti_script_sig input) Base [] = Inr (redeem # rest)
    \<and> length spk = 23 \<and> lib_hash160 L redeem = take 20 (drop 2 spk)
    \<and> (f_witness_active (j_flags job) \<and> witness_program L redeem \<noteq> None \<longrightarrow>
         rest = [] \<and> ti_script_sig input = minimal_push_encoding redeem)"
proof -
  obtain stk where stk: "p2sh_script_sig_stack L job i tx amount = Inr stk"
    and res: "case try_p2sh_nested_segwit L job i tx pre stk amount spk of
         Some res \<Rightarrow> res = Inr ()
       | None \<Rightarrow> verify_p2sh_legacy L job i tx stk amount spk = Inr ()"
    using assms by (auto simp: verify_p2sh_kind_def result_simps split: option.splits if_splits)
  obtain input where inp: "input_at tx i = Inr input" "lib_is_push_only L (ti_script_sig input)"
      "run_script L job tx i amount (ti_script_sig input) Base [] = Inr stk"
    using stk by (auto simp: p2sh_script_sig_stack_def result_simps Let_def split: if_splits)
  have get: "get_at (tx_input tx) i = Some input" using inp(1) by (simp add: input_at_def ok_or_eq_Inr)
  have hash: "check_p2sh_redeem_hash L spk r = Inr () \<longleftrightarrow> length spk = 23 \<and> lib_hash160 L r = take 20 (drop 2 spk)" for r
    by (simp add: check_p2sh_redeem_hash_def)
  show ?thesis
  proof (cases stk)
    case Nil
    then show ?thesis using res get by (auto simp: try_p2sh_nested_segwit_def verify_p2sh_legacy_def split: if_splits)
  next
    case (Cons redeem rest)
    show ?thesis
    proof (cases "f_witness_active (j_flags job) \<and> witness_program L redeem \<noteq> None")
      case True
      then show ?thesis
        using res get inp Cons hash [of redeem]
        by (auto simp: try_p2sh_nested_segwit_def result_simps split: if_splits)
    next
      case False
      then have "try_p2sh_nested_segwit L job i tx pre stk amount spk = None"
        using get Cons by (auto simp: try_p2sh_nested_segwit_def split: option.splits)
      then show ?thesis
        using res inp Cons hash [of redeem] False by (auto simp: verify_p2sh_legacy_def result_simps)
    qed
  qed
qed

theorem p2sh_spend_commits_witness:
  "\<exists>redeem rest. run_script sample_lib (sample_job (signed_tx [1, 0x51] []) ([0xA9, 0x14] @ pad 20 [0x51] @ [0x87])) (signed_tx [1, 0x51] [])
       0 5 [1, 0x51] Base [] = Inr (redeem # rest) \<and> lib_hash160 sample_lib redeem = pad 20 [0x51]"
proof -
  let ?spk = "[0xA9, 0x14] @ pad 20 [0x51] @ [0x87]" and ?tx = "signed_tx [1, 0x51] []"
  let ?job = "sample_job ?tx ?spk"
  have run: "run_script sample_lib ?job ?tx 0 5 [1, 0x51] Base [] = Inr [[0x51]]"
    "run_script sample_lib ?job ?tx 0 5 [0x51] Base [] = Inr [[1]]"
    by (simp_all add: run_script_def from_job_def apply_job_flags_def sample_eval_simps sample_job_flags flags_buried_def)
  have "verify_p2sh_kind sample_lib ?job 0 ?tx base_sig_precompute 5 ?spk False = Inr ()"
    using run
    by (simp add: verify_p2sh_kind_def p2sh_script_sig_stack_def input_at_def get_at_def signed_tx_def sample_job_flags
        flags_buried_def require_room_for_p2sh_hash_push_def MAX_STACK_SIZE_def try_p2sh_nested_segwit_def
        witness_program_def verify_p2sh_legacy_def check_p2sh_redeem_hash_def final_check_def require_true_top_def)
  from p2sh_spend_commits [OF this] show ?thesis
    by (auto simp: sample_job_flags flags_buried_def input_at_def get_at_def signed_tx_def)
qed

end
