(* ===== verification/Trust.thy ===== *)
theory Trust
  imports Errors
begin

text \<open>
  Running a softened check: how the state-passing combinators behave when no collector is open, and
  what a successful run says about its parts in any state.
\<close>

named_theorems trust_simps \<open>successful runs of softened checks\<close>

lemma tlift_run [trust_simps]: "tlift r ts = (Inr a, ts') \<longleftrightarrow> r = Inr a \<and> ts' = ts"
  by (auto simp: tlift_def)

lemma tret_run [trust_simps]: "tret b ts = (Inr a, ts') \<longleftrightarrow> a = b \<and> ts' = ts"
  by (auto simp: tret_def)

lemma tfail_run [trust_simps]: "tfail e ts \<noteq> (Inr a, ts')"
  by (simp add: tfail_def)

lemma tbind_run [trust_simps]:
  "tbind m f ts = (Inr b, ts') \<longleftrightarrow> (\<exists>a us. m ts = (Inr a, us) \<and> f a us = (Inr b, ts'))"
  by (auto simp: tbind_def split: prod.splits sum.splits)

lemma if_run [trust_simps]:
  "(if c then m else n) ts = (Inr a, ts') \<longleftrightarrow> (if c then m ts = (Inr a, ts') else n ts = (Inr a, ts'))"
  by simp

named_theorems strict_simps \<open>runs with no collector open\<close>

lemma strict_unchanged: "disciplined m \<Longrightarrow> \<not> collecting ts \<Longrightarrow> m ts = (fst (m ts), ts)"
  by (erule disciplinedE [of m ts]) (auto simp: outcome_ok_def)

lemma strict_tlift [strict_simps]: "fst (tlift r ts) = r"
  by (simp add: tlift_def)

lemma strict_tret [strict_simps]: "fst (tret a ts) = Inr a"
  by (simp add: tret_def)

lemma strict_tfail [strict_simps]: "fst (tfail e ts) = Inl e"
  by (simp add: tfail_def)

lemma strict_soften_at [strict_simps]: "\<not> collecting ts \<Longrightarrow> fst (soften_at h e ts) = Inl e"
  by (simp add: soften_at_def)

lemma strict_soften [strict_simps]: "\<not> collecting ts \<Longrightarrow> fst (soften e ts) = Inl e"
  by (simp add: soften_def soften_at_def)

lemma strict_soft_ensure [strict_simps]: "\<not> collecting ts \<Longrightarrow> fst (soft_ensure c e ts) = ensure c e"
  by (simp add: soft_ensure_def strict_soften strict_tret)

lemma strict_if [strict_simps]: "fst ((if c then m else n) ts) = (if c then fst (m ts) else fst (n ts))"
  by simp

lemma strict_tbind [strict_simps]:
  assumes "disciplined m" "\<not> collecting ts"
  shows "fst (tbind m f ts) = rbind (fst (m ts)) (\<lambda>a. fst (f a ts))"
proof -
  have "tbind m f ts = (case (fst (m ts), ts) of (Inl e, us) \<Rightarrow> (Inl e, us) | (Inr a, us) \<Rightarrow> f a us)"
    using strict_unchanged [OF assms] by (simp add: tbind_def)
  then show ?thesis by (cases "fst (m ts)") simp_all
qed

text \<open>A state with the collector off, and one with it on.\<close>

definition trust_off :: trust_state where
  "trust_off = \<lparr>ts_depth = 0, ts_warns = [], ts_cur_height = None\<rparr>"

definition trust_on :: trust_state where
  "trust_on = trust_enter trust_off"

lemma trust_samples [simp]: "\<not> collecting trust_off" "collecting trust_on"
  by (simp_all add: collecting_def trust_off_def trust_on_def trust_enter_def sat_add_def)

end
