(* ===== verification/Chain.thy ===== *)
theory Chain
  imports Btc Trust "HOL-Library.Multiset"
begin

text \<open>
  Chain parameters (\<open>crates/rbitcoin-consensus/src/params.rs\<close>), the script milestone
  (\<open>milestone.rs\<close>), median time (\<open>crates/rbitcoin-primitives/src/median_time.rs\<close>), the node clock
  (\<open>clock.rs\<close>) and the small value types of \<open>crates/rbitcoin-primitives/src/lib.rs\<close>. The functions of
  the crate \<open>bitcoin\<close> on targets, compact bits and network constants are the record \<open>chain_lib\<close>,
  which carries the record \<open>btc_lib\<close> of the transaction functions. A \<open>Target\<close> is its 256-bit value and
  a \<open>CompactTarget\<close> its 32 bits.
\<close>

section \<open>Networks and library values\<close>

datatype network = Mainnet | Testnet | Signet | Testnet4 | Regtest

datatype btc_network = BtcBitcoin | BtcTestnet | BtcTestnet4 | BtcSignet | BtcRegtest

type_synonym target = "256 word"
type_synonym compact_target = u32
type_synonym block_hash = bytes

record btc_params =
  bp_bip34_height :: u32
  bp_bip65_height :: u32
  bp_bip66_height :: u32
  bp_pow_target_spacing :: u64
  bp_pow_target_timespan :: u64
  bp_no_pow_retargeting :: bool
  bp_allow_min_difficulty_blocks :: bool
  bp_max_attainable_target :: target

record chain_lib =
  k_btc :: btc_lib
  k_genesis_block :: "btc_network \<Rightarrow> block"
  k_btc_params :: "btc_network \<Rightarrow> btc_params"
  k_max_attainable :: "btc_network \<Rightarrow> target"
  k_block_hash :: "header \<Rightarrow> bytes"
  k_block_hash_from_str :: "string \<Rightarrow> bytes option"
  k_from_hex :: "string \<Rightarrow> bytes option"
  k_interval :: "btc_params \<Rightarrow> u64"
  k_from_compact :: "compact_target \<Rightarrow> target"
  k_to_compact_lossy :: "target \<Rightarrow> compact_target"
  k_target_from_be_bytes :: "bytes \<Rightarrow> target"
  k_is_met_by :: "target \<Rightarrow> bytes \<Rightarrow> bool"
  k_next_work_required :: "compact_target \<Rightarrow> u64 \<Rightarrow> btc_params \<Rightarrow> compact_target"
  k_compute_wtxid :: "transaction \<Rightarrow> bytes"
  k_compute_merkle_root :: "block \<Rightarrow> bytes option"
  k_base_size :: "transaction \<Rightarrow> nat"
  k_weight :: "transaction \<Rightarrow> u64"
  k_deserialize_block :: "bytes \<Rightarrow> block option"

section \<open>Primitive values\<close>

definition as_str :: "network \<Rightarrow> string" where
  "as_str n =
    (case n of Mainnet \<Rightarrow> ''mainnet'' | Testnet \<Rightarrow> ''testnet'' | Signet \<Rightarrow> ''signet''
     | Testnet4 \<Rightarrow> ''testnet4'' | Regtest \<Rightarrow> ''regtest'')"

definition ascii_lower :: "char \<Rightarrow> char" where
  "ascii_lower c = (let n = of_char c :: nat in if 65 \<le> n \<and> n \<le> 90 then char_of (n + 32) else c)"

definition network_parse :: "string \<Rightarrow> string + network" where
  "network_parse s =
    (let t = map ascii_lower s
     in if t = ''main'' \<or> t = ''mainnet'' then Inr Mainnet
        else if t = ''test'' \<or> t = ''testnet'' \<or> t = ''testnet3'' then Inr Testnet
        else if t = ''signet'' then Inr Signet
        else if t = ''testnet4'' then Inr Testnet4
        else if t = ''regtest'' then Inr Regtest
        else Inl t)"

definition default_p2p_port :: "network \<Rightarrow> u16" where
  "default_p2p_port n =
    (case n of Mainnet \<Rightarrow> 8333 | Testnet \<Rightarrow> 18333 | Signet \<Rightarrow> 38333 | Testnet4 \<Rightarrow> 48333 | Regtest \<Rightarrow> 18444)"

definition default_rpc_port :: "network \<Rightarrow> u16" where
  "default_rpc_port n =
    (case n of Mainnet \<Rightarrow> 8332 | Testnet \<Rightarrow> 18332 | Signet \<Rightarrow> 38332 | Testnet4 \<Rightarrow> 48332 | Regtest \<Rightarrow> 18443)"

definition fk_is_null :: "u64 \<Rightarrow> bool" where
  "fk_is_null fk = (fk = 0)"

definition fk_new :: "u64 \<Rightarrow> u64 option" where
  "fk_new i = (if i = 0 then None else Some i)"

definition fk_get :: "u64 \<Rightarrow> u64 option" where
  "fk_get fk = (if fk_is_null fk then None else Some fk)"

definition height_next :: "u32 \<Rightarrow> u32 option" where
  "height_next h = checked_add h 1"

section \<open>Median time\<close>

definition median_window_new :: "u32 list \<Rightarrow> string + u32 list" where
  "median_window_new ts = (if ts = [] then Inl ''invariant: empty median time'' else Inr ts)"

definition median_time_past_times :: "u32 list \<Rightarrow> u32" where
  "median_time_past_times ts = (let sorted = sort ts in sorted ! (length sorted div 2))"

section \<open>Clock\<close>

text \<open>
  The atomics of \<open>NodeClock\<close> are the fields of a record and the thread-local override of \<open>with_now\<close>
  is an \<open>option\<close>. The wall clock is an argument.
\<close>

record node_clock =
  nc_mock :: int
  nc_attempt_at :: u64

definition node_clock_new :: node_clock where
  "node_clock_new = \<lparr>nc_mock = 0, nc_attempt_at = 0\<rparr>"

definition now_secs :: "u64 \<Rightarrow> node_clock \<Rightarrow> u64" where
  "now_secs wall c = (if 0 < nc_mock c then word_of_int (nc_mock c) else wall)"

definition note_connection_attempt :: "u64 \<Rightarrow> node_clock \<Rightarrow> node_clock" where
  "note_connection_attempt wall c =
    (let now = max (now_secs wall c) 1
     in if nc_attempt_at c = 0 then c\<lparr>nc_attempt_at := now\<rparr> else c)"

definition forget_connection_attempt :: "node_clock \<Rightarrow> node_clock" where
  "forget_connection_attempt c = c\<lparr>nc_attempt_at := 0\<rparr>"

definition connection_attempt_at :: "node_clock \<Rightarrow> u64" where
  "connection_attempt_at c = nc_attempt_at c"

definition set_mock :: "int \<Rightarrow> node_clock \<Rightarrow> node_clock" where
  "set_mock t c = c\<lparr>nc_mock := max t 0\<rparr>"

type_synonym now_override = "u64 option"

definition with_now :: "u64 \<Rightarrow> (now_override \<Rightarrow> 'a \<times> now_override) \<Rightarrow> now_override \<Rightarrow> 'a \<times> now_override" where
  "with_now now f prev = (let (out, _) = f (Some now) in (out, prev))"

definition with_frozen :: "u64 \<Rightarrow> node_clock \<Rightarrow> (now_override \<Rightarrow> 'a \<times> now_override) \<Rightarrow> now_override \<Rightarrow> 'a \<times> now_override" where
  "with_frozen wall c f = with_now (now_secs wall c) f"

definition current_now :: "u64 \<Rightarrow> now_override \<Rightarrow> u64" where
  "current_now wall ov = (case ov of Some t \<Rightarrow> t | None \<Rightarrow> wall)"

section \<open>Chain parameters\<close>

definition BIP34_IMPLIES_BIP30_LIMIT :: u32 where
  "BIP34_IMPLIES_BIP30_LIMIT = 1983702"

text \<open>
  The \<open>expect\<close> of a hash literal of the source is \<open>the\<close>: nothing is known of the value when the
  library refuses the literal.
\<close>

definition bip34_block_hash :: "chain_lib \<Rightarrow> string \<Rightarrow> block_hash" where
  "bip34_block_hash K display_hex = the (k_block_hash_from_str K display_hex)"

definition block_hash_from_display_hex :: "chain_lib \<Rightarrow> string \<Rightarrow> block_hash" where
  "block_hash_from_display_hex K hex = the (k_block_hash_from_str K hex)"

record bip9_deployment =
  b9_bit :: u8
  b9_period :: u32
  b9_threshold :: u32

record regtest_retarget =
  rr_start_bits :: compact_target
  rr_ceiling :: target
  rr_floor :: target

record chain_params =
  cp_network :: btc_network
  cp_genesis_hash :: block_hash
  cp_genesis_coinbase_txid :: bytes
  cp_pow_limit :: target
  cp_btc :: btc_params
  cp_signet_challenge :: "bytes option"
  cp_csv_height_overlay :: "u32 option"
  cp_segwit_height_overlay :: "u32 option"
  cp_subsidy_halving_overlay :: "u32 option"
  cp_regtest_pow_bits_overlay :: "compact_target option"
  cp_regtest_retarget :: "regtest_retarget option"
  cp_bip34_hash :: "block_hash option"
  cp_testdummy :: "bip9_deployment option"
  cp_enforce_bip94 :: bool

text \<open>The fields the five constructors share: the genesis facts of a network and no overlay.\<close>

definition base_params :: "chain_lib \<Rightarrow> btc_network \<Rightarrow> chain_params" where
  "base_params K n =
    (let genesis = k_genesis_block K n
     in \<lparr>cp_network = n,
         cp_genesis_hash = k_block_hash K (b_header genesis),
         cp_genesis_coinbase_txid = lib_compute_txid (k_btc K) (b_txdata genesis ! 0),
         cp_pow_limit = k_max_attainable K n,
         cp_btc = k_btc_params K n,
         cp_signet_challenge = None,
         cp_csv_height_overlay = None,
         cp_segwit_height_overlay = None,
         cp_subsidy_halving_overlay = None,
         cp_regtest_pow_bits_overlay = None,
         cp_regtest_retarget = None,
         cp_bip34_hash = None,
         cp_testdummy = None,
         cp_enforce_bip94 = False\<rparr>)"

definition params_regtest :: "chain_lib \<Rightarrow> chain_params" where
  "params_regtest K =
    (let p = base_params K BtcRegtest
     in p\<lparr>cp_btc := (cp_btc p)\<lparr>bp_bip34_height := 1, bp_bip65_height := 1, bp_bip66_height := 1\<rparr>,
         cp_testdummy := Some \<lparr>b9_bit = 28, b9_period = 144, b9_threshold = 108\<rparr>\<rparr>)"

definition params_mainnet :: "chain_lib \<Rightarrow> chain_params" where
  "params_mainnet K =
    (base_params K BtcBitcoin)
      \<lparr>cp_bip34_hash := Some (bip34_block_hash K ''000000000000024b89b42a942fe0d9fea3bb44ab7bd1b19115dd6a759c0808b8'')\<rparr>"

text \<open>\<open>Testnet4\<close> shares the attainable target of \<open>Testnet\<close>.\<close>

definition params_testnet :: "chain_lib \<Rightarrow> chain_params" where
  "params_testnet K =
    (base_params K BtcTestnet)
      \<lparr>cp_bip34_hash := Some (bip34_block_hash K ''0000000023b3a96d3484e5abb3755c413e7d41500f8e2a5c3f0dd01299cd8ef8'')\<rparr>"

definition params_testnet4 :: "chain_lib \<Rightarrow> chain_params" where
  "params_testnet4 K =
    (base_params K BtcTestnet4)\<lparr>cp_pow_limit := k_max_attainable K BtcTestnet, cp_enforce_bip94 := True\<rparr>"

definition custom_signet :: "chain_lib \<Rightarrow> bytes \<Rightarrow> u64 \<Rightarrow> string + chain_params" where
  "custom_signet K challenge block_time =
    (if block_time = 0 then Inl ''signet block time must be greater than zero''
     else
       let p = base_params K BtcSignet
       in Inr (p\<lparr>cp_btc := (cp_btc p)\<lparr>bp_pow_target_spacing := block_time\<rparr>, cp_signet_challenge := Some challenge\<rparr>))"

section \<open>Getters\<close>

definition is_genesis_coinbase :: "chain_params \<Rightarrow> bytes \<Rightarrow> bool" where
  "is_genesis_coinbase p txid = (txid = cp_genesis_coinbase_txid p)"

definition difficulty_adjustment_interval :: "chain_lib \<Rightarrow> chain_params \<Rightarrow> u32" where
  "difficulty_adjustment_interval K p = ucast (k_interval K (cp_btc p))"

definition no_pow_retargeting :: "chain_params \<Rightarrow> bool" where
  "no_pow_retargeting p = bp_no_pow_retargeting (cp_btc p)"

definition allow_min_difficulty_blocks :: "chain_params \<Rightarrow> bool" where
  "allow_min_difficulty_blocks p = bp_allow_min_difficulty_blocks (cp_btc p)"

definition subsidy_halving_interval :: "chain_params \<Rightarrow> u32" where
  "subsidy_halving_interval p =
    (case cp_subsidy_halving_overlay p of
       Some n \<Rightarrow> max n 1
     | None \<Rightarrow> if cp_network p = BtcRegtest then 150 else 210000)"

definition overlay_subsidy_halving_interval :: "u32 \<Rightarrow> chain_params \<Rightarrow> chain_params" where
  "overlay_subsidy_halving_interval interval p = p\<lparr>cp_subsidy_halving_overlay := Some (max interval 1)\<rparr>"

definition coinbase_maturity :: u32 where
  "coinbase_maturity = 100"

definition bip34_active_at :: "chain_params \<Rightarrow> u32 \<Rightarrow> bool" where
  "bip34_active_at p height = (bp_bip34_height (cp_btc p) \<le> height)"

definition bip30_skipped_for_bip34_ancestry :: "chain_params \<Rightarrow> u32 \<Rightarrow> block_hash option \<Rightarrow> bool" where
  "bip30_skipped_for_bip34_ancestry p height ancestor_at_bip34 =
    (if BIP34_IMPLIES_BIP30_LIMIT \<le> height then False
     else case cp_bip34_hash p of
       None \<Rightarrow> False
     | Some expected \<Rightarrow>
         if height \<le> bp_bip34_height (cp_btc p) then False
         else ancestor_at_bip34 = Some expected)"

definition bip30_exception_height :: "chain_params \<Rightarrow> u32 \<Rightarrow> bool" where
  "bip30_exception_height p height = (cp_network p = BtcBitcoin \<and> (height = 91842 \<or> height = 91880))"

definition is_bip30_repeat :: "chain_lib \<Rightarrow> chain_params \<Rightarrow> u32 \<Rightarrow> block_hash \<Rightarrow> bool" where
  "is_bip30_repeat K p height block_hash =
    (if \<not> bip30_exception_height p height then False
     else if height = 91842 then
       block_hash = block_hash_from_display_hex K ''00000000000a4d0a398161ffc163c503763b1f4360639393e0e4c8e300e0caec''
     else if height = 91880 then
       block_hash = block_hash_from_display_hex K ''00000000000743f190a18c5577a3c2d2a1f610ae9601ac046a38084ccb7cd721''
     else False)"

definition bip65_active_at :: "chain_params \<Rightarrow> u32 \<Rightarrow> bool" where
  "bip65_active_at p height = (bp_bip65_height (cp_btc p) \<le> height)"

definition bip66_active_at :: "chain_params \<Rightarrow> u32 \<Rightarrow> bool" where
  "bip66_active_at p height = (bp_bip66_height (cp_btc p) \<le> height)"

definition csv_height :: "chain_params \<Rightarrow> u32" where
  "csv_height p =
    (case cp_csv_height_overlay p of
       Some h \<Rightarrow> h
     | None \<Rightarrow>
         (case cp_network p of
            BtcBitcoin \<Rightarrow> 419328 | BtcTestnet \<Rightarrow> 770112 | BtcSignet \<Rightarrow> 1 | BtcTestnet4 \<Rightarrow> 1 | BtcRegtest \<Rightarrow> 1))"

definition csv_active_at :: "chain_params \<Rightarrow> u32 \<Rightarrow> bool" where
  "csv_active_at p height = (csv_height p \<le> height)"

definition segwit_height :: "chain_params \<Rightarrow> u32" where
  "segwit_height p =
    (case cp_segwit_height_overlay p of
       Some h \<Rightarrow> h
     | None \<Rightarrow>
         (case cp_network p of
            BtcBitcoin \<Rightarrow> 481824 | BtcTestnet \<Rightarrow> 834624 | BtcSignet \<Rightarrow> 1 | BtcTestnet4 \<Rightarrow> 1 | BtcRegtest \<Rightarrow> 0))"

definition segwit_active_at :: "chain_params \<Rightarrow> u32 \<Rightarrow> bool" where
  "segwit_active_at p height = (segwit_height p \<le> height)"

definition taproot_height :: "chain_params \<Rightarrow> u32" where
  "taproot_height p =
    (case cp_network p of
       BtcBitcoin \<Rightarrow> 709632 | BtcTestnet \<Rightarrow> 2011968 | BtcSignet \<Rightarrow> 1 | BtcTestnet4 \<Rightarrow> 1 | BtcRegtest \<Rightarrow> 0)"

definition taproot_active_at :: "chain_params \<Rightarrow> u32 \<Rightarrow> bool" where
  "taproot_active_at p height = (taproot_height p \<le> height)"

section \<open>Overlays\<close>

definition apply_test_activation_height :: "string \<Rightarrow> u32 \<Rightarrow> chain_params \<Rightarrow> (string + unit) \<times> chain_params" where
  "apply_test_activation_height name height p =
    (if cp_network p \<noteq> BtcRegtest then (Inl ''testactivationheight is regtest only'', p)
     else if name = ''bip34'' then (Inr (), p\<lparr>cp_btc := (cp_btc p)\<lparr>bp_bip34_height := height\<rparr>\<rparr>)
     else if name = ''dersig'' then (Inr (), p\<lparr>cp_btc := (cp_btc p)\<lparr>bp_bip66_height := height\<rparr>\<rparr>)
     else if name = ''cltv'' then (Inr (), p\<lparr>cp_btc := (cp_btc p)\<lparr>bp_bip65_height := height\<rparr>\<rparr>)
     else if name = ''csv'' then (Inr (), p\<lparr>cp_csv_height_overlay := Some height\<rparr>)
     else if name = ''segwit'' then (Inr (), p\<lparr>cp_segwit_height_overlay := Some height\<rparr>)
     else (Inl ''invalid testactivationheight name'', p))"

definition apply_regtest_pow_bits :: "chain_lib \<Rightarrow> u32 \<Rightarrow> chain_params \<Rightarrow> (string + unit) \<times> chain_params" where
  "apply_regtest_pow_bits K bits p =
    (if cp_network p \<noteq> BtcRegtest then (Inl ''regtest_pow_bits is regtest only'', p)
     else
       let raw = bits;
           exp = drop_bit 24 raw;
           sign = push_bit 23 1;
           mantissa = raw AND (sign - 1);
           negative = (mantissa \<noteq> 0 \<and> raw AND sign \<noteq> 0);
           overflows = (mantissa \<noteq> 0 \<and> (34 < exp \<or> 0xFF < mantissa \<and> 33 < exp \<or> 0xFFFF < mantissa \<and> 32 < exp))
       in if negative \<or> overflows then (Inl ''regtest_pow_bits is negative or overflows'', p)
          else
            let target = k_from_compact K bits
            in if target = 0 then (Inl ''regtest_pow_bits target is zero'', p)
               else if cp_pow_limit p \<le> target then (Inl ''regtest_pow_bits is not harder than the regtest pow limit'', p)
               else (Inr (), p\<lparr>cp_regtest_pow_bits_overlay := Some bits\<rparr>))"

text \<open>One byte of the long division in \<open>retarget_ceiling\<close>: the remainder is a \<open>u128\<close>.\<close>

definition ceiling_step :: "128 word \<Rightarrow> 128 word \<Rightarrow> u8 \<times> 128 word" where
  "ceiling_step divisor rem =
    (let rem = push_bit 8 rem OR 0xFF; q = rem div divisor
     in (if q \<le> 0xFF then ucast q else 0xFF, rem mod divisor))"

primrec ceiling_bytes :: "nat \<Rightarrow> 128 word \<Rightarrow> 128 word \<Rightarrow> bytes" where
  "ceiling_bytes 0 divisor rem = []"
| "ceiling_bytes (Suc n) divisor rem =
    (let (b, rem) = ceiling_step divisor rem in b # ceiling_bytes n divisor rem)"

definition retarget_ceiling :: "chain_lib \<Rightarrow> u64 \<Rightarrow> target" where
  "retarget_ceiling K timespan =
    (let divisor = ucast (max (sat_mul timespan 4) 1) in k_target_from_be_bytes K (ceiling_bytes 32 divisor 0))"

text \<open>
  \<open>div_ceil\<close> of the standard library is the quotient plus one when a remainder is left. A zero
  divisor panics there; the caller asks for a timespan of at least four.
\<close>

definition div_ceil :: "u64 \<Rightarrow> u64 \<Rightarrow> u64" where
  "div_ceil a b = (if a mod b = 0 then a div b else a div b + 1)"

definition retarget_floor :: "chain_lib \<Rightarrow> u64 \<Rightarrow> target" where
  "retarget_floor K timespan =
    (let floor = div_ceil timespan (drop_bit 2 timespan)
     in k_target_from_be_bytes K (replicate 24 0 @ rev (to_le 8 (unat floor))))"

definition checked_mul :: "u64 \<Rightarrow> u64 \<Rightarrow> u64 option" where
  "checked_mul a b = (if unat a * unat b < 2 ^ 64 then Some (a * b) else None)"

definition start_bits :: "chain_lib \<Rightarrow> compact_target option \<Rightarrow> target \<Rightarrow> target \<Rightarrow> string + compact_target" where
  "start_bits K overlay ceiling floor =
    (case overlay of
       Some bits \<Rightarrow>
         if ceiling < k_from_compact K bits then Inl ''regtest_pow_bits is easier than the regtest retarget ceiling''
         else if k_from_compact K bits < floor then Inl ''regtest_pow_bits is harder than the regtest retarget floor''
         else Inr bits
     | None \<Rightarrow> Inr (k_to_compact_lossy K ceiling))"

definition apply_regtest_retarget :: "chain_lib \<Rightarrow> u64 \<Rightarrow> u32 \<Rightarrow> chain_params \<Rightarrow> (string + unit) \<times> chain_params" where
  "apply_regtest_retarget K block_time interval p =
    (if cp_network p \<noteq> BtcRegtest then (Inl ''regtest retargeting is regtest only'', p)
     else if block_time = 0 then (Inl ''regtest block time must be greater than zero'', p)
     else if interval < 2 then (Inl ''regtest retarget interval must be at least 2'', p)
     else
       case checked_mul block_time (ucast interval) of
         None \<Rightarrow> (Inl ''regtest block time times retarget interval is too long'', p)
       | Some timespan \<Rightarrow>
           if \<not> timespan \<le> 0xFFFFFFFF then (Inl ''regtest block time times retarget interval is too long'', p)
           else if timespan < 4 then (Inl ''regtest block time times retarget interval must be at least 4 seconds'', p)
           else
             let ceiling = retarget_ceiling K timespan; floor = retarget_floor K timespan
             in case start_bits K (cp_regtest_pow_bits_overlay p) ceiling floor of
                  Inl e \<Rightarrow> (Inl e, p)
                | Inr start \<Rightarrow>
                    (Inr (),
                     p\<lparr>cp_btc := (cp_btc p)\<lparr>bp_pow_target_spacing := block_time, bp_pow_target_timespan := timespan,
                                          bp_no_pow_retargeting := False, bp_allow_min_difficulty_blocks := False,
                                          bp_max_attainable_target := ceiling\<rparr>,
                       cp_regtest_retarget := Some \<lparr>rr_start_bits = start, rr_ceiling = ceiling, rr_floor = floor\<rparr>\<rparr>))"

definition check_genesis_hash :: "chain_params \<Rightarrow> block_hash \<Rightarrow> bool" where
  "check_genesis_hash p hash = (hash = cp_genesis_hash p)"

definition genesis_block :: "chain_lib \<Rightarrow> chain_params \<Rightarrow> block" where
  "genesis_block K p = k_genesis_block K (cp_network p)"

section \<open>Parsing of overlay arguments\<close>

definition strip_0x :: "string \<Rightarrow> string" where
  "strip_0x s =
    (if starts_with s ''0x'' then drop 2 s else if starts_with s ''0X'' then drop 2 s else s)"

definition digit_value :: "nat \<Rightarrow> char \<Rightarrow> nat option" where
  "digit_value radix c =
    (let n = of_char c :: nat;
         v = (if 48 \<le> n \<and> n \<le> 57 then n - 48
              else if 97 \<le> n \<and> n \<le> 122 then n - 87
              else if 65 \<le> n \<and> n \<le> 90 then n - 55
              else radix)
     in if v < radix then Some v else None)"

text \<open>
  \<open>u32::from_str_radix\<close>: an optional leading plus sign, at least one digit, and no overflow.
\<close>

fun parse_digits :: "nat \<Rightarrow> nat \<Rightarrow> string \<Rightarrow> u32 option" where
  "parse_digits radix acc [] = Some (word_of_nat acc)"
| "parse_digits radix acc (c # cs) =
    (case digit_value radix c of
       None \<Rightarrow> None
     | Some d \<Rightarrow> let acc = acc * radix + d in if 2 ^ 32 \<le> acc then None else parse_digits radix acc cs)"

definition from_str_radix :: "nat \<Rightarrow> string \<Rightarrow> u32 option" where
  "from_str_radix radix s =
    (if s = [] \<or> s = ''+'' \<or> s = ''-'' then None
     else if hd s = CHR ''+'' then parse_digits radix 0 (tl s)
     else parse_digits radix 0 s)"

definition parse_regtest_pow_bits :: "string \<Rightarrow> string + u32" where
  "parse_regtest_pow_bits spec =
    (let hex = strip_0x spec
     in if hex = [] \<or> 8 < length hex then Inl ''invalid compact bits (hex, up to 8 digits)''
        else ok_or (from_str_radix 16 hex) ''invalid compact bits (hex, up to 8 digits)'')"

definition split_once :: "char \<Rightarrow> string \<Rightarrow> (string \<times> string) option" where
  "split_once c s = (if c \<in> set s then Some (takeWhile (\<lambda>x. x \<noteq> c) s, tl (dropWhile (\<lambda>x. x \<noteq> c) s)) else None)"

definition parse_test_activation_height :: "string \<Rightarrow> string + string \<times> u32" where
  "parse_test_activation_height spec =
    rbind (ok_or (split_once CHR ''@'' spec) ''invalid format (name@height)'') (\<lambda>(name, rest).
      if name = [] then Inl ''invalid format (name@height)''
      else rbind (ok_or (from_str_radix 10 rest) ''invalid height'') (\<lambda>height. Inr (name, height)))"

section \<open>Milestone\<close>

record milestone_anchor =
  ma_hash :: block_hash
  ma_min_work_be :: bytes

record milestone =
  ms_height :: u32
  ms_anchor :: "milestone_anchor option"

definition milestone_none :: milestone where
  "milestone_none = \<lparr>ms_height = 0, ms_anchor = None\<rparr>"

definition milestone_at_height :: "u32 \<Rightarrow> milestone" where
  "milestone_at_height height = \<lparr>ms_height = height, ms_anchor = None\<rparr>"

definition skips_scripts_at :: "milestone \<Rightarrow> u32 \<Rightarrow> bool" where
  "skips_scripts_at m height = (ms_anchor m = None \<and> 0 < ms_height m \<and> height \<le> ms_height m)"

definition skips_scripts :: "milestone \<Rightarrow> u32 \<Rightarrow> bytes \<Rightarrow> (u32 \<Rightarrow> bytes option) \<Rightarrow> bool" where
  "skips_scripts m height block header_at =
    (if ms_height m = 0 \<or> ms_height m < height then False
     else case ms_anchor m of
       None \<Rightarrow> True
     | Some anchor \<Rightarrow>
         if header_at height \<noteq> Some block then False
         else header_at (ms_height m) = Some (ma_hash anchor))"

definition MAINNET_MILESTONE_HASH :: string where
  "MAINNET_MILESTONE_HASH = ''00000000000000000000748969ec33043c0e52a763c6dd5193861f559f2c72e3''"

definition MAINNET_MIN_CHAIN_WORK :: string where
  "MAINNET_MIN_CHAIN_WORK = ''000000000000000000000000000000000000000145ec036acc5ba740052af1a0''"

definition TESTNET_MILESTONE_HASH :: string where
  "TESTNET_MILESTONE_HASH = ''00000000b318a3703d14a844c55ef507f4c2fc8f8766e24271fd43c180c51637''"

definition TESTNET_MIN_CHAIN_WORK :: string where
  "TESTNET_MIN_CHAIN_WORK = ''0000000000000000000000000000000000000000000017f49f702147f10c0eb6''"

definition TESTNET4_MIN_CHAIN_WORK :: string where
  "TESTNET4_MIN_CHAIN_WORK = ''000000000000000000000000000000000000000000000e346a558455ade8eca9''"

definition default_milestone_height :: "network \<Rightarrow> u32" where
  "default_milestone_height n =
    (case n of Mainnet \<Rightarrow> 966143 | Testnet \<Rightarrow> 5128859 | Signet \<Rightarrow> 0 | Testnet4 \<Rightarrow> 0 | Regtest \<Rightarrow> 0)"

definition hex_decode :: "chain_lib \<Rightarrow> string \<Rightarrow> bytes option" where
  "hex_decode K s = k_from_hex K (strip_0x s)"

definition min_work_from_display_hex :: "chain_lib \<Rightarrow> string \<Rightarrow> bytes" where
  "min_work_from_display_hex K hex = the (hex_decode K hex)"

definition default_min_chain_work_be :: "chain_lib \<Rightarrow> network \<Rightarrow> bytes option" where
  "default_min_chain_work_be K n =
    (case n of
       Mainnet \<Rightarrow> Some (min_work_from_display_hex K MAINNET_MIN_CHAIN_WORK)
     | Testnet \<Rightarrow> Some (min_work_from_display_hex K TESTNET_MIN_CHAIN_WORK)
     | Testnet4 \<Rightarrow> Some (min_work_from_display_hex K TESTNET4_MIN_CHAIN_WORK)
     | Signet \<Rightarrow> None
     | Regtest \<Rightarrow> None)"

definition default_signet_challenge :: "chain_lib \<Rightarrow> bytes" where
  "default_signet_challenge K =
    the (hex_decode K
      ''512103ad5e0edad18cb1f0fc0d28a3d4f1f3e445640337489abb10404f2d1e086be430210359ef5021964fe22d6f8e05b2463c9540ce96883fe3b278760f048f5189f2e6c452ae'')"

definition params_signet :: "chain_lib \<Rightarrow> chain_params" where
  "params_signet K = (case custom_signet K (default_signet_challenge K) (10 * 60) of Inr p \<Rightarrow> p)"

definition for_network :: "chain_lib \<Rightarrow> network \<Rightarrow> chain_params" where
  "for_network K n =
    (case n of Mainnet \<Rightarrow> params_mainnet K | Testnet \<Rightarrow> params_testnet K | Signet \<Rightarrow> params_signet K
     | Testnet4 \<Rightarrow> params_testnet4 K | Regtest \<Rightarrow> params_regtest K)"

definition anchor_of :: "chain_lib \<Rightarrow> network \<Rightarrow> string \<Rightarrow> milestone_anchor option" where
  "anchor_of K n hash =
    map_option (\<lambda>work. \<lparr>ma_hash = block_hash_from_display_hex K hash, ma_min_work_be = work\<rparr>)
      (default_min_chain_work_be K n)"

definition default_milestone_anchor :: "chain_lib \<Rightarrow> network \<Rightarrow> milestone_anchor option" where
  "default_milestone_anchor K n =
    (case n of
       Mainnet \<Rightarrow> anchor_of K n MAINNET_MILESTONE_HASH
     | Testnet \<Rightarrow> anchor_of K n TESTNET_MILESTONE_HASH
     | Signet \<Rightarrow> None
     | Testnet4 \<Rightarrow> None
     | Regtest \<Rightarrow> None)"

section \<open>A concrete instance\<close>

text \<open>
  An executable instance of the library interface for evaluating the model: compact bits are the
  target itself below \<open>2 ^ 32\<close>, and a hash meets a target when its first byte is zero.
\<close>

definition sample_header :: header where
  "sample_header =
    \<lparr>h_version = 4, h_prev_blockhash = [], h_merkle_root = [], h_time = 1000, h_bits = 0xFFFF, h_nonce = 0\<rparr>"

definition sample_coinbase :: transaction where
  "sample_coinbase =
    \<lparr>tx_version = 1, tx_lock_time = 0,
     tx_input = [\<lparr>ti_previous_output = (replicate 32 0, 0xFFFFFFFF), ti_script_sig = [1, 2],
                  ti_sequence = 0xFFFFFFFF, ti_witness = []\<rparr>],
     tx_output = [\<lparr>to_value = 5000000000, to_script_pubkey = [0x51]\<rparr>]\<rparr>"

definition sample_chain_lib :: chain_lib where
  "sample_chain_lib =
    \<lparr>k_btc = sample_lib,
     k_genesis_block = (\<lambda>_. \<lparr>b_header = sample_header, b_txdata = [sample_coinbase]\<rparr>),
     k_btc_params = (\<lambda>_. \<lparr>bp_bip34_height = 1, bp_bip65_height = 1, bp_bip66_height = 1, bp_pow_target_spacing = 600,
                          bp_pow_target_timespan = 1209600, bp_no_pow_retargeting = False,
                          bp_allow_min_difficulty_blocks = False, bp_max_attainable_target = 0xFFFFFF\<rparr>),
     k_max_attainable = (\<lambda>_. 0xFFFFFF),
     k_block_hash = (\<lambda>h. pad 32 (to_le 4 (unat (h_nonce h)))),
     k_block_hash_from_str = (\<lambda>s. Some (pad 32 (map (\<lambda>c. word_of_nat (of_char c)) s))),
     k_from_hex = (\<lambda>s. Some (map (\<lambda>c. word_of_nat (of_char c)) s)),
     k_interval = (\<lambda>bp. bp_pow_target_timespan bp div bp_pow_target_spacing bp),
     k_from_compact = ucast,
     k_to_compact_lossy = (\<lambda>t. if t \<le> 0xFFFFFFFF then ucast t else 0xFFFFFFFF),
     k_target_from_be_bytes = (\<lambda>bs. word_of_nat (of_le (rev bs))),
     k_is_met_by = (\<lambda>t h. take 1 h = [0]),
     k_next_work_required = (\<lambda>bits t bp.
       let m = bp_max_attainable_target bp in if ucast bits \<le> m then bits else ucast m),
     k_compute_wtxid = (\<lambda>tx. pad 32 (to_le 4 (unat (tx_version tx)))),
     k_compute_merkle_root = (\<lambda>b. if b_txdata b = [] then None else Some (pad 32 [])),
     k_base_size = (\<lambda>tx. 10 + length (tx_input tx) + length (tx_output tx)),
     k_weight = (\<lambda>tx. 400),
     k_deserialize_block = (\<lambda>_. None)\<rparr>"

lemma sample_chain_lib_simps [simp]:
  "k_btc sample_chain_lib = sample_lib"
  "k_genesis_block sample_chain_lib = (\<lambda>_. \<lparr>b_header = sample_header, b_txdata = [sample_coinbase]\<rparr>)"
  "k_btc_params sample_chain_lib = (\<lambda>_. \<lparr>bp_bip34_height = 1, bp_bip65_height = 1, bp_bip66_height = 1,
      bp_pow_target_spacing = 600, bp_pow_target_timespan = 1209600, bp_no_pow_retargeting = False,
      bp_allow_min_difficulty_blocks = False, bp_max_attainable_target = 0xFFFFFF\<rparr>)"
  "k_max_attainable sample_chain_lib = (\<lambda>_. 0xFFFFFF)"
  "k_block_hash sample_chain_lib = (\<lambda>h. pad 32 (to_le 4 (unat (h_nonce h))))"
  "k_interval sample_chain_lib = (\<lambda>bp. bp_pow_target_timespan bp div bp_pow_target_spacing bp)"
  "k_from_compact sample_chain_lib = ucast"
  "k_to_compact_lossy sample_chain_lib = (\<lambda>t. if t \<le> 0xFFFFFFFF then ucast t else 0xFFFFFFFF)"
  "k_target_from_be_bytes sample_chain_lib = (\<lambda>bs. word_of_nat (of_le (rev bs)))"
  "k_is_met_by sample_chain_lib = (\<lambda>t h. take 1 h = [0])"
  "k_next_work_required sample_chain_lib = (\<lambda>bits t bp.
     let m = bp_max_attainable_target bp in if ucast bits \<le> m then bits else ucast m)"
  "k_compute_wtxid sample_chain_lib = (\<lambda>tx. pad 32 (to_le 4 (unat (tx_version tx))))"
  "k_compute_merkle_root sample_chain_lib = (\<lambda>b. if b_txdata b = [] then None else Some (pad 32 []))"
  "k_base_size sample_chain_lib = (\<lambda>tx. 10 + length (tx_input tx) + length (tx_output tx))"
  "k_weight sample_chain_lib = (\<lambda>tx. 400)"
  "k_deserialize_block sample_chain_lib = (\<lambda>_. None)"
  by (simp_all add: sample_chain_lib_def)

section \<open>Median time\<close>

lemma sorted_rank:
  assumes "sorted xs" "k < length xs"
  shows "length (filter (\<lambda>t. t < xs ! k) xs) \<le> k" "k < length (filter (\<lambda>t. t \<le> xs ! k) xs)"
proof -
  have "filter (\<lambda>t. t < xs ! k) (drop k xs) = []"
    using assms by (auto simp: filter_empty_conv in_set_conv_nth not_less intro!: sorted_nth_mono)
  then have "filter (\<lambda>t. t < xs ! k) xs = filter (\<lambda>t. t < xs ! k) (take k xs)"
    by (metis append.right_neutral append_take_drop_id filter_append)
  then show "length (filter (\<lambda>t. t < xs ! k) xs) \<le> k"
    using length_filter_le [of "\<lambda>t. t < xs ! k" "take k xs"] assms by simp
  have "filter (\<lambda>t. t \<le> xs ! k) (take (Suc k) xs) = take (Suc k) xs"
    using assms by (auto simp: filter_id_conv in_set_conv_nth less_Suc_eq_le intro!: sorted_nth_mono)
  then have "filter (\<lambda>t. t \<le> xs ! k) xs = take (Suc k) xs @ filter (\<lambda>t. t \<le> xs ! k) (drop (Suc k) xs)"
    by (metis append_take_drop_id filter_append)
  then show "k < length (filter (\<lambda>t. t \<le> xs ! k) xs)" using assms by simp
qed

lemma length_filter_sort: "length (filter P (sort xs)) = length (filter P xs)"
  by (metis length_sort filter_sort)

lemma median_rank:
  assumes "ts \<noteq> []" and m: "m = median_time_past_times ts"
  shows "m \<in> set ts" "length (filter (\<lambda>t. t < m) ts) \<le> length ts div 2" "length ts div 2 < length (filter (\<lambda>t. t \<le> m) ts)"
proof -
  let ?k = "length ts div 2"
  have k: "?k < length (sort ts)" using assms by simp
  have eq: "m = sort ts ! ?k" by (simp add: m median_time_past_times_def Let_def)
  show "m \<in> set ts" unfolding eq using nth_mem [OF k] by simp
  show "length (filter (\<lambda>t. t < m) ts) \<le> ?k" "?k < length (filter (\<lambda>t. t \<le> m) ts)"
    using sorted_rank [OF sorted_sort k] by (simp_all add: eq length_filter_sort)
qed

lemma rank_unique:
  fixes a b :: "'a::linorder"
  assumes "length (filter (\<lambda>t. t < a) ts) \<le> k" "k < length (filter (\<lambda>t. t \<le> a) ts)"
    "length (filter (\<lambda>t. t < b) ts) \<le> k" "k < length (filter (\<lambda>t. t \<le> b) ts)"
  shows "a = b"
proof -
  have "x < y \<Longrightarrow> length (filter (\<lambda>t. t \<le> x) ts) \<le> length (filter (\<lambda>t. t < y) ts)" for x y :: 'a
    by (induction ts) auto
  with assms show ?thesis by (metis leD le_less_trans not_less_iff_gr_or_eq)
qed

text \<open>
  The median time of a nonempty window is its element of middle rank: the one entry of the
  window that at most half of the entries are below and more than half do not exceed, whatever
  the order of the window.
\<close>

theorem median_time_past_spec:
  assumes "median_window_new ts = Inr w"
  shows "median_time_past_times w = m \<longleftrightarrow>
    m \<in> set ts \<and> length (filter (\<lambda>t. t < m) ts) \<le> length ts div 2 \<and> length ts div 2 < length (filter (\<lambda>t. t \<le> m) ts)"
proof -
  have w: "w = ts" "ts \<noteq> []" using assms by (auto simp: median_window_new_def split: if_splits)
  show ?thesis
    using median_rank [OF w(2) refl] rank_unique [of "median_time_past_times ts" ts "length ts div 2" m]
    unfolding w by auto
qed

theorem median_time_past_spec_witness:
  "median_window_new [7, 3, 9, 5] = Inr [7, 3, 9, 5] \<and> median_time_past_times [7, 3, 9, 5] = 7"
  using median_time_past_spec [of "[7, 3, 9, 5]" "[7, 3, 9, 5]" 7] by (simp add: median_window_new_def)

section \<open>Retarget bounds\<close>

text \<open>Documented behaviour of \<open>Target::from_be_bytes\<close>: the big-endian value.\<close>

definition target_reads_be :: "chain_lib \<Rightarrow> bool" where
  "target_reads_be K \<longleftrightarrow> (\<forall>bs. length bs = 32 \<longrightarrow> unat (k_target_from_be_bytes K bs) = of_le (rev bs))"

lemma ceiling_step_eq:
  assumes "unat rem < unat d" "unat d \<le> 2 ^ 64"
  shows "ceiling_step d rem =
    (word_of_nat ((unat rem * 256 + 255) div unat d), word_of_nat ((unat rem * 256 + 255) mod unat d))"
    and "(unat rem * 256 + 255) div unat d < 256"
proof -
  let ?r = "push_bit 8 rem OR 0xFF"
  have r: "unat ?r = unat rem * 256 + 255"
    using unat_or_push_bit [of "0xFF :: 128 word" 8 rem] assms by (simp add: or.commute [of "push_bit 8 rem"] mult.commute)
  have "unat rem * 256 + 255 < 256 * unat d" using assms by simp
  then show q: "(unat rem * 256 + 255) div unat d < 256" by (rule less_mult_imp_div_less)
  have "unat (?r div d) = (unat rem * 256 + 255) div unat d" by (simp add: r unat_div_distrib)
  then have "ucast (?r div d) = (word_of_nat ((unat rem * 256 + 255) div unat d) :: u8)" "?r div d \<le> 0xFF"
    using q by (simp_all add: word_le_nat_alt word_eq_iff_unsigned [where ?'a = nat] unat_ucast_mod unat_of_nat)
  then show "ceiling_step d rem =
    (word_of_nat ((unat rem * 256 + 255) div unat d), word_of_nat ((unat rem * 256 + 255) mod unat d))"
    using arg_cong [OF unat_mod_distrib [of ?r d], of "word_of_nat :: nat \<Rightarrow> 128 word"]
    by (simp add: ceiling_step_def Let_def r)
qed

lemma long_division_step:
  "0 < d \<Longrightarrow> 0 < m \<Longrightarrow>
    (r * 256 + 255) div d * m + ((r * 256 + 255) mod d * m + m - 1) div d = (r * (256 * m) + 256 * m - 1) div d"
  for d m r :: nat
proof -
  assume "0 < d" "0 < m"
  let ?q = "(r * 256 + 255) div d" and ?s = "(r * 256 + 255) mod d"
  have "?q * m + (?s * m + m - 1) div d = (?s * m + m - 1 + ?q * m * d) div d"
    using \<open>0 < d\<close> by simp
  also have "s * m + m - 1 + q * m * d = (q * d + s) * m + m - 1" for q s :: nat
    using \<open>0 < m\<close> by (simp add: algebra_simps)
  also have "?q * d + ?s = r * 256 + 255" by (rule div_mult_mod_eq)
  also have "(r * 256 + 255) * m + m - 1 = r * (256 * m) + 256 * m - 1" by (simp add: algebra_simps)
  finally show ?thesis .
qed

lemma ceiling_bytes_value:
  assumes "unat d \<le> 2 ^ 64" "unat rem < unat d"
  shows "length (ceiling_bytes n d rem) = n
    \<and> of_le (rev (ceiling_bytes n d rem)) = (unat rem * 256 ^ n + 256 ^ n - 1) div unat d"
  using assms(2)
proof (induction n arbitrary: rem)
  case 0
  then show ?case by simp
next
  case (Suc n)
  let ?v = "unat rem * 256 + 255"
  have rem': "unat (word_of_nat (?v mod unat d) :: 128 word) = ?v mod unat d"
    using Suc.prems assms(1) mod_less_divisor [of "unat d" ?v] by (simp add: unat_of_nat del: mod_less_divisor)
  have IH: "length (ceiling_bytes n d (word_of_nat (?v mod unat d))) = n
    \<and> of_le (rev (ceiling_bytes n d (word_of_nat (?v mod unat d)))) = (?v mod unat d * 256 ^ n + 256 ^ n - 1) div unat d"
    using Suc.IH [of "word_of_nat (?v mod unat d)"] Suc.prems by (simp add: rem')
  show ?case
    using IH Suc.prems ceiling_step_eq [OF Suc.prems assms(1)] long_division_step [of "unat d" "256 ^ n" "unat rem"]
    by (simp add: of_le_append mult.commute add.commute)
qed

lemma retarget_ceiling_value:
  assumes "target_reads_be K" "0 < timespan" "timespan \<le> 0xFFFFFFFF"
  shows "unat (retarget_ceiling K timespan) = (2 ^ 256 - 1) div (4 * unat timespan)"
proof -
  let ?d = "ucast (max (sat_mul timespan 4) 1) :: 128 word"
  have t: "0 < unat timespan" "unat timespan < 2 ^ 32"
    using assms(2,3) by (simp_all add: word_less_nat_alt word_le_nat_alt)
  have mul: "unat (sat_mul timespan 4) = 4 * unat timespan"
    using t by (simp add: unat_sat_mul)
  then have "max (sat_mul timespan 4) 1 = sat_mul timespan 4"
    using t by (simp add: max_def word_le_nat_alt)
  then have d: "unat ?d = 4 * unat timespan"
    using t mul by (simp add: unat_ucast_mod)
  have "length (ceiling_bytes 32 ?d 0) = 32" "of_le (rev (ceiling_bytes 32 ?d 0)) = (2 ^ 256 - 1) div (4 * unat timespan)"
    using ceiling_bytes_value [of ?d 0 32] t by (simp_all add: d)
  then show ?thesis
    using assms(1) by (simp add: retarget_ceiling_def target_reads_be_def)
qed

lemma div_ceil_least:
  assumes "0 < unat b" "unat a < 2 ^ 63"
  shows "unat a \<le> unat (div_ceil a b) * unat b" "n < unat (div_ceil a b) \<Longrightarrow> n * unat b < unat a"
proof -
  have le: "unat a div unat b < 2 ^ 63" using assms(2) by (meson div_le_dividend le_less_trans)
  have zero: "a mod b = 0 \<longleftrightarrow> unat a mod unat b = 0" by (metis unat_mod_distrib unat_eq_zero)
  have F: "unat (div_ceil a b) = (if unat a mod unat b = 0 then unat a div unat b else unat a div unat b + 1)"
    using le zero by (simp add: div_ceil_def unat_word_ariths unat_div_distrib)
  have split: "unat a = unat a div unat b * unat b + unat a mod unat b" by simp
  show "unat a \<le> unat (div_ceil a b) * unat b"
  proof -
    have "unat a \<le> (unat a div unat b + 1) * unat b"
      unfolding distrib_right mult_1 using split mod_less_divisor [OF assms(1), of "unat a"] by linarith
    then show ?thesis unfolding F using split by auto
  qed
  assume n: "n < unat (div_ceil a b)"
  show "n * unat b < unat a"
  proof (cases "unat a mod unat b = 0")
    case True
    then have "n * unat b < unat a div unat b * unat b" using n assms(1) unfolding F by simp
    also have "unat a div unat b * unat b = unat a" using split True by linarith
    finally show ?thesis .
  next
    case False
    then have "n * unat b \<le> unat a div unat b * unat b" using n unfolding F by simp
    then show ?thesis using split False by linarith
  qed
qed

lemma of_le_zeros: "of_le (replicate n 0) = 0"
  by (induction n) simp_all

lemma quotient_tight:
  fixes d N :: nat
  assumes "0 < d" "0 < N"
  shows "(N - 1) div d * d < N \<and> N \<le> ((N - 1) div d + 1) * d"
proof -
  have "(N - 1) div d * d \<le> N - 1" by (rule div_times_less_eq_dividend)
  moreover have "N - 1 < ((N - 1) div d + 1) * d"
    using dividend_less_div_times [OF assms(1), of "N - 1"] by (simp add: add.commute)
  ultimately show ?thesis using assms(2) by linarith
qed

lemma retarget_floor_value:
  assumes "target_reads_be K" "4 \<le> timespan" "timespan \<le> 0xFFFFFFFF"
  shows "unat (retarget_floor K timespan) = unat (div_ceil timespan (drop_bit 2 timespan))"
proof -
  let ?f = "unat (div_ceil timespan (drop_bit 2 timespan))"
  have "?f < 256 ^ 8" using unsigned_less [of "div_ceil timespan (drop_bit 2 timespan)", where ?'a = nat] by simp
  then have "of_le (rev (replicate 24 0 @ rev (to_le 8 ?f))) = ?f"
    by (simp add: of_le_append of_le_to_le_id of_le_zeros)
  then show ?thesis using assms(1) by (simp add: retarget_floor_def target_reads_be_def)
qed

text \<open>
  The two bounds mean what they are for: at the ceiling four timespans still multiply into 256 bits
  and one target higher they do not; at the floor the hardest step is above zero and below it is zero.
\<close>

lemma retarget_ceiling_tight:
  assumes "target_reads_be K" "0 < timespan" "timespan \<le> 0xFFFFFFFF"
  shows "unat (retarget_ceiling K timespan) * (4 * unat timespan) < 2 ^ 256
    \<and> 2 ^ 256 \<le> (unat (retarget_ceiling K timespan) + 1) * (4 * unat timespan)"
proof -
  have "0 < 4 * unat timespan" using assms(2) by (simp add: word_less_nat_alt)
  then show ?thesis unfolding retarget_ceiling_value [OF assms] by (rule quotient_tight) (rule zero_less_power, simp)
qed

lemma quarter_bound: "4 \<le> n \<Longrightarrow> n \<le> 7 * (n div 4)" for n :: nat
  using div_mult_mod_eq [of n 4] mod_less_divisor [of 4 n] div_le_mono [of 4 n 4] by simp

lemma retarget_floor_tight:
  assumes "target_reads_be K" "4 \<le> timespan" "timespan \<le> 0xFFFFFFFF"
  shows "0 < unat (retarget_floor K timespan) * (unat timespan div 4) div unat timespan"
    and "t < unat (retarget_floor K timespan) \<Longrightarrow> t * (unat timespan div 4) div unat timespan = 0"
    and "unat (retarget_floor K timespan) < 8"
proof -
  have T: "4 \<le> unat timespan" "unat timespan < 2 ^ 63"
    using assms(2,3) by (simp_all add: word_le_nat_alt)
  let ?b = "drop_bit 2 timespan"
  have b: "unat ?b = unat timespan div 4" by (simp add: unat_drop_bit)
  have pos: "0 < unat ?b" using T by (simp add: b div_greater_zero_iff)
  note least = div_ceil_least [OF pos T(2), unfolded b]
  have F: "unat (retarget_floor K timespan) = unat (div_ceil timespan ?b)"
    by (rule retarget_floor_value [OF assms])
  show "0 < unat (retarget_floor K timespan) * (unat timespan div 4) div unat timespan"
    using least(1) T unfolding F by (simp add: div_greater_zero_iff)
  show "t < unat (retarget_floor K timespan) \<Longrightarrow> t * (unat timespan div 4) div unat timespan = 0"
    using least(2) unfolding F by simp
  show "unat (retarget_floor K timespan) < 8"
  proof (rule ccontr)
    assume "\<not> ?thesis"
    then have "7 * (unat timespan div 4) < unat timespan" using least(2) [of 7] unfolding F by simp
    then show False using quarter_bound [OF T(1)] by simp
  qed
qed

end
