(* ===== verification/Header.thy ===== *)
theory Header
  imports Chain
begin

text \<open>
  Header rules of \<open>crates/rbitcoin-consensus/src/header.rs\<close>: linkage, median time, version and future
  time, time warp, the expected difficulty bits with the regtest overlays, and proof of work. A rule
  that may be waived goes through the trust collector; the clock sample of \<open>current_now\<close> is the
  argument \<open>now\<close>. The closure \<open>bits_at\<close> is a function.
\<close>

section \<open>Definitions\<close>

record parent_header =
  ph_hash :: bytes
  ph_time :: u32
  ph_bits :: compact_target

record period_first =
  pf_time :: u32
  pf_bits :: compact_target

definition period_first_of :: "header \<Rightarrow> period_first" where
  "period_first_of h = \<lparr>pf_time = h_time h, pf_bits = h_bits h\<rparr>"

definition MAX_TIMEWARP :: u32 where
  "MAX_TIMEWARP = 600"

definition check_timewarp :: "chain_lib \<Rightarrow> chain_params \<Rightarrow> u32 \<Rightarrow> u32 \<Rightarrow> header \<Rightarrow> unit checked" where
  "check_timewarp K p height parent_time h =
    (let interval = difficulty_adjustment_interval K p
     in if \<not> cp_enforce_bip94 p \<or> interval = 0 \<or> height mod interval \<noteq> 0 then tret ()
        else if h_time h < sat_sub parent_time MAX_TIMEWARP then
          soften_at (Some height) (BadHeader ''time-timewarp-attack'')
        else tret ())"

definition pow_hash_meets_target :: "chain_lib \<Rightarrow> bytes \<Rightarrow> compact_target \<Rightarrow> target \<Rightarrow> unit consensus" where
  "pow_hash_meets_target K hash bits pow_limit =
    (let target = k_from_compact K bits
     in if pow_limit < target then Inl (BadHeader ''target above pow limit'')
        else if \<not> k_is_met_by K target hash then Inl InvalidPow
        else Inr ())"

definition MAX_FUTURE_BLOCK_TIME :: u64 where
  "MAX_FUTURE_BLOCK_TIME = 2 * 60 * 60"

text \<open>\<open>nVersion\<close> is an \<open>i32\<close>, so the floors compare the signed value of the word.\<close>

definition check_header_version_and_future_time :: "u64 \<Rightarrow> chain_params \<Rightarrow> u32 \<Rightarrow> header \<Rightarrow> unit consensus" where
  "check_header_version_and_future_time now p height h =
    (if sat_add now MAX_FUTURE_BLOCK_TIME < ucast (h_time h) then Inl (BadHeader ''timestamp too far in future'')
     else
       let ver = sint (h_version h)
       in if bip34_active_at p height \<and> ver < 2 \<or> bip66_active_at p height \<and> ver < 3
            \<or> bip65_active_at p height \<and> ver < 4
          then Inl (BadVersion (h_version h))
          else Inr ())"

definition retarget_bits :: "chain_lib \<Rightarrow> chain_params \<Rightarrow> compact_target \<Rightarrow> u32 \<Rightarrow> period_first \<Rightarrow> compact_target" where
  "retarget_bits K p prev_bits prev_time first =
    (let base = (if cp_enforce_bip94 p then pf_bits first else prev_bits);
         base = (case cp_regtest_retarget p of
                   Some r \<Rightarrow> if rr_ceiling r < k_from_compact K base then k_to_compact_lossy K (rr_ceiling r) else base
                 | None \<Rightarrow> base);
         timespan = ucast (sat_sub prev_time (pf_time first));
         bits = k_next_work_required K base timespan (cp_btc p)
     in case cp_regtest_retarget p of
          Some r \<Rightarrow> if k_from_compact K bits < rr_floor r then k_to_compact_lossy K (rr_floor r) else bits
        | None \<Rightarrow> bits)"

definition min_diff_gap :: "chain_params \<Rightarrow> u32 \<Rightarrow> u32 \<Rightarrow> bool" where
  "min_diff_gap p prev_time header_time =
    (let spacing = bp_pow_target_spacing (cp_btc p)
     in sat_add (ucast prev_time) (sat_mul spacing 2) < (ucast header_time :: u64))"

definition apply_regtest_pow_overlay ::
  "chain_lib \<Rightarrow> chain_params \<Rightarrow> u32 \<Rightarrow> compact_target \<Rightarrow> u32 \<Rightarrow> u32 \<Rightarrow> compact_target" where
  "apply_regtest_pow_overlay K p height bits prev_time header_time =
    (if cp_network p \<noteq> BtcRegtest then bits
     else case cp_regtest_retarget p of
       Some retarget \<Rightarrow>
         let first_retarget = difficulty_adjustment_interval K p
         in if 1 \<le> height \<and> height \<le> first_retarget then rr_start_bits retarget else bits
     | None \<Rightarrow>
         (case cp_regtest_pow_bits_overlay p of
            None \<Rightarrow> bits
          | Some overlay \<Rightarrow>
              if height = 0 \<or> bits \<noteq> k_to_compact_lossy K (cp_pow_limit p) then bits
              else
                let interval = difficulty_adjustment_interval K p
                in if interval \<noteq> 0 \<and> height mod interval = 0 then bits
                   else if allow_min_difficulty_blocks p \<and> min_diff_gap p prev_time header_time then bits
                   else overlay))"

text \<open>
  The walk of \<open>min_diff_bits\<close> back over minimum-difficulty blocks. The recursion ends because the
  height falls, and height zero is a multiple of every interval.
\<close>

function min_diff_walk ::
  "u32 \<Rightarrow> compact_target \<Rightarrow> (u32 \<Rightarrow> compact_target option) \<Rightarrow> u32 \<Rightarrow> compact_target \<Rightarrow> compact_target option" where
  "min_diff_walk interval limit bits_at h bits =
    (if 0 < interval \<and> h mod interval \<noteq> 0 \<and> bits = limit then
       (if h = 0 then Some bits
        else
          case bits_at (h - 1) of
            None \<Rightarrow> None
          | Some b \<Rightarrow> min_diff_walk interval limit bits_at (h - 1) b)
     else Some bits)"
  by pat_completeness auto
termination
  by (relation "measure (\<lambda>(_, _, _, h, _). unat h)") (auto simp: unat_minus_one unat_gt_0)

declare min_diff_walk.simps [simp del]

definition min_diff_bits ::
  "chain_lib \<Rightarrow> chain_params \<Rightarrow> u32 \<Rightarrow> compact_target \<Rightarrow> u32 \<Rightarrow> u32 \<Rightarrow> (u32 \<Rightarrow> compact_target option) \<Rightarrow> compact_target option" where
  "min_diff_bits K p height prev_bits prev_time header_time bits_at =
    (if \<not> allow_min_difficulty_blocks p then Some prev_bits
     else
       let limit = k_to_compact_lossy K (cp_pow_limit p)
       in if min_diff_gap p prev_time header_time then Some limit
          else min_diff_walk (difficulty_adjustment_interval K p) limit bits_at (height - 1) prev_bits)"

definition next_work_bits_base ::
  "chain_lib \<Rightarrow> chain_params \<Rightarrow> u32 \<Rightarrow> compact_target \<Rightarrow> u32 \<Rightarrow> u32 \<Rightarrow> period_first option \<Rightarrow> (u32 \<Rightarrow> compact_target option) \<Rightarrow>
   compact_target option" where
  "next_work_bits_base K p height prev_bits prev_time header_time period_first bits_at =
    (if height = 0 then None
     else
       let interval = difficulty_adjustment_interval K p
       in if interval = 0 \<or> height mod interval \<noteq> 0 then
            min_diff_bits K p height prev_bits prev_time header_time bits_at
          else if no_pow_retargeting p then Some prev_bits
          else map_option (retarget_bits K p prev_bits prev_time) period_first)"

definition next_work_bits ::
  "chain_lib \<Rightarrow> chain_params \<Rightarrow> u32 \<Rightarrow> compact_target \<Rightarrow> u32 \<Rightarrow> u32 \<Rightarrow> period_first option \<Rightarrow> (u32 \<Rightarrow> compact_target option) \<Rightarrow>
   compact_target option" where
  "next_work_bits K p height prev_bits prev_time header_time period_first bits_at =
    map_option (\<lambda>bits. apply_regtest_pow_overlay K p height bits prev_time header_time)
      (next_work_bits_base K p height prev_bits prev_time header_time period_first bits_at)"

definition header_mtp :: "u32 \<Rightarrow> u32 list \<Rightarrow> u32 checked" where
  "header_mtp height mtp_times =
    (case median_window_new mtp_times of
       Inr ts \<Rightarrow> tret (median_time_past_times ts)
     | Inl _ \<Rightarrow> tbind (soften_at (Some height) (BadHeader ''empty median time'')) (\<lambda>_. tret 0))"

text \<open>\<open>if let Err(e) = r { soften_at(Some(height), e)? }\<close>.\<close>

definition soften_result :: "u32 \<Rightarrow> unit consensus \<Rightarrow> unit checked" where
  "soften_result height r = (case r of Inl e \<Rightarrow> soften_at (Some height) e | Inr _ \<Rightarrow> tret ())"

definition check_genesis_header :: "chain_lib \<Rightarrow> chain_params \<Rightarrow> header \<Rightarrow> bytes \<Rightarrow> u32 consensus" where
  "check_genesis_header K p h hash =
    (if \<not> check_genesis_hash p hash then Inl (BadHeader ''genesis hash mismatch'')
     else if h_bits h \<noteq> h_bits (b_header (genesis_block K p)) then Inl (BadHeader ''incorrect proof of work bits'')
     else rbind (pow_hash_meets_target K hash (h_bits h) (cp_pow_limit p)) (\<lambda>_. Inr 0))"

definition check_header_work ::
  "chain_lib \<Rightarrow> chain_params \<Rightarrow> u32 \<Rightarrow> header \<Rightarrow> bytes \<Rightarrow> parent_header \<Rightarrow> period_first option \<Rightarrow>
   (u32 \<Rightarrow> compact_target option) \<Rightarrow> unit consensus" where
  "check_header_work K p height h hash parent period_first bits_at =
    (let interval = difficulty_adjustment_interval K p
     in if 0 < interval \<and> height mod interval = 0 \<and> \<not> no_pow_retargeting p \<and> period_first = None
        then Inl (BadHeader ''missing retarget first header'')
        else
          rbind (ok_or (next_work_bits K p height (ph_bits parent) (ph_time parent) (h_time h) period_first bits_at) BadPrev)
            (\<lambda>expected.
               if h_bits h \<noteq> expected then Inl (BadHeader ''incorrect proof of work bits'')
               else pow_hash_meets_target K hash (h_bits h) (cp_pow_limit p)))"

definition check_header ::
  "chain_lib \<Rightarrow> u64 \<Rightarrow> chain_params \<Rightarrow> u32 \<Rightarrow> header \<Rightarrow> bytes \<Rightarrow> parent_header option \<Rightarrow> u32 list \<Rightarrow> period_first option \<Rightarrow>
   (u32 \<Rightarrow> compact_target option) \<Rightarrow> u32 checked" where
  "check_header K now p height h hash parent mtp_times period_first bits_at =
    (if height = 0 then tlift (check_genesis_header K p h hash)
     else
       tbind (tlift (ok_or parent BadPrev)) (\<lambda>parent.
       if ph_hash parent \<noteq> h_prev_blockhash h then tfail BadPrev
       else
         tbind (header_mtp height mtp_times) (\<lambda>mtp.
         tbind (if h_time h \<le> mtp then soften_at (Some height) (BadHeader ''timestamp <= median-time-past'')
                else tret ()) (\<lambda>_.
         tbind (check_timewarp K p height (ph_time parent) h) (\<lambda>_.
         tbind (soften_result height (check_header_version_and_future_time now p height h)) (\<lambda>_.
         tbind (tlift (check_header_work K p height h hash parent period_first bits_at)) (\<lambda>_.
         tret mtp)))))))"

definition validate_header_on_parent ::
  "chain_lib \<Rightarrow> u64 \<Rightarrow> chain_params \<Rightarrow> u32 \<Rightarrow> header \<Rightarrow> u32 \<Rightarrow> u32 \<Rightarrow> compact_target \<Rightarrow> bytes \<Rightarrow> unit checked" where
  "validate_header_on_parent K now p height h parent_mtp parent_time expected_bits hash =
    tbind (if h_time h \<le> parent_mtp then soften_at (Some height) (BadHeader ''timestamp <= median-time-past'')
           else tret ()) (\<lambda>_.
    tbind (check_timewarp K p height parent_time h) (\<lambda>_.
    tbind (soften_result height (check_header_version_and_future_time now p height h)) (\<lambda>_.
    if h_bits h \<noteq> expected_bits then tfail (BadHeader ''incorrect proof of work bits'')
    else tlift (pow_hash_meets_target K hash (h_bits h) (cp_pow_limit p)))))"

section \<open>The collector discipline\<close>

lemma disciplined_check_timewarp [trust_intros]: "disciplined (check_timewarp K p height pt h)"
  by (simp add: check_timewarp_def Let_def trust_intros)

lemma disciplined_soften_result [trust_intros]: "disciplined (soften_result height r)"
  by (cases r) (simp_all add: soften_result_def trust_intros)

lemma disciplined_header_mtp [trust_intros]: "disciplined (header_mtp height mtp_times)"
  by (cases "median_window_new mtp_times") (simp_all add: header_mtp_def trust_intros)

lemma disciplined_check_header: "disciplined (check_header K now p height h hash parent mtp_times pf bits_at)"
  unfolding check_header_def by (intro trust_intros)

lemma disciplined_validate_header_on_parent:
  "disciplined (validate_header_on_parent K now p height h mtp pt bits hash)"
  unfolding validate_header_on_parent_def by (intro trust_intros)

interpretation header_check: trust_check "check_header K now p height h hash parent mtp_times pf bits_at"
  for K now p height h hash parent mtp_times pf bits_at
  by unfold_locales (rule disciplined_check_header)

interpretation parent_check: trust_check "validate_header_on_parent K now p height h mtp pt bits hash"
  for K now p height h mtp pt bits hash
  by unfold_locales (rule disciplined_validate_header_on_parent)

section \<open>What each rule accepts\<close>

definition timewarp_ok :: "chain_lib \<Rightarrow> chain_params \<Rightarrow> u32 \<Rightarrow> u32 \<Rightarrow> header \<Rightarrow> bool" where
  "timewarp_ok K p height parent_time h \<longleftrightarrow>
    (cp_enforce_bip94 p \<and> difficulty_adjustment_interval K p \<noteq> 0 \<and> height mod difficulty_adjustment_interval K p = 0 \<longrightarrow>
     unat parent_time \<le> unat (h_time h) + 600)"

definition version_ok :: "chain_params \<Rightarrow> u32 \<Rightarrow> header \<Rightarrow> bool" where
  "version_ok p height h \<longleftrightarrow>
    (bip34_active_at p height \<longrightarrow> 2 \<le> sint (h_version h)) \<and>
    (bip66_active_at p height \<longrightarrow> 3 \<le> sint (h_version h)) \<and>
    (bip65_active_at p height \<longrightarrow> 4 \<le> sint (h_version h))"

definition work_ok :: "chain_lib \<Rightarrow> chain_params \<Rightarrow> compact_target \<Rightarrow> bytes \<Rightarrow> bool" where
  "work_ok K p bits hash \<longleftrightarrow> k_from_compact K bits \<le> cp_pow_limit p \<and> k_is_met_by K (k_from_compact K bits) hash"

lemma timewarp_strict:
  "\<not> collecting ts \<Longrightarrow> fst (check_timewarp K p height pt h ts) = Inr u \<longleftrightarrow> timewarp_ok K p height pt h"
proof -
  have "h_time h < sat_sub pt MAX_TIMEWARP \<longleftrightarrow> \<not> unat pt \<le> unat (h_time h) + 600"
    by (auto simp: word_less_nat_alt unat_sat_sub MAX_TIMEWARP_def)
  then show "\<not> collecting ts \<Longrightarrow> ?thesis"
    by (simp add: check_timewarp_def Let_def strict_simps timewarp_ok_def)
qed

lemma pow_hash_meets_target_iff [result_simps]:
  "pow_hash_meets_target K hash bits (cp_pow_limit p) = Inr u \<longleftrightarrow> work_ok K p bits hash"
  by (auto simp: pow_hash_meets_target_def Let_def work_ok_def)

lemma version_and_future_iff [result_simps]:
  "check_header_version_and_future_time now p height h = Inr u \<longleftrightarrow>
    unat (h_time h) \<le> unat now + 7200 \<and> version_ok p height h"
proof -
  have "sat_add now MAX_FUTURE_BLOCK_TIME < ucast (h_time h) \<longleftrightarrow> unat now + 7200 < unat (h_time h)"
    using unsigned_less [of "h_time h", where ?'a = nat]
    by (auto simp: word_less_nat_alt unat_sat_add MAX_FUTURE_BLOCK_TIME_def unat_ucast_mod)
  then show ?thesis
    by (auto simp: check_header_version_and_future_time_def Let_def version_ok_def)
qed

lemma soften_result_strict: "\<not> collecting ts \<Longrightarrow> fst (soften_result height r ts) = r"
  by (cases r) (simp_all add: soften_result_def strict_simps)

lemma header_mtp_strict:
  "\<not> collecting ts \<Longrightarrow> fst (header_mtp height mtp_times ts) = Inr m \<longleftrightarrow>
    mtp_times \<noteq> [] \<and> m = median_time_past_times mtp_times"
  by (auto simp: header_mtp_def median_window_new_def strict_simps trust_intros)

lemma next_work_bits_missing:
  "0 < difficulty_adjustment_interval K p \<Longrightarrow> height mod difficulty_adjustment_interval K p = 0 \<Longrightarrow>
   \<not> no_pow_retargeting p \<Longrightarrow> next_work_bits K p height pb pt ht None bits_at = None"
  by (auto simp: next_work_bits_def next_work_bits_base_def Let_def)

lemma check_header_work_iff [result_simps]:
  "check_header_work K p height h hash pa pf bits_at = Inr u \<longleftrightarrow>
    next_work_bits K p height (ph_bits pa) (ph_time pa) (h_time h) pf bits_at = Some (h_bits h)
    \<and> work_ok K p (h_bits h) hash"
proof (cases "0 < difficulty_adjustment_interval K p \<and> height mod difficulty_adjustment_interval K p = 0
    \<and> \<not> no_pow_retargeting p \<and> pf = None")
  case True
  then show ?thesis unfolding check_header_work_def by (simp add: next_work_bits_missing Let_def)
next
  case False
  then have "check_header_work K p height h hash pa pf bits_at =
      rbind (ok_or (next_work_bits K p height (ph_bits pa) (ph_time pa) (h_time h) pf bits_at) BadPrev) (\<lambda>expected.
        if h_bits h \<noteq> expected then Inl (BadHeader ''incorrect proof of work bits'')
        else pow_hash_meets_target K hash (h_bits h) (cp_pow_limit p))"
    unfolding check_header_work_def Let_def by (simp only: if_False)
  then show ?thesis by (auto simp: result_simps)
qed

lemma check_genesis_header_iff:
  "check_genesis_header K p h hash = Inr m \<longleftrightarrow>
    hash = cp_genesis_hash p \<and> h_bits h = h_bits (b_header (genesis_block K p)) \<and> work_ok K p (h_bits h) hash \<and> m = 0"
  by (auto simp: check_genesis_header_def check_genesis_hash_def result_simps)

text \<open>The rules a header above genesis meets when nothing is waived.\<close>

definition header_rules ::
  "chain_lib \<Rightarrow> u64 \<Rightarrow> chain_params \<Rightarrow> u32 \<Rightarrow> header \<Rightarrow> bytes \<Rightarrow> parent_header \<Rightarrow> u32 list \<Rightarrow> period_first option \<Rightarrow>
   (u32 \<Rightarrow> compact_target option) \<Rightarrow> bool" where
  "header_rules K now p height h hash pa mtp_times pf bits_at \<longleftrightarrow>
    ph_hash pa = h_prev_blockhash h
    \<and> mtp_times \<noteq> [] \<and> median_time_past_times mtp_times < h_time h
    \<and> timewarp_ok K p height (ph_time pa) h
    \<and> unat (h_time h) \<le> unat now + 7200 \<and> version_ok p height h
    \<and> next_work_bits K p height (ph_bits pa) (ph_time pa) (h_time h) pf bits_at = Some (h_bits h)
    \<and> work_ok K p (h_bits h) hash"

lemma check_header_strict:
  assumes "\<not> collecting ts" "height \<noteq> 0"
  shows "fst (check_header K now p height h hash parent mtp_times pf bits_at ts) = Inr m \<longleftrightarrow>
    (\<exists>pa. parent = Some pa \<and> header_rules K now p height h hash pa mtp_times pf bits_at
          \<and> m = median_time_past_times mtp_times)"
proof -
  have "fst (check_header K now p height h hash (Some pa) mtp_times pf bits_at ts) = Inr m \<longleftrightarrow>
      header_rules K now p height h hash pa mtp_times pf bits_at \<and> m = median_time_past_times mtp_times" for pa
    using assms
    by (auto simp: check_header_def strict_simps trust_intros result_simps header_rules_def
        header_mtp_strict timewarp_strict soften_result_strict not_le split: if_splits)
  moreover have "fst (check_header K now p height h hash None mtp_times pf bits_at ts) \<noteq> Inr m"
    using assms by (simp add: check_header_def strict_simps trust_intros)
  ultimately show ?thesis by (cases parent) auto
qed

section \<open>Properties\<close>

text \<open>
  C12. Outside trust mode a header is accepted exactly when it is the genesis header with the
  genesis bits, or it names its parent, its time is above the median of a nonempty window and at
  most two hours ahead of the clock, the time-warp rule and the version floors hold, its bits are
  the next required work, and its hash meets the target of those bits, which is at most the
  network limit; the value returned is the median (zero at genesis).
\<close>

theorem check_header_accepts:
  assumes "\<not> collecting ts"
  shows "fst (check_header K now p height h hash parent mtp_times pf bits_at ts) = Inr m \<longleftrightarrow>
    (if height = 0
     then hash = cp_genesis_hash p \<and> h_bits h = h_bits (b_header (genesis_block K p)) \<and> work_ok K p (h_bits h) hash \<and> m = 0
     else \<exists>pa. parent = Some pa \<and> header_rules K now p height h hash pa mtp_times pf bits_at
            \<and> m = median_time_past_times mtp_times)"
proof (cases "height = 0")
  case True
  then show ?thesis by (simp add: check_header_def strict_simps check_genesis_header_iff)
next
  case False
  with assms show ?thesis by (simp add: check_header_strict)
qed

theorem check_header_accepts_witness:
  "fst (check_header sample_chain_lib 5000 (params_mainnet sample_chain_lib) 1
     (sample_header\<lparr>h_prev_blockhash := [7], h_time := 1200\<rparr>) [0] (Some \<lparr>ph_hash = [7], ph_time = 1000, ph_bits = 0xFFFF\<rparr>)
     [1000] None (\<lambda>_. None) trust_off) = Inr 1000"
  using check_header_accepts [of trust_off sample_chain_lib 5000 "params_mainnet sample_chain_lib" 1
      "sample_header\<lparr>h_prev_blockhash := [7], h_time := 1200\<rparr>" "[0]" "Some \<lparr>ph_hash = [7], ph_time = 1000, ph_bits = 0xFFFF\<rparr>"
      "[1000]" None "\<lambda>_. None" 1000]
  by (simp add: header_rules_def sample_header_def median_time_past_times_def timewarp_ok_def version_ok_def work_ok_def
      params_mainnet_def base_params_def Let_def difficulty_adjustment_interval_def next_work_bits_def next_work_bits_base_def
      min_diff_bits_def allow_min_difficulty_blocks_def apply_regtest_pow_overlay_def)

lemma check_header_hard_rules:
  assumes "check_header K now p height h hash parent mtp_times pf bits_at ts = (Inr m, ts')" "height \<noteq> 0"
  obtains pa where "parent = Some pa" "ph_hash pa = h_prev_blockhash h"
    "next_work_bits K p height (ph_bits pa) (ph_time pa) (h_time h) pf bits_at = Some (h_bits h)"
    "work_ok K p (h_bits h) hash"
  using assms by (auto simp: check_header_def trust_simps result_simps split: if_splits)

text \<open>
  C13. Trust mode never waives the parent link, the difficulty bits or the proof of work: in any
  collector state an accepted header above genesis has all three. The run only appends
  warn-and-apply faults, and a header passes the strict check exactly when it passes under a
  collector without adding a warning.
\<close>

theorem check_header_trust_boundary:
  assumes "check_header K now p height h hash parent mtp_times pf bits_at ts = (Inr m, ts')" "height \<noteq> 0"
  shows "(\<exists>pa. parent = Some pa \<and> ph_hash pa = h_prev_blockhash h
            \<and> next_work_bits K p height (ph_bits pa) (ph_time pa) (h_time h) pf bits_at = Some (h_bits h))
    \<and> work_ok K p (h_bits h) hash
    \<and> (\<exists>ws. ts' = ts\<lparr>ts_warns := ts_warns ts @ ws\<rparr> \<and> list_all (\<lambda>(_, e). is_warn_and_apply e) ws)
    \<and> (collecting ts \<longrightarrow>
        (ts' = ts \<longleftrightarrow> fst (check_header K now p height h hash parent mtp_times pf bits_at trust_off) = Inr m))"
proof -
  obtain pa where "parent = Some pa" "ph_hash pa = h_prev_blockhash h"
    "next_work_bits K p height (ph_bits pa) (ph_time pa) (h_time h) pf bits_at = Some (h_bits h)"
    "work_ok K p (h_bits h) hash"
    by (rule check_header_hard_rules [OF assms])
  moreover have "fst (check_header K now p height h hash parent mtp_times pf bits_at trust_off) = Inr m \<longleftrightarrow> ts' = ts"
    if "collecting ts"
    using header_check.accepted_strictly_iff [OF trust_samples(1) that] assms(1) by simp
  ultimately show ?thesis using header_check.warnings_classified [OF assms(1)] by blast
qed

theorem check_header_trust_boundary_witness:
  "\<exists>ts'. check_header sample_chain_lib 5000 (params_mainnet sample_chain_lib) 1
     (sample_header\<lparr>h_prev_blockhash := [7], h_time := 900\<rparr>) [0] (Some \<lparr>ph_hash = [7], ph_time = 1000, ph_bits = 0xFFFF\<rparr>)
     [1000] None (\<lambda>_. None) trust_on = (Inr 1000, ts') \<and> ts_warns ts' \<noteq> []
     \<and> work_ok sample_chain_lib (params_mainnet sample_chain_lib) 0xFFFF [0]"
proof -
  let ?h = "sample_header\<lparr>h_prev_blockhash := [7], h_time := 900\<rparr>" and ?p = "params_mainnet sample_chain_lib"
  let ?r = "check_header sample_chain_lib 5000 ?p 1 ?h [0] (Some \<lparr>ph_hash = [7], ph_time = 1000, ph_bits = 0xFFFF\<rparr>)
     [1000] None (\<lambda>_. None) trust_on"
  have soft: "is_warn_and_apply (BadHeader ''timestamp <= median-time-past'')" by code_simp
  have run: "?r = (Inr 1000, trust_on\<lparr>ts_warns := [(Some 1, BadHeader ''timestamp <= median-time-past'')]\<rparr>)"
    by (simp add: check_header_def sample_header_def header_mtp_def median_window_new_def median_time_past_times_def
        params_mainnet_def base_params_def Let_def difficulty_adjustment_interval_def next_work_bits_def next_work_bits_base_def
        min_diff_bits_def allow_min_difficulty_blocks_def apply_regtest_pow_overlay_def tbind_def tlift_def tret_def
        soften_at_def soft check_timewarp_def check_header_version_and_future_time_def soften_result_def MAX_FUTURE_BLOCK_TIME_def
        sat_add_def check_header_work_def pow_hash_meets_target_def trust_on_def trust_enter_def trust_off_def collecting_def)
  show ?thesis
    using check_header_trust_boundary [OF run] run by (simp add: sample_header_def)
qed

section \<open>Expected work\<close>

lemma min_diff_walk_spec:
  assumes "\<And>k. k < h \<Longrightarrow> bits_at k = Some (B k)" "n \<noteq> 0"
  shows "\<exists>j \<le> h. min_diff_walk n limit bits_at h (B h) = Some (B j) \<and> (j mod n = 0 \<or> B j \<noteq> limit)
    \<and> (\<forall>k. j < k \<and> k \<le> h \<longrightarrow> k mod n \<noteq> 0 \<and> B k = limit)"
  using assms
proof (induction "unat h" arbitrary: h rule: less_induct)
  case less
  show ?case
  proof (cases "h mod n \<noteq> 0 \<and> B h = limit")
    case False
    then have "min_diff_walk n limit bits_at h (B h) = Some (B h)" by (subst min_diff_walk.simps) auto
    with False show ?thesis by (intro exI [of _ h]) auto
  next
    case True
    then have h: "h \<noteq> 0" by auto
    then have pred: "h - 1 < h" "unat (h - 1) < unat h" "k < h \<longleftrightarrow> k \<le> h - 1" for k
      by (simp_all add: word_less_nat_alt word_le_nat_alt unat_minus_one unat_gt_0) (metis Suc_pred less_Suc_eq_le unat_gt_0)
    have below: "k < h - 1 \<Longrightarrow> bits_at k = Some (B k)" for k
      using pred(1) by (intro less.prems(1)) (rule order.strict_trans)
    have "min_diff_walk n limit bits_at h (B h) = min_diff_walk n limit bits_at (h - 1) (B (h - 1))"
      using True h less.prems(1) [OF pred(1)] less.prems(2) by (subst min_diff_walk.simps) (simp add: word_gt_0)
    moreover have "\<exists>j \<le> h - 1. min_diff_walk n limit bits_at (h - 1) (B (h - 1)) = Some (B j) \<and> (j mod n = 0 \<or> B j \<noteq> limit)
        \<and> (\<forall>k. j < k \<and> k \<le> h - 1 \<longrightarrow> k mod n \<noteq> 0 \<and> B k = limit)"
      by (rule less.hyps [OF pred(2)]) (erule below, rule less.prems(2))
    then obtain j where J: "j \<le> h - 1 \<and> min_diff_walk n limit bits_at (h - 1) (B (h - 1)) = Some (B j)
        \<and> (j mod n = 0 \<or> B j \<noteq> limit) \<and> (\<forall>k. j < k \<and> k \<le> h - 1 \<longrightarrow> k mod n \<noteq> 0 \<and> B k = limit)" ..
    note j = J [THEN conjunct1] J [THEN conjunct2, THEN conjunct1] J [THEN conjunct2, THEN conjunct2, THEN conjunct1]
      J [THEN conjunct2, THEN conjunct2, THEN conjunct2]
    moreover have "\<forall>k. j < k \<and> k \<le> h \<longrightarrow> k mod n \<noteq> 0 \<and> B k = limit"
      using j(4) True pred(3) by (auto simp: le_less del: mod_0_imp_dvd)
    ultimately show ?thesis using j(1-3) pred(1) by (intro exI [of _ j]) (auto intro: order.trans del: mod_0_imp_dvd)
  qed
qed

text \<open>
  C36. The minimum-difficulty walk: on a network that allows minimum-difficulty blocks, away from a
  retarget height and without the time gap, the bits required after a chain with bits \<open>B\<close> are those
  of the last block that opens a period or is not a minimum-difficulty block.
\<close>

theorem min_diff_bits_last_real:
  assumes "allow_min_difficulty_blocks p" "\<not> min_diff_gap p prev_time header_time" "difficulty_adjustment_interval K p \<noteq> 0"
    and "\<And>k. k < height - 1 \<Longrightarrow> bits_at k = Some (B k)"
  shows "\<exists>j \<le> height - 1.
    min_diff_bits K p height (B (height - 1)) prev_time header_time bits_at = Some (B j)
    \<and> (j mod difficulty_adjustment_interval K p = 0 \<or> B j \<noteq> k_to_compact_lossy K (cp_pow_limit p))
    \<and> (\<forall>k. j < k \<and> k \<le> height - 1 \<longrightarrow>
          k mod difficulty_adjustment_interval K p \<noteq> 0 \<and> B k = k_to_compact_lossy K (cp_pow_limit p))"
  using min_diff_walk_spec [OF assms(4,3)] assms(1,2) by (simp add: min_diff_bits_def Let_def)

definition min_diff_params :: chain_params where
  "min_diff_params =
    (params_testnet sample_chain_lib)
      \<lparr>cp_btc := (cp_btc (params_testnet sample_chain_lib))\<lparr>bp_allow_min_difficulty_blocks := True\<rparr>\<rparr>"

lemma min_diff_params_facts:
  "allow_min_difficulty_blocks min_diff_params" "\<not> min_diff_gap min_diff_params 0 0"
  "difficulty_adjustment_interval sample_chain_lib min_diff_params = 2016" "cp_pow_limit min_diff_params = 0xFFFFFF"
  by (simp_all add: min_diff_params_def params_testnet_def base_params_def Let_def allow_min_difficulty_blocks_def
      min_diff_gap_def difficulty_adjustment_interval_def)

theorem min_diff_bits_last_real_witness:
  "min_diff_bits sample_chain_lib min_diff_params 5 0xFFFFFF 0 0 (\<lambda>k. Some (if k = 2 then 9 else 0xFFFFFF)) = Some 9"
proof -
  define B where "B k = (if k = 2 then 9 else 0xFFFFFF :: u32)" for k :: u32
  have small: "j \<le> 4 \<Longrightarrow> j mod 2016 = j" for j :: u32
    by (simp add: word_le_nat_alt word_eq_iff_unsigned [where ?'a = nat] unat_mod_distrib)
  have interval: "difficulty_adjustment_interval sample_chain_lib min_diff_params \<noteq> 0"
    by (simp add: min_diff_params_facts(3))
  obtain j where "j \<le> 5 - 1 \<and> min_diff_bits sample_chain_lib min_diff_params 5 (B (5 - 1)) 0 0 (\<lambda>k. Some (B k)) = Some (B j)
      \<and> (j mod difficulty_adjustment_interval sample_chain_lib min_diff_params = 0
        \<or> B j \<noteq> k_to_compact_lossy sample_chain_lib (cp_pow_limit min_diff_params))
      \<and> (\<forall>k. j < k \<and> k \<le> 5 - 1 \<longrightarrow> k mod difficulty_adjustment_interval sample_chain_lib min_diff_params \<noteq> 0
        \<and> B k = k_to_compact_lossy sample_chain_lib (cp_pow_limit min_diff_params))"
    using min_diff_bits_last_real [OF min_diff_params_facts(1,2) interval, of 5 "\<lambda>k. Some (B k)" B, OF refl] ..
  then have "j = 0 \<or> j = 2" "\<not> j < 2"
    "min_diff_bits sample_chain_lib min_diff_params 5 0xFFFFFF 0 0 (\<lambda>k. Some (B k)) = Some (B j)"
    using small [of j] by (auto simp: min_diff_params_facts(3,4) B_def split: if_splits dest: spec [of _ 2])
  then show ?thesis by (auto simp: B_def)
qed

text \<open>
  Documented behaviour of the compact form and of \<open>from_next_work_required\<close>: encoding a target never
  raises it and keeps a target of at most three bytes below the sign bit, and a retarget is capped at
  the attainable maximum of the parameters.
\<close>

definition compact_encoding :: "chain_lib \<Rightarrow> bool" where
  "compact_encoding K \<longleftrightarrow>
    (\<forall>t. k_from_compact K (k_to_compact_lossy K t) \<le> t) \<and>
    (\<forall>t. unat t < 2 ^ 23 \<longrightarrow> k_from_compact K (k_to_compact_lossy K t) = t)"

definition next_work_capped :: "chain_lib \<Rightarrow> bool" where
  "next_work_capped K \<longleftrightarrow>
    (\<forall>bits t bp. k_from_compact K (k_next_work_required K bits t bp) \<le> bp_max_attainable_target bp)"

lemma apply_regtest_retarget_ok:
  assumes "apply_regtest_retarget K block_time interval p = (Inr (), p')"
  obtains T start where "4 \<le> T" "T \<le> 0xFFFFFFFF" "cp_regtest_retarget p' =
      Some \<lparr>rr_start_bits = start, rr_ceiling = retarget_ceiling K T, rr_floor = retarget_floor K T\<rparr>"
    "bp_max_attainable_target (cp_btc p') = retarget_ceiling K T" "bp_pow_target_timespan (cp_btc p') = T"
    "start_bits K (cp_regtest_pow_bits_overlay p) (retarget_ceiling K T) (retarget_floor K T) = Inr start"
  using assms by (auto simp: apply_regtest_retarget_def Let_def not_less split: if_splits option.splits sum.splits)

lemma floor_below_ceiling:
  assumes "target_reads_be K" "4 \<le> T" "T \<le> 0xFFFFFFFF"
  shows "retarget_floor K T \<le> retarget_ceiling K T"
proof -
  have T: "0 < T" using assms(2) by (auto simp: word_le_nat_alt word_less_nat_alt)
  have "8 * (4 * unat T) \<le> 8 * (4 * 2 ^ 32)" using assms(3) by (simp add: word_le_nat_alt)
  also have "\<dots> < 2 ^ 256" by simp
  also have "\<dots> \<le> (unat (retarget_ceiling K T) + 1) * (4 * unat T)"
    using retarget_ceiling_tight [OF assms(1) T assms(3)] by blast
  finally have "8 < unat (retarget_ceiling K T) + 1" unfolding mult_less_cancel2 by blast
  then show ?thesis using retarget_floor_tight(3) [OF assms] by (simp add: word_le_nat_alt)
qed


lemma sample_targets:
  "target_reads_be sample_chain_lib" "compact_encoding sample_chain_lib" "next_work_capped sample_chain_lib"
proof -
  have "of_le (rev bs) < 2 ^ 256" if "length bs = 32" for bs
    using of_le_bound [of "rev bs"] that by simp
  then show "target_reads_be sample_chain_lib"
    by (simp add: target_reads_be_def unat_of_nat)
  have low: "unat (ucast (ucast t :: u32) :: target) = unat t" if "t \<le> 0xFFFFFFFF" for t :: target
    using that by (simp add: unat_ucast_mod word_le_nat_alt)
  then show "compact_encoding sample_chain_lib"
    by (auto simp: compact_encoding_def word_le_nat_alt word_eq_iff_unsigned [where ?'a = nat])
  have "ucast (ucast m :: u32) \<le> m" for m :: target
    by (simp add: word_le_nat_alt unat_ucast_mod)
  then show "next_work_capped sample_chain_lib"
    by (simp add: next_work_capped_def Let_def)
qed


end
