(* ===== verification/BlockRules.thy ===== *)
theory BlockRules
  imports Header Merkle ScriptNum Job
begin

text \<open>
  Block rules of \<open>crates/rbitcoin-consensus/src/block/mod.rs\<close> and the rule decisions of
  \<open>block/facts.rs\<close>: transaction shape, block structure with the merkle root, the witness commitment
  and the coinbase height, subsidy and fees, finality and relative locks, and the script flags of a
  block. Hash sets are sets. Timing callbacks are left out; the rows of \<open>TxPrecompute\<close> are those of
  the theory \<open>Precompute\<close>.
\<close>

section \<open>Context\<close>

record validation_context =
  vc_params :: chain_params
  vc_height :: u32
  vc_milestone :: milestone
  vc_enforce_height_gates :: bool

definition context_at :: "chain_params \<Rightarrow> u32 \<Rightarrow> milestone \<Rightarrow> validation_context" where
  "context_at params height milestone =
    \<lparr>vc_params = params, vc_height = height, vc_milestone = milestone, vc_enforce_height_gates = True\<rparr>"

definition archive_structure :: "chain_params \<Rightarrow> validation_context" where
  "archive_structure params =
    \<lparr>vc_params = params, vc_height = 0, vc_milestone = milestone_none, vc_enforce_height_gates = False\<rparr>"

definition MAX_BLOCK_STRIPPED_SIZE :: nat where
  "MAX_BLOCK_STRIPPED_SIZE = 1000000"

definition MAX_BLOCK_WEIGHT :: nat where
  "MAX_BLOCK_WEIGHT = 4000000"

definition MAX_BLOCK_SIGOPS_COST :: u64 where
  "MAX_BLOCK_SIGOPS_COST = 80000"

definition LOCKTIME_THRESHOLD :: u32 where
  "LOCKTIME_THRESHOLD = 500000000"

text \<open>A \<open>for\<close> loop whose body returns \<open>Result\<close>.\<close>

primrec for_each :: "('a \<Rightarrow> unit consensus) \<Rightarrow> 'a list \<Rightarrow> unit consensus" where
  "for_each f [] = Inr ()"
| "for_each f (x # xs) = rbind (f x) (\<lambda>_. for_each f xs)"

primrec tfor_each :: "('a \<Rightarrow> unit checked) \<Rightarrow> 'a list \<Rightarrow> unit checked" where
  "tfor_each f [] = tret ()"
| "tfor_each f (x # xs) = tbind (f x) (\<lambda>_. tfor_each f xs)"

section \<open>Values\<close>

definition exceeds_max_money :: "btc_lib \<Rightarrow> u64 \<Rightarrow> bool" where
  "exceeds_max_money L sats = (lib_max_money L < sats)"

fun value_out_loop :: "btc_lib \<Rightarrow> int \<Rightarrow> txout list \<Rightarrow> int consensus" where
  "value_out_loop L value_out [] = Inr value_out"
| "value_out_loop L value_out (out # outs) =
    (let sats = to_value out
     in if i64_max < uint sats then Inl (BadTx ''bad-txns-vout-negative'')
        else if exceeds_max_money L sats then Inl (BadTx ''bad-txns-vout-toolarge'')
        else
          let value_out = value_out + uint sats
          in if exceeds_max_money L (word_of_int value_out) then Inl (BadTx ''bad-txns-txouttotal-toolarge'')
             else value_out_loop L value_out outs)"

definition tx_value_out :: "btc_lib \<Rightarrow> transaction \<Rightarrow> int consensus" where
  "tx_value_out L tx = value_out_loop L 0 (tx_output tx)"

text \<open>\<open>u64 as i64\<close>.\<close>

definition as_i64 :: "u64 \<Rightarrow> int" where
  "as_i64 v = sint v"

definition money_range_out_sum :: "u64 \<Rightarrow> int" where
  "money_range_out_sum out_sum = as_i64 out_sum"

definition assemble_tx_value_out :: "btc_lib \<Rightarrow> transaction \<Rightarrow> nat \<Rightarrow> tx_precompute list option \<Rightarrow> int consensus" where
  "assemble_tx_value_out L tx ti pres =
    (case Option.bind pres (\<lambda>p. get_at p ti) of
       Some p \<Rightarrow> Inr (money_range_out_sum (tc_out_sum (row_connect p)))
     | None \<Rightarrow> tx_value_out L tx)"

definition block_subsidy :: "u32 \<Rightarrow> chain_params \<Rightarrow> int" where
  "block_subsidy height params =
    (let halvings = height div subsidy_halving_interval params
     in if 64 \<le> halvings then 0 else drop_bit (unat halvings) 5000000000)"

fun coinbase_sum :: "int \<Rightarrow> txout list \<Rightarrow> int consensus" where
  "coinbase_sum acc [] = Inr acc"
| "coinbase_sum acc (out # outs) =
    rbind (ok_or (i64_checked (acc + as_i64 (to_value out))) (BadBlock ''coinbase value overflow''))
      (\<lambda>acc. coinbase_sum acc outs)"

definition check_coinbase_subsidy :: "block \<Rightarrow> validation_context \<Rightarrow> int \<Rightarrow> unit checked" where
  "check_coinbase_subsidy block ctx fees =
    (let subsidy = block_subsidy (vc_height ctx) (vc_params ctx)
     in tbind (tlift (coinbase_sum 0 (tx_output (b_txdata block ! 0)))) (\<lambda>coinbase_out.
        tbind (tlift (ok_or (i64_checked (subsidy + fees)) (BadBlock ''subsidy+fees overflow''))) (\<lambda>max_cb.
        if max_cb < coinbase_out then soften (BadBlock ''coinbase excess value'') else tret ())))"

section \<open>Transaction shape\<close>

definition check_tx_shape :: "btc_lib \<Rightarrow> transaction \<Rightarrow> nat \<Rightarrow> unit consensus" where
  "check_tx_shape L tx base_size =
    (if tx_input tx = [] then Inl (BadTx ''no inputs'')
     else if tx_output tx = [] then Inl (BadTx ''no outputs'')
     else if MAX_BLOCK_STRIPPED_SIZE < base_size then Inl (BadTx ''bad-txns-oversize'')
     else rbind (tx_value_out L tx) (\<lambda>_. Inr ()))"

definition reject_null_prevouts :: "btc_lib \<Rightarrow> transaction \<Rightarrow> unit consensus" where
  "reject_null_prevouts L tx =
    (if lib_is_coinbase L tx then Inr ()
     else if list_ex (\<lambda>inp. lib_outpoint_is_null L (ti_previous_output inp)) (tx_input tx)
     then Inl (BadTx ''bad-txns-prevout-null'')
     else Inr ())"

definition check_tx_local :: "btc_lib \<Rightarrow> transaction \<Rightarrow> nat \<Rightarrow> unit consensus" where
  "check_tx_local L tx base_size = rbind (check_tx_shape L tx base_size) (\<lambda>_. reject_null_prevouts L tx)"

fun duplicate_outpoints :: "outpoint set \<Rightarrow> txin list \<Rightarrow> unit consensus" where
  "duplicate_outpoints seen [] = Inr ()"
| "duplicate_outpoints seen (inp # inps) =
    (if ti_previous_output inp \<in> seen then Inl (BadTx ''bad-txns-inputs-duplicate'')
     else duplicate_outpoints (insert (ti_previous_output inp) seen) inps)"

text \<open>The caller's set is cleared on entry.\<close>

definition reject_duplicate_outpoints :: "transaction \<Rightarrow> unit consensus" where
  "reject_duplicate_outpoints tx = duplicate_outpoints {} (tx_input tx)"

section \<open>Witness commitment\<close>

definition WITNESS_COMMITMENT_MAGIC :: bytes where
  "WITNESS_COMMITMENT_MAGIC = [0x6A, 0x24, 0xAA, 0x21, 0xA9, 0xED]"

definition is_commitment_script :: "bytes \<Rightarrow> bool" where
  "is_commitment_script b = (38 \<le> length b \<and> take 6 b = WITNESS_COMMITMENT_MAGIC)"

definition witness_commitment_vout_index :: "transaction \<Rightarrow> nat option" where
  "witness_commitment_vout_index coinbase =
    find (\<lambda>i. is_commitment_script (to_script_pubkey (tx_output coinbase ! i))) (rev [0..<length (tx_output coinbase)])"

definition coinbase_has_witness_commitment :: "block \<Rightarrow> bool" where
  "coinbase_has_witness_commitment block =
    (case b_txdata block of [] \<Rightarrow> False | cb # _ \<Rightarrow> witness_commitment_vout_index cb \<noteq> None)"

definition block_has_witness :: "block \<Rightarrow> bool" where
  "block_has_witness block = list_ex (\<lambda>tx. list_ex (\<lambda>i. ti_witness i \<noteq> []) (tx_input tx)) (b_txdata block)"

definition block_has_witness_from_pres :: "tx_precompute list \<Rightarrow> bool" where
  "block_has_witness_from_pres pres = list_ex (\<lambda>p. tc_has_witness (row_connect p)) pres"

definition merkle_root_bytes :: "btc_lib \<Rightarrow> bytes list \<Rightarrow> bytes" where
  "merkle_root_bytes L leaves = merkle_root_from_txids (lib_sha256 L) leaves"

definition witness_commitment_digest :: "btc_lib \<Rightarrow> bytes list \<Rightarrow> bytes \<Rightarrow> bytes" where
  "witness_commitment_digest L non_cb_wtxids reserved =
    (let leaves = replicate 32 0 # non_cb_wtxids;
         witness_root = merkle_root_bytes L leaves
     in lib_sha256d L (witness_root @ reserved))"

definition witness_commitment_script :: "btc_lib \<Rightarrow> bytes list \<Rightarrow> bytes \<Rightarrow> bytes" where
  "witness_commitment_script L non_cb_wtxids reserved =
    WITNESS_COMMITMENT_MAGIC @ witness_commitment_digest L non_cb_wtxids reserved"

text \<open>\<open>txdata[0].input[0].witness = ..\<close> and \<open>txdata[0].output.push(..)\<close> on the block being built.\<close>

definition set_coinbase_commitment :: "bytes \<Rightarrow> bytes \<Rightarrow> transaction \<Rightarrow> transaction" where
  "set_coinbase_commitment reserved spk cb =
    cb\<lparr>tx_input := (tx_input cb)[0 := (tx_input cb ! 0)\<lparr>ti_witness := [reserved]\<rparr>],
       tx_output := tx_output cb @ [\<lparr>to_value = 0, to_script_pubkey = spk\<rparr>]\<rparr>"

definition apply_witness_commitment :: "chain_lib \<Rightarrow> block \<Rightarrow> block" where
  "apply_witness_commitment K block =
    (if \<not> block_has_witness block \<or> b_txdata block = [] then block
     else
       let reserved = replicate 32 0;
           wtxids = map (k_compute_wtxid K) (drop 1 (b_txdata block));
           spk = witness_commitment_script (k_btc K) wtxids reserved;
           block = block\<lparr>b_txdata := (b_txdata block)[0 := set_coinbase_commitment reserved spk (b_txdata block ! 0)]\<rparr>
       in case k_compute_merkle_root K block of
            Some root \<Rightarrow> block\<lparr>b_header := (b_header block)\<lparr>h_merkle_root := root\<rparr>\<rparr>
          | None \<Rightarrow> block)"

definition check_witness_commitment_with_wtxids :: "btc_lib \<Rightarrow> block \<Rightarrow> bytes list \<Rightarrow> unit consensus" where
  "check_witness_commitment_with_wtxids L block precomputed_non_cb =
    (let coinbase = b_txdata block ! 0
     in case witness_commitment_vout_index coinbase of
          None \<Rightarrow> Inl (BadBlock ''missing witness commitment'')
        | Some cidx \<Rightarrow>
            let committed = take 32 (drop 6 (to_script_pubkey (tx_output coinbase ! cidx)));
                wit = ti_witness (tx_input coinbase ! 0)
            in if length wit \<noteq> 1 then Inl (BadBlock ''bad-witness-nonce-size'')
               else
                 let reserved = wit ! 0
                 in if length reserved \<noteq> 32 then Inl (BadBlock ''bad-witness-nonce-size'')
                    else if witness_commitment_digest L precomputed_non_cb reserved \<noteq> committed
                    then Inl (BadBlock ''witness commitment mismatch'')
                    else Inr ())"

definition reject_witness_malleation :: "btc_lib \<Rightarrow> block \<Rightarrow> validation_context \<Rightarrow> tx_precompute list \<Rightarrow> unit consensus" where
  "reject_witness_malleation L block ctx pres =
    (let has_witness_data = block_has_witness_from_pres pres;
         has_commitment = coinbase_has_witness_commitment block
     in if has_witness_data \<and> vc_enforce_height_gates ctx \<and> \<not> segwit_active_at (vc_params ctx) (vc_height ctx)
        then Inl (BadBlock ''unexpected witness before segwit'')
        else if (has_witness_data \<or> has_commitment)
             \<and> (segwit_active_at (vc_params ctx) (vc_height ctx) \<or> \<not> vc_enforce_height_gates ctx)
        then check_witness_commitment_with_wtxids L block (map (\<lambda>p. tc_wtxid (row_connect p)) (drop 1 pres))
        else Inr ())"

section \<open>Coinbase height\<close>

definition bip34_height_script :: "u32 \<Rightarrow> bytes" where
  "bip34_height_script height =
    (if height = 0 then [OP_0]
     else if height \<le> 16 then [OP_RESERVED + ucast height]
     else let num = scriptnum_encode (uint height) in word_of_nat (length num) # num)"

definition check_bip34_coinbase :: "transaction \<Rightarrow> u32 \<Rightarrow> unit checked" where
  "check_bip34_coinbase coinbase height =
    (let bytes = ti_script_sig (tx_input coinbase ! 0);
         expected = bip34_height_script height
     in if bytes = [] then soften (BadBlock ''bip34 coinbase script empty'')
        else if length bytes < length expected \<or> take (length expected) bytes \<noteq> expected
        then soften (BadBlock ''bip34 height encoding'')
        else tret ())"

section \<open>Block structure\<close>

definition block_mutated_without_coinbase :: "chain_lib \<Rightarrow> block \<Rightarrow> bool" where
  "block_mutated_without_coinbase K block =
    (if (case b_txdata block of [] \<Rightarrow> False | tx # _ \<Rightarrow> lib_is_coinbase (k_btc K) tx) then False
     else list_ex (\<lambda>tx. k_base_size K tx = 64) (b_txdata block))"

definition reject_bad_block_tx_layout :: "btc_lib \<Rightarrow> block \<Rightarrow> tx_precompute list \<Rightarrow> unit consensus" where
  "reject_bad_block_tx_layout L block pres =
    (if b_txdata block = [] then Inl (BadBlock ''no transactions'')
     else if \<not> lib_is_coinbase L (b_txdata block ! 0) then
       (if list_ex (\<lambda>p. tc_base_size (row_connect p) = 64) pres then Inl (BadBlock ''merkle mutated by a 64-byte tx'')
        else Inl (BadBlock ''first tx not coinbase''))
     else for_each (\<lambda>tx. if lib_is_coinbase L tx then Inl (BadBlock ''coinbase not first'') else Inr ()) (drop 1 (b_txdata block)))"

definition pres_txid :: "tx_precompute \<Rightarrow> bytes" where
  "pres_txid p = tc_txid (row_connect p)"

definition scan_block_inputs :: "btc_lib \<Rightarrow> block \<Rightarrow> tx_precompute list \<Rightarrow> unit consensus" where
  "scan_block_inputs L block pres =
    for_each (\<lambda>(tx, p).
        if length (tx_input tx) < 2 then Inr ()
        else rbind (check_tx_shape L tx (tc_base_size (row_connect p))) (\<lambda>_. reject_duplicate_outpoints tx))
      (zip (b_txdata block) pres)"

fun reject_duplicate_txids :: "bytes set \<Rightarrow> tx_precompute list \<Rightarrow> unit consensus" where
  "reject_duplicate_txids seen [] = Inr ()"
| "reject_duplicate_txids seen (p # pres) =
    (if pres_txid p \<in> seen then Inl (BadBlock ''duplicate txid'')
     else reject_duplicate_txids (insert (pres_txid p) seen) pres)"

definition block_base_size :: "btc_lib \<Rightarrow> tx_precompute list \<Rightarrow> nat" where
  "block_base_size L pres =
    80 + varint_size L (word_of_nat (length pres)) + sum_list (map (\<lambda>p. tc_base_size (row_connect p)) pres)"

definition block_total_size :: "btc_lib \<Rightarrow> tx_precompute list \<Rightarrow> nat" where
  "block_total_size L pres =
    80 + varint_size L (word_of_nat (length pres)) + sum_list (map (\<lambda>p. tc_total_size (row_connect p)) pres)"

definition block_sigops_cost :: "tx_precompute list \<Rightarrow> u64" where
  "block_sigops_cost pres = fold (\<lambda>p cost. sat_add cost (sat_mul (tc_sigops (row_connect p)) WITNESS_SCALE)) pres 0"

definition check_block_merkle :: "btc_lib \<Rightarrow> block \<Rightarrow> tx_precompute list \<Rightarrow> unit consensus" where
  "check_block_merkle L block pres =
    (let (merkle, mutated) = merkle_root_mutated (lib_sha256 L) (map pres_txid pres)
     in if merkle \<noteq> h_merkle_root (b_header block) then Inl (BadBlock ''merkle root mismatch'')
        else if mutated then Inl (BadBlock ''bad-txns-duplicate'')
        else Inr ())"

definition check_block_body :: "btc_lib \<Rightarrow> block \<Rightarrow> validation_context \<Rightarrow> tx_precompute list \<Rightarrow> unit consensus" where
  "check_block_body L block ctx pres =
    rbind (check_block_merkle L block pres) (\<lambda>_.
    rbind (scan_block_inputs L block pres) (\<lambda>_.
    rbind (reject_bad_block_tx_layout L block pres) (\<lambda>_.
    rbind (check_tx_shape L (b_txdata block ! 0) (tc_base_size (row_connect (pres ! 0)))) (\<lambda>_.
    let cb_ss = length (ti_script_sig (tx_input (b_txdata block ! 0) ! 0))
    in if \<not> (2 \<le> cb_ss \<and> cb_ss \<le> 100) then Inl (BadBlock ''bad-cb-length'')
       else
         rbind (reject_duplicate_txids {} pres) (\<lambda>_.
         if MAX_BLOCK_STRIPPED_SIZE < block_base_size L pres then Inl (BadBlock ''block stripped size too large'')
         else
           rbind (for_each (\<lambda>(tx, p). check_tx_local L tx (tc_base_size (row_connect p))) (zip (b_txdata block) pres)) (\<lambda>_.
           rbind (reject_witness_malleation L block ctx pres) (\<lambda>_.
           if MAX_BLOCK_WEIGHT < block_base_size L pres * 3 + block_total_size L pres
           then Inl (BadBlock ''block weight too large'')
           else Inr ())))))))"

definition stashed_pres :: "btc_lib \<Rightarrow> block \<Rightarrow> tx_precompute list option \<Rightarrow> tx_precompute list consensus" where
  "stashed_pres L block pres =
    (case pres of
       Some stashed \<Rightarrow>
         if length stashed \<noteq> length (b_txdata block) then Inl (BadBlock ''precompute count mismatch'') else Inr stashed
     | None \<Rightarrow> Inr (map (from_tx L) (b_txdata block)))"

definition validate_block_structure_with_pres ::
  "btc_lib \<Rightarrow> block \<Rightarrow> validation_context \<Rightarrow> tx_precompute list option \<Rightarrow> tx_precompute list checked" where
  "validate_block_structure_with_pres L block ctx pres =
    tbind (tlift (stashed_pres L block pres)) (\<lambda>pres.
    tbind (tlift (check_block_body L block ctx pres)) (\<lambda>_.
    tbind (if vc_enforce_height_gates ctx \<and> bip34_active_at (vc_params ctx) (vc_height ctx)
           then check_bip34_coinbase (b_txdata block ! 0) (vc_height ctx)
           else tret ()) (\<lambda>_.
    tbind (if MAX_BLOCK_SIGOPS_COST < block_sigops_cost pres then soften (BadBlock ''bad-blk-sigops'') else tret ()) (\<lambda>_.
    tret pres))))"

definition validate_block_structure_precomputed ::
  "btc_lib \<Rightarrow> block \<Rightarrow> validation_context \<Rightarrow> tx_precompute list checked" where
  "validate_block_structure_precomputed L block ctx = validate_block_structure_with_pres L block ctx None"

definition validate_block_structure_hashed :: "btc_lib \<Rightarrow> block \<Rightarrow> validation_context \<Rightarrow> bytes list checked" where
  "validate_block_structure_hashed L block ctx =
    tbind (validate_block_structure_precomputed L block ctx) (\<lambda>pres. tret (map pres_txid pres))"

definition validate_block_structure :: "btc_lib \<Rightarrow> block \<Rightarrow> validation_context \<Rightarrow> unit checked" where
  "validate_block_structure L block ctx = tbind (validate_block_structure_hashed L block ctx) (\<lambda>_. tret ())"

definition check_block_wire :: "chain_lib \<Rightarrow> bytes \<Rightarrow> unit checked" where
  "check_block_wire K data =
    tbind (tlift (ok_or (k_deserialize_block K data) (BadBlock ''block wire decode''))) (\<lambda>block.
    validate_block_structure (k_btc K) block (archive_structure (params_regtest K)))"

section \<open>Finality and relative locks\<close>

definition is_final_tx :: "btc_lib \<Rightarrow> transaction \<Rightarrow> u32 \<Rightarrow> u32 \<Rightarrow> bool" where
  "is_final_tx L tx block_height lock_time_cutoff =
    (let lt = tx_lock_time tx
     in if lt = 0 then True
        else if lt < LOCKTIME_THRESHOLD \<and> lt < block_height then True
        else if \<not> lt < LOCKTIME_THRESHOLD \<and> lt < lock_time_cutoff then True
        else list_all (\<lambda>i. lib_sequence_is_final L (ti_sequence i)) (tx_input tx))"

definition lock_time_cutoff :: "validation_context \<Rightarrow> block \<Rightarrow> u32 \<Rightarrow> u32" where
  "lock_time_cutoff ctx block prev_mtp =
    (if vc_height ctx = 0 \<or> \<not> csv_active_at (vc_params ctx) (vc_height ctx) then h_time (b_header block) else prev_mtp)"

definition reject_non_final :: "btc_lib \<Rightarrow> transaction \<Rightarrow> u32 \<Rightarrow> u32 \<Rightarrow> unit checked" where
  "reject_non_final L tx block_height cutoff =
    (if is_final_tx L tx block_height cutoff then tret () else soften (BadTx ''bad-txns-nonfinal''))"

definition check_block_on_parent :: "btc_lib \<Rightarrow> block \<Rightarrow> validation_context \<Rightarrow> u32 \<Rightarrow> unit checked" where
  "check_block_on_parent L block ctx prev_mtp =
    tbind (validate_block_structure L block ctx) (\<lambda>_.
    let cutoff = lock_time_cutoff ctx block prev_mtp
    in tfor_each (\<lambda>tx. reject_non_final L tx (vc_height ctx) cutoff) (b_txdata block))"

text \<open>The version compares as \<open>u32\<close>.\<close>

definition bip68_active_for_tx :: "transaction \<Rightarrow> bool" where
  "bip68_active_for_tx tx = (2 \<le> tx_version tx)"

abbreviation SEQUENCE_DISABLE :: u32 where
  "SEQUENCE_DISABLE \<equiv> push_bit 31 1"

abbreviation SEQUENCE_TYPE_FLAG :: u32 where
  "SEQUENCE_TYPE_FLAG \<equiv> push_bit 22 1"

abbreviation SEQUENCE_MASK :: u32 where
  "SEQUENCE_MASK \<equiv> 0xFFFF"

text \<open>
  The loop over the inputs from index \<open>i\<close>: \<open>None\<close> is the early \<open>return false\<close>. \<open>min_height\<close> and
  \<open>min_time\<close> are \<open>i64\<close>; a 32-bit value plus a 25-bit shift stays far inside.
\<close>

fun sequence_lock_loop :: "u32 list \<Rightarrow> u32 list \<Rightarrow> nat \<Rightarrow> int \<times> int \<Rightarrow> txin list \<Rightarrow> (int \<times> int) option" where
  "sequence_lock_loop prev_heights prev_coin_mtps i mins [] = Some mins"
| "sequence_lock_loop prev_heights prev_coin_mtps i (min_height, min_time) (inp # inps) =
    (let seq = ti_sequence inp
     in if seq AND SEQUENCE_DISABLE \<noteq> 0 then sequence_lock_loop prev_heights prev_coin_mtps (i + 1) (min_height, min_time) inps
        else case get_at prev_heights i of
          None \<Rightarrow> None
        | Some coin_h \<Rightarrow>
            let rel = uint (seq AND SEQUENCE_MASK)
            in if seq AND SEQUENCE_TYPE_FLAG \<noteq> 0 then
                 (case get_at prev_coin_mtps i of
                    None \<Rightarrow> None
                  | Some raw_mtp \<Rightarrow>
                      if raw_mtp = 0 then None
                      else sequence_lock_loop prev_heights prev_coin_mtps (i + 1)
                             (min_height, max min_time (uint raw_mtp + push_bit 9 rel - 1)) inps)
               else sequence_lock_loop prev_heights prev_coin_mtps (i + 1)
                      (max min_height (uint coin_h + rel - 1), min_time) inps)"

definition sequence_locks_satisfied :: "transaction \<Rightarrow> u32 list \<Rightarrow> u32 list \<Rightarrow> u32 \<Rightarrow> u32 \<Rightarrow> bool" where
  "sequence_locks_satisfied tx prev_heights prev_coin_mtps block_height block_prev_mtp =
    (if \<not> bip68_active_for_tx tx then True
     else case sequence_lock_loop prev_heights prev_coin_mtps 0 (- 1, - 1) (tx_input tx) of
       None \<Rightarrow> False
     | Some (min_height, min_time) \<Rightarrow>
         if uint block_height \<le> min_height then False
         else if uint block_prev_mtp \<le> min_time then False
         else True)"

section \<open>Coin rules\<close>

definition reject_bip30_unspent_prior :: "u32 \<Rightarrow> u32 \<Rightarrow> bool \<Rightarrow> unit checked" where
  "reject_bip30_unspent_prior spend_height prior_height unspent_spendable =
    (if prior_height \<noteq> spend_height \<and> unspent_spendable then soften (BadTx ''bad-txns-BIP30'') else tret ())"

definition reject_one_create :: "u32 \<Rightarrow> u32 \<Rightarrow> u32 option \<Rightarrow> bool \<Rightarrow> unit checked" where
  "reject_one_create spend_height maturity create_height is_coinbase =
    (case create_height of
       None \<Rightarrow> tfail (BadTx ''bad-txns-inputs-missingorspent'')
     | Some create_height \<Rightarrow>
         if spend_height < create_height then tfail MissingPrevout
         else if is_coinbase \<and> spend_height < sat_add create_height maturity then soften (BadTx ''coinbase immature'')
         else tret ())"

definition exceeds_sigops_limit :: "u64 \<Rightarrow> bool" where
  "exceeds_sigops_limit cost = (MAX_BLOCK_SIGOPS_COST < cost)"

definition should_use_pres :: "nat \<Rightarrow> nat \<Rightarrow> bool" where
  "should_use_pres ti len = (ti < len)"

section \<open>Script flags of a block\<close>

definition BIP16_EXCEPTION_MAINNET :: bytes where
  "BIP16_EXCEPTION_MAINNET =
    [0x22, 0x9C, 0x4F, 0xAC, 0x88, 0xBA, 0xB1, 0x94, 0xEB, 0x08, 0xF1, 0xA5, 0x28, 0xCC, 0x30, 0x8D,
     0xED, 0x23, 0x97, 0xF4, 0xF4, 0xEB, 0x6E, 0x75, 0xDC, 0x02, 0x00, 0x00, 0x00, 0x00, 0x00, 0x00]"

definition TAPROOT_EXCEPTION_MAINNET :: bytes where
  "TAPROOT_EXCEPTION_MAINNET =
    [0xAD, 0x95, 0xE3, 0xA1, 0x5E, 0xE5, 0xFF, 0xD5, 0x85, 0xC5, 0xE8, 0x1D, 0x44, 0xB5, 0x6A, 0x98,
     0x1E, 0x84, 0x2D, 0x5B, 0xC3, 0x14, 0x0F, 0x00, 0x00, 0x00, 0x00, 0x00, 0x00, 0x00, 0x00, 0x00]"

definition BIP16_EXCEPTION_TESTNET3 :: bytes where
  "BIP16_EXCEPTION_TESTNET3 =
    [0x05, 0xB1, 0x32, 0xA4, 0xF7, 0x4A, 0x87, 0x99, 0xA5, 0x7A, 0x42, 0x02, 0xD0, 0xEE, 0xB0, 0x96,
     0x12, 0xCC, 0x08, 0xD2, 0x95, 0x40, 0x1F, 0x00, 0x7C, 0x45, 0x30, 0xDD, 0x00, 0x00, 0x00, 0x00]"

definition bip16_active_from_prev_mtp :: "chain_params \<Rightarrow> u32 \<Rightarrow> bytes \<Rightarrow> u32 \<Rightarrow> bool" where
  "bip16_active_from_prev_mtp params height block_hash prev_mtp =
    (if block_hash = BIP16_EXCEPTION_MAINNET then False
     else if cp_network params = BtcTestnet \<and> block_hash = BIP16_EXCEPTION_TESTNET3 then False
     else if height = 0 then False
     else True)"

definition flags_consensus_at :: "validation_context \<Rightarrow> bytes \<Rightarrow> bool \<Rightarrow> script_verify_flags" where
  "flags_consensus_at ctx block_hash bip16_active =
    (let h = vc_height ctx; p = vc_params ctx
     in \<lparr>f_bip65_active = bip65_active_at p h, f_bip112_active = csv_active_at p h,
         f_bip66_active = bip66_active_at p h, f_bip16_active = bip16_active,
         f_taproot_active = (bip16_active \<and> block_hash \<noteq> TAPROOT_EXCEPTION_MAINNET),
         f_minimal_if = False, f_nullfail = False, f_low_s = False, f_strictenc = False,
         f_null_dummy = segwit_active_at p h, f_minimal_data = False, f_witness_pubkeytype = False,
         f_witness_active = bip16_active, f_discourage_upgradable_witness = False,
         f_const_scriptcode = False, f_cleanstack = False\<rparr>)"

definition flags_for_block :: "chain_params \<Rightarrow> u32 \<Rightarrow> bytes \<Rightarrow> u32 \<Rightarrow> script_verify_flags" where
  "flags_for_block params height block_hash prev_mtp =
    flags_consensus_at (context_at params height milestone_none) block_hash
      (bip16_active_from_prev_mtp params height block_hash prev_mtp)"

end
