(* ===== verification/Facts.thy ===== *)
theory Facts
  imports BlockRules
begin

text \<open>
  The rule decisions of \<open>crates/rbitcoin-consensus/src/block/facts.rs\<close> that the confirm pipeline calls
  after loading its rows: block shape, sigop and fee accumulation with waived same-block coinbases,
  prevout faults, header facts and batch continuity.
\<close>

section \<open>Shape\<close>

definition reject_tx_without_outputs :: "transaction \<Rightarrow> unit consensus" where
  "reject_tx_without_outputs tx = (if tx_output tx = [] then Inl (BadTx ''no outputs'') else Inr ())"

definition reject_tx_without_inputs :: "transaction \<Rightarrow> unit consensus" where
  "reject_tx_without_inputs tx = (if tx_input tx = [] then Inl (BadTx ''no inputs'') else Inr ())"

definition reject_assemble_block_shape :: "nat \<Rightarrow> nat \<Rightarrow> nat option \<Rightarrow> bool \<Rightarrow> unit consensus" where
  "reject_assemble_block_shape n_tx n_txid n_archived_fk first_is_coinbase =
    (if (case n_archived_fk of Some n_fk \<Rightarrow> n_fk \<noteq> n_tx | None \<Rightarrow> False)
     then Inl (BadBlock ''archived tx fk count mismatch'')
     else if n_txid \<noteq> n_tx
     then Inl (BadBlock ''invariant: create_txids length must match block.txdata (no assemble re-hash)'')
     else if n_tx = 0 then Inl (BadBlock ''empty block'')
     else if \<not> first_is_coinbase then Inl (BadBlock ''first tx not coinbase'')
     else Inr ())"

definition reject_txid_count :: "nat \<Rightarrow> nat \<Rightarrow> unit consensus" where
  "reject_txid_count n_tx n_txid = (if n_tx = n_txid then Inr () else Inl (BadBlock ''txid count mismatch''))"

definition reject_spend_cursor :: "bool \<Rightarrow> unit consensus" where
  "reject_spend_cursor in_range =
    (if in_range then Inr () else Inl (BadBlock ''structural spends/tx input mismatch''))"

definition reject_witness_before_segwit :: "bool \<Rightarrow> bool \<Rightarrow> unit consensus" where
  "reject_witness_before_segwit has_witness segwit_active =
    (if has_witness \<and> \<not> segwit_active then Inl (BadBlock ''unexpected witness before segwit'') else Inr ())"

section \<open>Sigops and fees\<close>

definition add_sigops :: "u64 \<Rightarrow> u64 \<Rightarrow> u64 \<Rightarrow> u64 checked" where
  "add_sigops cost legacy input =
    (case Option.bind (checked_add cost legacy) (\<lambda>c. checked_add c input) of
       None \<Rightarrow> tbind (soften (BadBlock ''bad-blk-sigops'')) (\<lambda>_. tret (- 1))
     | Some next \<Rightarrow>
         tbind (if exceeds_sigops_limit next then soften (BadBlock ''bad-blk-sigops'') else tret ()) (\<lambda>_. tret next))"

definition fee_from_values :: "int \<Rightarrow> int \<Rightarrow> int consensus" where
  "fee_from_values value_in value_out =
    (if value_in < value_out then Inl (BadTx ''in < out'')
     else ok_or (i64_checked (value_in - value_out)) (BadTx ''fee overflow''))"

definition fee_with_waived_coinbase :: "int \<Rightarrow> int \<Rightarrow> int \<Rightarrow> int consensus" where
  "fee_with_waived_coinbase paid_in waived_cb value_out =
    (if waived_cb = 0 then fee_from_values paid_in value_out
     else
       rbind (ok_or (i64_checked (paid_in + waived_cb)) (BadTx ''value in overflow'')) (\<lambda>all_in.
       if all_in < value_out then Inl (BadTx ''in < out'')
       else if paid_in < value_out then Inr 0
       else ok_or (i64_checked (paid_in - value_out)) (BadTx ''fee overflow'')))"

fun residue_loop :: "u64 \<Rightarrow> u64 list \<Rightarrow> u64 list" where
  "residue_loop left [] = []"
| "residue_loop left (value # outputs) =
    (let clean = min left value in (value - clean) # residue_loop (left - clean) outputs)"

text \<open>\<open>u64::try_from(..).unwrap_or(0)\<close> of a nonnegative \<open>i64\<close> keeps its value.\<close>

definition waived_output_residue :: "int \<Rightarrow> int \<Rightarrow> u64 list \<Rightarrow> u64 list" where
  "waived_output_residue clean_in fee outputs =
    residue_loop (word_of_int (max (i64_saturate (clean_in - fee)) 0)) outputs"

definition fee_sat :: "int \<Rightarrow> u64 consensus" where
  "fee_sat fee = (if 0 \<le> fee then Inr (word_of_int fee) else Inl (BadTx ''fee overflow''))"

definition add_fee :: "int \<Rightarrow> int \<Rightarrow> int consensus" where
  "add_fee fees fee = ok_or (i64_checked (fees + fee)) (BadTx ''fee overflow'')"

definition add_value_in :: "int \<Rightarrow> u64 \<Rightarrow> int consensus" where
  "add_value_in value_in sat = ok_or (i64_checked (value_in + as_i64 sat)) (BadTx ''value in overflow'')"

section \<open>Prevouts\<close>

definition reject_genesis_coinbase_spend :: "bool \<Rightarrow> unit consensus" where
  "reject_genesis_coinbase_spend is_genesis = (if is_genesis then Inl MissingPrevout else Inr ())"

definition reject_duplicate_input :: "bool \<Rightarrow> unit consensus" where
  "reject_duplicate_input inserted = (if inserted then Inr () else Inl (BadTx ''double spend in block''))"

definition reject_same_block_create :: "nat \<Rightarrow> nat \<Rightarrow> bool checked" where
  "reject_same_block_create prev_index spend_index =
    (if spend_index \<le> prev_index then tfail MissingPrevout
     else if prev_index = 0 then tbind (soften (BadTx ''coinbase immature'')) (\<lambda>_. tret True)
     else tret False)"

definition reject_unresolved_spend :: "bool \<Rightarrow> unit consensus" where
  "reject_unresolved_spend missing = (if missing then Inl MissingPrevout else Inr ())"

definition reject_unspendable_prevout :: "bool \<Rightarrow> unit consensus" where
  "reject_unspendable_prevout unspendable = (if unspendable then Inl MissingPrevout else Inr ())"

definition reject_prevout_spent :: "bool \<Rightarrow> unit consensus" where
  "reject_prevout_spent spent = (if spent then Inl PrevoutSpent else Inr ())"

definition reject_vout_past_n_out :: "u32 \<Rightarrow> u64 option \<Rightarrow> unit consensus" where
  "reject_vout_past_n_out max_vout n_out =
    (if (case n_out of Some n \<Rightarrow> n \<le> ucast max_vout | None \<Rightarrow> False) then Inl MissingPrevout else Inr ())"

definition require_same_block_output :: "transaction option \<Rightarrow> nat \<Rightarrow> txout consensus" where
  "require_same_block_output tx vout =
    rbind (ok_or tx MissingPrevout) (\<lambda>tx. ok_or (get_at (tx_output tx) vout) MissingPrevout)"

definition unresolved_parent_create :: consensus_error where
  "unresolved_parent_create = MissingPrevout"

definition reject_csv_create_height :: "u32 option \<Rightarrow> u32 consensus" where
  "reject_csv_create_height height = ok_or height (BadTx ''bad-txns-nonfinal'')"

definition reject_sequence_locks :: "transaction \<Rightarrow> u32 list \<Rightarrow> u32 list \<Rightarrow> u32 \<Rightarrow> u32 \<Rightarrow> unit checked" where
  "reject_sequence_locks tx prev_heights coin_mtps block_height prev_mtp =
    (if sequence_locks_satisfied tx prev_heights coin_mtps block_height prev_mtp then tret ()
     else soften (BadTx ''bad-txns-nonfinal''))"

section \<open>Headers and batches\<close>

definition reject_empty_confirm_batch :: "bool \<Rightarrow> unit consensus" where
  "reject_empty_confirm_batch is_empty = (if is_empty then Inl (BadBlock ''empty confirm batch'') else Inr ())"

definition require_retarget_first :: "bool \<Rightarrow> bool \<Rightarrow> period_first option \<Rightarrow> period_first option consensus" where
  "require_retarget_first on_boundary no_retarget first =
    (if on_boundary \<and> \<not> no_retarget \<and> first = None then Inl (BadHeader ''missing retarget first header'') else Inr first)"

fun contiguous_loop :: "u32 list \<Rightarrow> unit consensus" where
  "contiguous_loop (a # b # hs) =
    (if b \<noteq> sat_add a 1 then Inl (BadBlock ''confirm run not contiguous'') else contiguous_loop (b # hs))"
| "contiguous_loop _ = Inr ()"

definition reject_confirm_batch :: "u32 list \<Rightarrow> unit consensus" where
  "reject_confirm_batch heights =
    (if heights = [] then Inl (BadBlock ''empty confirm batch'') else contiguous_loop heights)"

definition require_linked_parent :: "'a option \<Rightarrow> 'a consensus" where
  "require_linked_parent row = ok_or row BadPrev"

definition reject_prev_link :: "bytes \<Rightarrow> bytes \<Rightarrow> unit consensus" where
  "reject_prev_link prev expect = (if prev = expect then Inr () else Inl BadPrev)"

definition reject_carried_header_hash :: "bytes \<Rightarrow> bytes \<Rightarrow> unit consensus" where
  "reject_carried_header_hash hash expect =
    (if hash = expect then Inr () else Inl (BadBlock ''carried header hash mismatch''))"

definition reject_batch_starts_at :: "u32 \<Rightarrow> u32 \<Rightarrow> unit consensus" where
  "reject_batch_starts_at height path_lo = (if height = path_lo then Inr () else Inl BadPrev)"

definition median_or_bad_header :: "u32 list \<Rightarrow> u32 consensus" where
  "median_or_bad_header ts =
    rbind (map_err (\<lambda>_. BadHeader ''empty median time'') (median_window_new ts)) (\<lambda>w. Inr (median_time_past_times w))"

definition require_next_work :: "compact_target option \<Rightarrow> compact_target consensus" where
  "require_next_work bits = ok_or bits BadPrev"

definition header_gap_on_chain :: "u32 \<Rightarrow> u32 \<Rightarrow> unit consensus" where
  "header_gap_on_chain height tip = (if tip < height then Inr () else Inl BadPrev)"

definition reject_bits :: "header \<Rightarrow> compact_target \<Rightarrow> unit consensus" where
  "reject_bits h expected =
    (if h_bits h = expected then Inr () else Inl (BadHeader ''incorrect proof of work bits''))"

end
