(* ===== verification/BlockProps.thy ===== *)
theory BlockProps
  imports Facts
begin

text \<open>
  Properties of the block rules: what a validated block satisfies, the issuance bound, relative
  locks, the witness commitment, fees with waived coinbases and the coinbase height.
\<close>

section \<open>Loops\<close>

lemma for_each_iff [result_simps]: "for_each f xs = Inr u \<longleftrightarrow> (\<forall>x \<in> set xs. f x = Inr ())"
  by (induction xs) (auto simp: result_simps)

lemma disciplined_tfor_each [trust_intros]: "(\<And>x. disciplined (f x)) \<Longrightarrow> disciplined (tfor_each f xs)"
  by (induction xs) (simp_all add: trust_intros)

lemma strict_tfor_each:
  assumes "\<not> collecting ts" "\<And>x. disciplined (f x)"
  shows "fst (tfor_each f xs ts) = Inr u \<longleftrightarrow> (\<forall>x \<in> set xs. fst (f x ts) = Inr ())"
  using assms by (induction xs) (auto simp: strict_simps trust_intros result_simps)

lemma duplicate_outpoints_iff:
  "duplicate_outpoints seen inps = Inr u \<longleftrightarrow>
    distinct (map ti_previous_output inps) \<and> ti_previous_output ` set inps \<inter> seen = {}"
  by (induction seen inps rule: duplicate_outpoints.induct) auto

lemma reject_duplicate_outpoints_iff [result_simps]:
  "reject_duplicate_outpoints tx = Inr u \<longleftrightarrow> distinct (map ti_previous_output (tx_input tx))"
  by (simp add: reject_duplicate_outpoints_def duplicate_outpoints_iff)

lemma reject_duplicate_txids_iff:
  "reject_duplicate_txids seen pres = Inr u \<longleftrightarrow> distinct (map pres_txid pres) \<and> pres_txid ` set pres \<inter> seen = {}"
  by (induction seen pres rule: reject_duplicate_txids.induct) auto

section \<open>Output values\<close>

text \<open>\<open>Amount::MAX_MONEY\<close> fits an \<open>i64\<close> with room for one more addition.\<close>

definition money_bound :: "btc_lib \<Rightarrow> bool" where
  "money_bound L \<longleftrightarrow> unat (lib_max_money L) < 2 ^ 62"

definition out_total :: "txout list \<Rightarrow> nat" where
  "out_total outs = sum_list (map (\<lambda>out. unat (to_value out)) outs)"

lemma value_out_loop_iff:
  assumes "money_bound L" "0 \<le> acc" "nat acc \<le> unat (lib_max_money L)"
  shows "value_out_loop L acc outs = Inr v \<longleftrightarrow>
    nat acc + out_total outs \<le> unat (lib_max_money L) \<and> v = acc + int (out_total outs)"
  using assms(2,3)
proof (induction outs arbitrary: acc)
  case Nil
  then show ?case by (auto simp: out_total_def)
next
  case (Cons out outs)
  let ?s = "unat (to_value out)" and ?M = "unat (lib_max_money L)"
  have M: "?M < 2 ^ 62" using assms(1) by (simp add: money_bound_def)
  have s: "uint (to_value out) = int ?s" by simp
  have sum: "unat (word_of_int (acc + int ?s) :: u64) = nat acc + ?s" if "?s \<le> ?M"
  proof -
    have "nat acc + ?s < 2 ^ 64" using Cons.prems M that by simp
    moreover have "acc + int ?s = int (nat acc + ?s)" using Cons.prems by simp
    ultimately show ?thesis by (simp only: of_int_of_nat_eq unat_of_nat) simp
  qed
  show ?case
  proof (cases "nat acc + ?s \<le> ?M")
    case True
    then have "value_out_loop L acc (out # outs) = value_out_loop L (acc + int ?s) outs"
      using M sum by (simp add: exceeds_max_money_def word_less_nat_alt s del: of_nat_unat)
    moreover have "nat (acc + int ?s) = nat acc + ?s" using Cons.prems by (simp add: nat_add_distrib)
    ultimately show ?thesis
      using Cons.IH [of "acc + int ?s"] Cons.prems True by (auto simp: out_total_def)
  next
    case False
    then have "value_out_loop L acc (out # outs) \<noteq> Inr v"
      using sum by (auto simp: exceeds_max_money_def word_less_nat_alt s Let_def not_le simp del: of_nat_unat)
    with False show ?thesis by (simp add: out_total_def)
  qed
qed

lemma tx_value_out_iff:
  "money_bound L \<Longrightarrow> tx_value_out L tx = Inr v \<longleftrightarrow>
    out_total (tx_output tx) \<le> unat (lib_max_money L) \<and> v = int (out_total (tx_output tx))"
  by (simp add: tx_value_out_def value_out_loop_iff)

lemma check_tx_shape_iff:
  "money_bound L \<Longrightarrow> check_tx_shape L tx base_size = Inr u \<longleftrightarrow>
    tx_input tx \<noteq> [] \<and> tx_output tx \<noteq> [] \<and> base_size \<le> 1000000
    \<and> out_total (tx_output tx) \<le> unat (lib_max_money L)"
  by (auto simp: check_tx_shape_def MAX_BLOCK_STRIPPED_SIZE_def result_simps tx_value_out_iff)

section \<open>Block structure\<close>

lemma layout_iff:
  "reject_bad_block_tx_layout L block pres = Inr u \<longleftrightarrow>
    b_txdata block \<noteq> [] \<and> (\<forall>i < length (b_txdata block). lib_is_coinbase L (b_txdata block ! i) \<longleftrightarrow> i = 0)"
proof (cases "b_txdata block")
  case Nil
  then show ?thesis by (simp add: reject_bad_block_tx_layout_def)
next
  case (Cons cb txs)
  have "(\<forall>i < length (cb # txs). lib_is_coinbase L ((cb # txs) ! i) \<longleftrightarrow> i = 0) \<longleftrightarrow>
      lib_is_coinbase L cb \<and> (\<forall>tx \<in> set txs. \<not> lib_is_coinbase L tx)"
    by (auto simp: All_less_Suc2 all_set_conv_all_nth)
  then show ?thesis
    by (simp add: reject_bad_block_tx_layout_def Cons for_each_iff split: if_splits)
qed

lemma distinct_short: "length xs < 2 \<Longrightarrow> distinct (map f xs)"
  by (cases xs; cases "tl xs") auto

text \<open>The declarative form of the structure rules on the precomputed rows of a block.\<close>

definition tx_rules :: "btc_lib \<Rightarrow> transaction \<Rightarrow> tx_precompute \<Rightarrow> bool" where
  "tx_rules L tx p \<longleftrightarrow>
    tx_input tx \<noteq> [] \<and> tx_output tx \<noteq> [] \<and> tc_base_size (row_connect p) \<le> 1000000
    \<and> out_total (tx_output tx) \<le> unat (lib_max_money L)
    \<and> distinct (map ti_previous_output (tx_input tx))
    \<and> (lib_is_coinbase L tx \<or> (\<forall>inp \<in> set (tx_input tx). \<not> lib_outpoint_is_null L (ti_previous_output inp)))"

definition block_rules :: "btc_lib \<Rightarrow> block \<Rightarrow> validation_context \<Rightarrow> tx_precompute list \<Rightarrow> bool" where
  "block_rules L block ctx pres \<longleftrightarrow>
    merkle_root_mutated (lib_sha256 L) (map pres_txid pres) = (h_merkle_root (b_header block), False)
    \<and> b_txdata block \<noteq> [] \<and> (\<forall>i < length (b_txdata block). lib_is_coinbase L (b_txdata block ! i) \<longleftrightarrow> i = 0)
    \<and> (\<forall>(tx, p) \<in> set (zip (b_txdata block) pres). tx_rules L tx p)
    \<and> length (ti_script_sig (tx_input (b_txdata block ! 0) ! 0)) \<in> {2..100}
    \<and> distinct (map pres_txid pres)
    \<and> block_base_size L pres \<le> 1000000 \<and> block_base_size L pres * 3 + block_total_size L pres \<le> 4000000
    \<and> reject_witness_malleation L block ctx pres = Inr ()"

lemma check_block_merkle_iff [result_simps]:
  "check_block_merkle L block pres = Inr u \<longleftrightarrow>
    merkle_root_mutated (lib_sha256 L) (map pres_txid pres) = (h_merkle_root (b_header block), False)"
  by (auto simp: check_block_merkle_def split: prod.splits)

lemma check_tx_local_iff:
  "money_bound L \<Longrightarrow> distinct (map ti_previous_output (tx_input tx)) \<Longrightarrow>
    check_tx_local L tx (tc_base_size (row_connect p)) = Inr u \<longleftrightarrow> tx_rules L tx p"
  by (auto simp: check_tx_local_def result_simps check_tx_shape_iff reject_null_prevouts_def tx_rules_def list_ex_iff)

lemma scan_block_inputs_iff:
  "money_bound L \<Longrightarrow> scan_block_inputs L block pres = Inr u \<longleftrightarrow>
    (\<forall>(tx, p) \<in> set (zip (b_txdata block) pres). 2 \<le> length (tx_input tx) \<longrightarrow>
       check_tx_shape L tx (tc_base_size (row_connect p)) = Inr () \<and> distinct (map ti_previous_output (tx_input tx)))"
  by (auto simp: scan_block_inputs_def for_each_iff result_simps)

lemma check_block_body_iff:
  assumes "money_bound L" "length pres = length (b_txdata block)"
  shows "check_block_body L block ctx pres = Inr u \<longleftrightarrow> block_rules L block ctx pres"
proof -
  let ?z = "zip (b_txdata block) pres"
  have inputs: "scan_block_inputs L block pres = Inr () \<and>
      for_each (\<lambda>(tx, p). check_tx_local L tx (tc_base_size (row_connect p))) ?z = Inr () \<longleftrightarrow>
      (\<forall>(tx, p) \<in> set ?z. tx_rules L tx p)"
    (is "?scan \<and> ?local \<longleftrightarrow> ?rules")
  proof
    assume both: "?scan \<and> ?local"
    have "tx_rules L tx p" if "(tx, p) \<in> set ?z" for tx p
    proof -
      have "distinct (map ti_previous_output (tx_input tx))"
        using both that distinct_short [of "tx_input tx"] unfolding scan_block_inputs_iff [OF assms(1)] by force
      moreover have "check_tx_local L tx (tc_base_size (row_connect p)) = Inr ()"
        using both that by (auto simp: for_each_iff)
      ultimately show ?thesis using check_tx_local_iff [OF assms(1)] by blast
    qed
    then show ?rules by blast
  next
    assume rules: ?rules
    have "check_tx_local L tx (tc_base_size (row_connect p)) = Inr ()" if "(tx, p) \<in> set ?z" for tx p
      using rules that check_tx_local_iff [OF assms(1), of tx p] by (force simp: tx_rules_def)
    moreover have ?scan
      unfolding scan_block_inputs_iff [OF assms(1)] check_tx_shape_iff [OF assms(1)]
      using rules by (fastforce simp: tx_rules_def)
    ultimately show "?scan \<and> ?local" by (auto simp: for_each_iff)
  qed
  have first: "check_tx_shape L (b_txdata block ! 0) (tc_base_size (row_connect (pres ! 0))) = Inr ()"
    if "b_txdata block \<noteq> []" "\<forall>(tx, p) \<in> set ?z. tx_rules L tx p"
  proof -
    have "(b_txdata block ! 0, pres ! 0) \<in> set ?z"
      using that(1) assms(2) by (auto simp: set_zip)
    then show ?thesis using that(2) by (force simp: check_tx_shape_iff [OF assms(1)] tx_rules_def)
  qed
  show ?thesis
    using inputs first
    by (auto simp: check_block_body_def block_rules_def result_simps layout_iff reject_duplicate_txids_iff Let_def
        MAX_BLOCK_STRIPPED_SIZE_def MAX_BLOCK_WEIGHT_def not_less)
qed

lemma disciplined_check_bip34 [trust_intros]: "disciplined (check_bip34_coinbase cb height)"
  by (simp add: check_bip34_coinbase_def Let_def trust_intros)

lemma disciplined_validate_structure: "disciplined (validate_block_structure_with_pres L block ctx pres)"
  unfolding validate_block_structure_with_pres_def by (intro trust_intros)

interpretation structure_check: trust_check "validate_block_structure_with_pres L block ctx pres" for L block ctx pres
  by unfold_locales (rule disciplined_validate_structure)

definition bip34_prefix :: "block \<Rightarrow> u32 \<Rightarrow> bool" where
  "bip34_prefix block height \<longleftrightarrow>
    (\<exists>rest. ti_script_sig (tx_input (b_txdata block ! 0) ! 0) = bip34_height_script height @ rest)"

lemma bip34_height_script_nonempty [simp]: "bip34_height_script height \<noteq> []"
  by (simp add: bip34_height_script_def Let_def)

lemma take_eq_iff_prefix: "length ys \<le> length xs \<and> take (length ys) xs = ys \<longleftrightarrow> (\<exists>rest. xs = ys @ rest)"
  by (metis append_take_drop_id length_append le_add1 append_eq_conv_conj)

lemma check_bip34_strict:
  assumes "\<not> collecting ts"
  shows "fst (check_bip34_coinbase (b_txdata block ! 0) height ts) = Inr u \<longleftrightarrow> bip34_prefix block height"
  using assms take_eq_iff_prefix [of "bip34_height_script height" "ti_script_sig (tx_input (b_txdata block ! 0) ! 0)"]
  by (auto simp: check_bip34_coinbase_def Let_def strict_simps bip34_prefix_def not_less)

lemma stashed_pres_iff:
  "stashed_pres L block pres = Inr rows \<longleftrightarrow>
    rows = (case pres of Some stashed \<Rightarrow> stashed | None \<Rightarrow> map (from_tx L) (b_txdata block))
    \<and> length rows = length (b_txdata block)"
  by (auto simp: stashed_pres_def split: option.splits)

text \<open>
  C11. Structure validation, outside trust mode, accepts exactly the blocks that satisfy the
  declarative rules on their precomputed rows: the committed and unmutated merkle root, one coinbase
  in first place, every transaction well-shaped with distinct non-null inputs and outputs in money
  range, distinct ids, size and weight limits, the witness commitment, the coinbase height where it
  is enforced, and the signature operation limit; it returns those rows.
\<close>

theorem validate_block_structure_accepts:
  assumes "\<not> collecting ts" "money_bound L"
  shows "fst (validate_block_structure_with_pres L block ctx pres ts) = Inr rows \<longleftrightarrow>
    rows = (case pres of Some stashed \<Rightarrow> stashed | None \<Rightarrow> map (from_tx L) (b_txdata block))
    \<and> length rows = length (b_txdata block) \<and> block_rules L block ctx rows
    \<and> (vc_enforce_height_gates ctx \<and> bip34_active_at (vc_params ctx) (vc_height ctx) \<longrightarrow> bip34_prefix block (vc_height ctx))
    \<and> block_sigops_cost rows \<le> 80000"
  using assms(1)
  by (auto simp: validate_block_structure_with_pres_def strict_simps trust_intros result_simps stashed_pres_iff
      check_block_body_iff [OF assms(2)] check_bip34_strict MAX_BLOCK_SIGOPS_COST_def not_less split: if_splits)

definition sample_row :: tx_precompute where
  "sample_row = ConnectRow \<lparr>tc_txid = pad 32 [9], tc_wtxid = pad 32 [9], tc_base_size = 100, tc_total_size = 100,
     tc_sigops = 1, tc_out_sum = 5000000000, tc_has_witness = False\<rparr>"

definition sample_block :: block where
  "sample_block = \<lparr>b_header = sample_header\<lparr>h_merkle_root := pad 32 [9]\<rparr>, b_txdata = [sample_coinbase]\<rparr>"

lemma sample_money_bound: "money_bound sample_lib"
  by (simp add: money_bound_def)

lemma sample_block_rules: "block_rules sample_lib sample_block (archive_structure params) [sample_row]"
  by (auto simp: block_rules_def tx_rules_def sample_block_def sample_row_def sample_coinbase_def merkle_root_mutated_def
      merkle_root_loop.simps pres_txid_def out_total_def block_base_size_def block_total_size_def
      reject_witness_malleation_def block_has_witness_from_pres_def coinbase_has_witness_commitment_def
      witness_commitment_vout_index_def is_commitment_script_def Let_def)

theorem validate_block_structure_accepts_witness:
  "fst (validate_block_structure_with_pres sample_lib sample_block (archive_structure (params_mainnet sample_chain_lib))
     (Some [sample_row]) trust_off) = Inr [sample_row]"
  using sample_block_rules [of "params_mainnet sample_chain_lib"]
    validate_block_structure_accepts [of trust_off sample_lib sample_block "archive_structure (params_mainnet sample_chain_lib)"
      "Some [sample_row]" "[sample_row]"]
  by (simp add: sample_money_bound sample_block_def block_sigops_cost_def sample_row_def archive_structure_def
      WITNESS_SCALE_def sat_mul_def sat_add_def)

section \<open>Subsidy\<close>

lemma subsidy_interval_pos: "0 < unat (subsidy_halving_interval p)"
proof (cases "cp_subsidy_halving_overlay p")
  case (Some n)
  then have "1 \<le> subsidy_halving_interval p" by (simp add: subsidy_halving_interval_def)
  then show ?thesis by (simp add: word_le_nat_alt)
qed (simp add: subsidy_halving_interval_def)

lemma block_subsidy_nat:
  "block_subsidy height p = int (5000000000 div 2 ^ (unat height div unat (subsidy_halving_interval p)))"
proof -
  let ?h = "unat height div unat (subsidy_halving_interval p)"
  have h: "unat (height div subsidy_halving_interval p) = ?h" by (rule unat_div_distrib)
  show ?thesis
  proof (cases "64 \<le> ?h")
    case True
    then have "(5000000000 :: nat) < 2 ^ ?h"
      using power_increasing [OF True, of "2 :: nat"] by simp
    with True show ?thesis by (simp add: block_subsidy_def Let_def word_le_nat_alt h)
  next
    case False
    then show ?thesis by (simp add: block_subsidy_def Let_def word_le_nat_alt h drop_bit_eq_div zdiv_int)
  qed
qed

lemma sum_split_at: "(\<Sum>h<a + b. g h) = (\<Sum>h<a. g h) + (\<Sum>j<b. g (a + j))" for g :: "nat \<Rightarrow> nat"
  by (induction b) simp_all

lemma sum_periods: "(\<Sum>h<m * k. f (h div m)) = m * (\<Sum>i<k. f i)" if "0 < m" for f :: "nat \<Rightarrow> nat"
proof (induction k)
  case 0
  then show ?case by simp
next
  case (Suc k)
  have "(\<Sum>h<m * Suc k. f (h div m)) = (\<Sum>h<m * k. f (h div m)) + (\<Sum>j<m. f ((m * k + j) div m))"
    using sum_split_at [of "\<lambda>h. f (h div m)" "m * k" m] by (simp add: add.commute)
  also have "(\<Sum>j<m. f ((m * k + j) div m)) = m * f k" using that by simp
  finally show ?case using Suc.IH by (simp add: algebra_simps)
qed

lemma halvings_total: "(\<Sum>i<k. 5000000000 div 2 ^ i) \<le> (9999999989 :: nat)"
proof -
  have zero: "(5000000000 :: nat) div 2 ^ i = 0" if "64 \<le> i" for i
    using power_increasing [OF that, of "2 :: nat"] by simp
  have "(\<Sum>i<k. 5000000000 div 2 ^ i) \<le> (\<Sum>i<max k 64. 5000000000 div 2 ^ i :: nat)"
    by (rule sum_mono2) auto
  also have "\<dots> = (\<Sum>i<64. 5000000000 div 2 ^ i)"
    by (rule sum.mono_neutral_right) (use zero in auto)
  also have "\<dots> = sum_list (map (\<lambda>i. 5000000000 div 2 ^ i) [0..<64])"
    by (simp add: sum_list_sum_nth atLeast0LessThan)
  also have "\<dots> = 9999999989" by (simp add: upt_rec)
  finally show ?thesis .
qed

text \<open>
  C20. Issuance is bounded: the subsidies of any run of blocks from genesis total at most the
  halving interval times 99.99999989 coins. At the interval of every public network, this is
  20999999.9769 coins, below \<open>MAX_MONEY\<close>.
\<close>

theorem total_subsidy_bound:
  assumes "n \<le> 2 ^ 32"
  shows "(\<Sum>h<n. block_subsidy (word_of_nat h) p) \<le> int (unat (subsidy_halving_interval p)) * 9999999989
    \<and> (cp_subsidy_halving_overlay p = None \<and> cp_network p \<noteq> BtcRegtest \<longrightarrow>
        (\<Sum>h<n. block_subsidy (word_of_nat h) p) \<le> 2099999997690000)"
proof -
  let ?m = "unat (subsidy_halving_interval p)" and ?f = "\<lambda>i. 5000000000 div 2 ^ i :: nat"
  have m: "0 < ?m" by (rule subsidy_interval_pos)
  have "(\<Sum>h<n. block_subsidy (word_of_nat h) p) = (\<Sum>h<n. int (?f (h div ?m)))"
    using assms by (intro sum.cong) (auto simp: block_subsidy_nat unat_of_nat)
  also have "\<dots> = int (\<Sum>h<n. ?f (h div ?m))" by simp
  also have "(\<Sum>h<n. ?f (h div ?m)) \<le> (\<Sum>h<?m * n. ?f (h div ?m))"
    using m by (intro sum_mono2) auto
  also have "\<dots> = ?m * (\<Sum>i<n. ?f i)" by (rule sum_periods [OF m])
  also have "\<dots> \<le> ?m * 9999999989" by (intro mult_le_mono2 halvings_total)
  finally have total: "(\<Sum>h<n. block_subsidy (word_of_nat h) p) \<le> int ?m * 9999999989" by simp
  moreover have "int ?m * 9999999989 = 2099999997690000" if "cp_subsidy_halving_overlay p = None \<and> cp_network p \<noteq> BtcRegtest"
    using that by (simp add: subsidy_halving_interval_def)
  ultimately show ?thesis by metis
qed

theorem total_subsidy_bound_witness:
  "(6930000 :: nat) \<le> 2 ^ 32
    \<and> (\<Sum>h<6930000. block_subsidy (word_of_nat h) (params_mainnet sample_chain_lib)) \<le> 2099999997690000"
proof -
  have n: "(6930000 :: nat) \<le> 2 ^ 32" by simp
  have "cp_subsidy_halving_overlay (params_mainnet sample_chain_lib) = None \<and> cp_network (params_mainnet sample_chain_lib) \<noteq> BtcRegtest"
    by (simp add: params_mainnet_def base_params_def Let_def)
  then show ?thesis using total_subsidy_bound [OF n, of "params_mainnet sample_chain_lib"] n by blast
qed

section \<open>Relative locks\<close>

text \<open>The BIP68 rule for one input, with its coin at position \<open>i\<close> of the lookup lists.\<close>

definition lock_ok :: "u32 list \<Rightarrow> u32 list \<Rightarrow> u32 \<Rightarrow> u32 \<Rightarrow> nat \<Rightarrow> txin \<Rightarrow> bool" where
  "lock_ok heights mtps block_height prev_mtp i inp \<longleftrightarrow>
    (let seq = ti_sequence inp; rel = unat (seq AND SEQUENCE_MASK)
     in seq AND SEQUENCE_DISABLE \<noteq> 0 \<or>
        i < length heights \<and>
        (if seq AND SEQUENCE_TYPE_FLAG \<noteq> 0
         then i < length mtps \<and> mtps ! i \<noteq> 0 \<and> unat (mtps ! i) + rel * 512 \<le> unat prev_mtp
         else unat (heights ! i) + rel \<le> unat block_height))"

lemma max_less_nat: "max a (int u + int n - 1) < int v \<longleftrightarrow> a < int v \<and> u + n \<le> v"
  by linarith

lemma max_less_word: "max a (uint x + int n - 1) < uint y \<longleftrightarrow> a < uint y \<and> unat x + n \<le> unat y"
  for x y :: "'a::len word"
  using max_less_nat [of a "unat x" n "unat y"] by simp

lemma sequence_lock_loop_iff:
  "(\<exists>a' b'. sequence_lock_loop heights mtps i (a, b) inps = Some (a', b') \<and> a' < uint block_height \<and> b' < uint prev_mtp)
    \<longleftrightarrow> a < uint block_height \<and> b < uint prev_mtp
      \<and> (\<forall>k < length inps. lock_ok heights mtps block_height prev_mtp (i + k) (inps ! k))"
proof (induction inps arbitrary: i a b)
  case Nil
  then show ?case by simp
next
  case (Cons inp inps)
  let ?seq = "ti_sequence inp"
  have rel: "uint (?seq AND SEQUENCE_MASK) = int (unat (?seq AND SEQUENCE_MASK))" by simp
  have step: "(\<forall>k < length (inp # inps). lock_ok heights mtps block_height prev_mtp (i + k) ((inp # inps) ! k)) \<longleftrightarrow>
      lock_ok heights mtps block_height prev_mtp i inp
      \<and> (\<forall>k < length inps. lock_ok heights mtps block_height prev_mtp (i + 1 + k) (inps ! k))"
    by (simp add: All_less_Suc2)
  consider "?seq AND SEQUENCE_DISABLE \<noteq> 0" | "?seq AND SEQUENCE_DISABLE = 0" "\<not> i < length heights"
    | "?seq AND SEQUENCE_DISABLE = 0" "i < length heights" "?seq AND SEQUENCE_TYPE_FLAG = 0"
    | "?seq AND SEQUENCE_DISABLE = 0" "i < length heights" "?seq AND SEQUENCE_TYPE_FLAG \<noteq> 0" "i < length mtps" "mtps ! i \<noteq> 0"
    | "?seq AND SEQUENCE_DISABLE = 0" "i < length heights" "?seq AND SEQUENCE_TYPE_FLAG \<noteq> 0" "\<not> (i < length mtps \<and> mtps ! i \<noteq> 0)"
    by blast
  then show ?case
  proof cases
    case 1
    then show ?thesis unfolding step using Cons.IH [of "i + 1" a b] by (simp add: lock_ok_def Let_def)
  next
    case 2
    then show ?thesis unfolding step by (simp add: lock_ok_def Let_def get_at_def)
  next
    case 3
    then have "sequence_lock_loop heights mtps i (a, b) (inp # inps) =
        sequence_lock_loop heights mtps (i + 1) (max a (uint (heights ! i) + int (unat (?seq AND SEQUENCE_MASK)) - 1), b) inps"
      "lock_ok heights mtps block_height prev_mtp i inp \<longleftrightarrow> unat (heights ! i) + unat (?seq AND SEQUENCE_MASK) \<le> unat block_height"
      by (simp_all add: lock_ok_def Let_def get_at_def)
    then show ?thesis unfolding step by (simp only: Cons.IH max_less_word) blast
  next
    case 4
    then have "sequence_lock_loop heights mtps i (a, b) (inp # inps) =
        sequence_lock_loop heights mtps (i + 1) (a, max b (uint (mtps ! i) + int (unat (?seq AND SEQUENCE_MASK) * 512) - 1)) inps"
      "lock_ok heights mtps block_height prev_mtp i inp \<longleftrightarrow> unat (mtps ! i) + unat (?seq AND SEQUENCE_MASK) * 512 \<le> unat prev_mtp"
      by (simp_all add: lock_ok_def Let_def get_at_def push_bit_eq_mult)
    then show ?thesis unfolding step by (simp only: Cons.IH max_less_word) blast
  next
    case 5
    then show ?thesis unfolding step by (auto simp: lock_ok_def Let_def get_at_def)
  qed
qed

lemma all_less_two: "(\<forall>k < Suc (Suc 0). P k) \<longleftrightarrow> P 0 \<and> P (Suc 0)"
  by (auto simp: less_Suc_eq)

text \<open>
  C21. Relative locks: the fold over running minima decides exactly the per-input rule. A
  transaction of version two or more passes when every input whose sequence is not disabled has a
  known coin and either its height plus the relative lock is at most the block height, or its median
  time (never zero) plus the lock in units of 512 seconds is at most the parent's median time.
\<close>

theorem sequence_locks_per_input:
  "sequence_locks_satisfied tx heights mtps block_height prev_mtp \<longleftrightarrow>
    \<not> 2 \<le> tx_version tx \<or>
    (\<forall>k < length (tx_input tx). lock_ok heights mtps block_height prev_mtp k (tx_input tx ! k))"
proof -
  have "(case sequence_lock_loop heights mtps 0 (- 1, - 1) (tx_input tx) of
      None \<Rightarrow> False
    | Some (min_height, min_time) \<Rightarrow>
        if uint block_height \<le> min_height then False else if uint prev_mtp \<le> min_time then False else True)
    \<longleftrightarrow> (\<exists>a b. sequence_lock_loop heights mtps 0 (- 1, - 1) (tx_input tx) = Some (a, b)
          \<and> a < uint block_height \<and> b < uint prev_mtp)"
    by (auto split: option.splits)
  also have "\<dots> \<longleftrightarrow> (\<forall>k < length (tx_input tx). lock_ok heights mtps block_height prev_mtp k (tx_input tx ! k))"
    unfolding sequence_lock_loop_iff by (simp add: order.strict_trans2 [of "- 1" 0])
  finally show ?thesis by (simp add: sequence_locks_satisfied_def bip68_active_for_tx_def)
qed

theorem sequence_locks_per_input_witness:
  "let inp = (\<lambda>n. \<lparr>ti_previous_output = ([], 0), ti_script_sig = [], ti_sequence = n, ti_witness = []\<rparr>);
       tx = \<lparr>tx_version = 2, tx_lock_time = 0, tx_input = [inp 3, inp 0x400002], tx_output = []\<rparr>
   in sequence_locks_satisfied tx [10, 10] [0, 1000] 13 2024
     \<and> \<not> sequence_locks_satisfied tx [10, 10] [0, 1000] 12 2024
     \<and> \<not> sequence_locks_satisfied tx [10, 10] [0, 1000] 13 2023"
  unfolding Let_def sequence_locks_per_input by (simp add: all_less_two lock_ok_def)

section \<open>Witness commitment\<close>

lemma find_rev_upt_last: "P n \<Longrightarrow> find P (rev [0..<Suc n]) = Some n"
  by simp

lemma commitment_index_appended:
  assumes "is_commitment_script (to_script_pubkey out)"
  shows "witness_commitment_vout_index (tx\<lparr>tx_output := outs @ [out]\<rparr>) = Some (length outs)"
  using assms by (simp add: witness_commitment_vout_index_def)

lemma commitment_script_shape:
  assumes "digest_lengths L"
  shows "is_commitment_script (witness_commitment_script L ws reserved)"
    "take 32 (drop 6 (witness_commitment_script L ws reserved)) = witness_commitment_digest L ws reserved"
  using assms
  by (simp_all add: is_commitment_script_def witness_commitment_script_def WITNESS_COMMITMENT_MAGIC_def
      digest_lengths_def witness_commitment_digest_def Let_def)

text \<open>
  C28. Building and checking a witness commitment agree: for a block that carries witness data and
  whose coinbase has an input, \<open>apply_witness_commitment\<close> yields a block that passes the BIP141 check
  on the witness ids of its other transactions. Those transactions are unchanged. A block without
  witness data is returned as it is.
\<close>

theorem witness_commitment_roundtrip:
  assumes "digest_lengths (k_btc K)" "b_txdata block = cb # txs" "tx_input cb \<noteq> []" "block_has_witness block"
  shows "check_witness_commitment_with_wtxids (k_btc K) (apply_witness_commitment K block) (map (k_compute_wtxid K) txs) = Inr ()
    \<and> drop 1 (b_txdata (apply_witness_commitment K block)) = txs
    \<and> (\<forall>b. \<not> block_has_witness b \<longrightarrow> apply_witness_commitment K b = b)"
proof -
  let ?r = "replicate 32 0 :: bytes"
  let ?spk = "witness_commitment_script (k_btc K) (map (k_compute_wtxid K) txs) ?r"
  let ?cb = "set_coinbase_commitment ?r ?spk cb"
  have data: "b_txdata (apply_witness_commitment K block) = ?cb # txs"
    using assms(2,4) by (simp add: apply_witness_commitment_def Let_def split: option.splits)
  have "witness_commitment_vout_index ?cb = Some (length (tx_output cb))"
    unfolding set_coinbase_commitment_def
    by (subst commitment_index_appended) (simp_all add: commitment_script_shape [OF assms(1)])
  moreover have "tx_output ?cb ! length (tx_output cb) = \<lparr>to_value = 0, to_script_pubkey = ?spk\<rparr>"
    by (simp add: set_coinbase_commitment_def)
  moreover have "ti_witness (tx_input ?cb ! 0) = [?r]"
    using assms(3) by (simp add: set_coinbase_commitment_def)
  ultimately have "check_witness_commitment_with_wtxids (k_btc K) (apply_witness_commitment K block) (map (k_compute_wtxid K) txs) = Inr ()"
    by (simp add: check_witness_commitment_with_wtxids_def data Let_def commitment_script_shape [OF assms(1)])
  then show ?thesis using data by (simp add: apply_witness_commitment_def)
qed

theorem witness_commitment_roundtrip_witness:
  "let spend = sample_coinbase\<lparr>tx_input := [\<lparr>ti_previous_output = (pad 32 [7], 0), ti_script_sig = [], ti_sequence = 0, ti_witness = [[1]]\<rparr>]\<rparr>;
       block = sample_block\<lparr>b_txdata := [sample_coinbase, spend]\<rparr>
   in block_has_witness block
    \<and> check_witness_commitment_with_wtxids sample_lib (apply_witness_commitment sample_chain_lib block)
        [pad 32 (to_le 4 1)] = Inr ()"
proof -
  let ?spend = "sample_coinbase\<lparr>tx_input := [\<lparr>ti_previous_output = (pad 32 [7], 0), ti_script_sig = [], ti_sequence = 0, ti_witness = [[1]]\<rparr>]\<rparr>"
  let ?block = "sample_block\<lparr>b_txdata := [sample_coinbase, ?spend]\<rparr>"
  have wit: "block_has_witness ?block" by (simp add: block_has_witness_def)
  have "tx_input sample_coinbase \<noteq> []" "tx_version sample_coinbase = 1" by (simp_all add: sample_coinbase_def)
  then show ?thesis
    using witness_commitment_roundtrip [of sample_chain_lib ?block sample_coinbase "[?spend]"] wit sample_digest_lengths
    by simp
qed

section \<open>Waived coinbases\<close>

lemma unat_of_nonneg: "0 \<le> x \<Longrightarrow> x < 2 ^ 64 \<Longrightarrow> unat (word_of_int x :: u64) = nat x"
  by (simp add: unsigned_of_int take_bit_int_eq_self)

lemma residue_loop_total:
  "sum_list (map unat (residue_loop left outs)) = sum_list (map unat outs) - unat left
    \<and> list_all2 (\<lambda>r v. r \<le> v) (residue_loop left outs) outs"
proof (induction outs arbitrary: left)
  case Nil
  then show ?case by simp
next
  case (Cons v outs)
  show ?case
  proof (cases "left \<le> v")
    case True
    then show ?thesis
      using Cons.IH [of 0] by (simp add: Let_def min_def unat_sub word_le_nat_alt word_sub_le)
  next
    case False
    then have "v \<le> left" by simp
    then show ?thesis
      using False Cons.IH [of "left - v"] by (simp add: Let_def min_def unat_sub word_le_nat_alt)
  qed
qed

text \<open>
  C27. Fees with a waived same-block coinbase conserve value: when a fee is returned, it is between
  zero and the coins that already existed, those coins are exactly the fee plus the clean part of
  the outputs, and the part that still traces to the waived coinbase is at most that coinbase, with
  no output's residue above its value. So a waived coinbase never turns into a fee.
\<close>

theorem waived_fee_conserves:
  assumes "fee_with_waived_coinbase paid waived (int (sum_list (map unat outs))) = Inr fee"
    and "0 \<le> paid" "paid \<le> i64_max" "0 \<le> waived" "outs \<noteq> []"
  shows "let residue = waived_output_residue paid fee outs in
    0 \<le> fee \<and> fee \<le> paid
    \<and> paid = fee + (int (sum_list (map unat outs)) - int (sum_list (map unat residue)))
    \<and> int (sum_list (map unat residue)) \<le> waived
    \<and> list_all2 (\<lambda>r v. r \<le> v) residue outs"
proof -
  let ?out = "sum_list (map unat outs)"
  have fee: "0 \<le> fee" "fee \<le> paid" "fee = (if int ?out \<le> paid then paid - int ?out else 0)" "int ?out \<le> paid + waived"
    using assms by (auto simp: fee_with_waived_coinbase_def fee_from_values_def result_simps i64_checked_eq_Some split: if_splits)
  have "in_i64 (paid - fee)" using fee(1,2) assms(2,3) by (simp add: in_i64_def)
  then have left: "max (i64_saturate (paid - fee)) 0 = paid - fee" using fee(2) by (simp add: i64_saturate_id)
  have "unat (word_of_int (paid - fee) :: u64) = nat (paid - fee)"
    using fee(1,2) assms(2,3) by (intro unat_of_nonneg) simp_all
  then have "sum_list (map unat (waived_output_residue paid fee outs)) = ?out - nat (paid - fee)"
    using residue_loop_total [of "word_of_int (paid - fee)" outs] by (simp add: waived_output_residue_def left)
  moreover have "list_all2 (\<lambda>r v. r \<le> v) (waived_output_residue paid fee outs) outs"
    using residue_loop_total by (simp add: waived_output_residue_def)
  ultimately show ?thesis using fee assms(4) by (auto simp: Let_def split: if_splits)
qed

theorem waived_fee_conserves_witness:
  "fee_with_waived_coinbase 10 50 (int (sum_list (map unat [20 :: u64, 30]))) = Inr 0
    \<and> (let residue = waived_output_residue 10 0 [20, 30] in
        10 = 0 + (int (sum_list (map unat [20 :: u64, 30])) - int (sum_list (map unat residue)))
        \<and> int (sum_list (map unat residue)) \<le> 50)"
proof -
  have run: "fee_with_waived_coinbase 10 50 (int (sum_list (map unat [20 :: u64, 30]))) = Inr 0"
    by (simp add: fee_with_waived_coinbase_def i64_checked_def in_i64_def)
  then show ?thesis using waived_fee_conserves [OF run] by (simp add: Let_def)
qed

section \<open>Coinbase height\<close>

lemma scriptnum_encode_height:
  assumes "16 < height"
  shows "1 \<le> length (scriptnum_encode (uint (height :: u32)))" "length (scriptnum_encode (uint height)) \<le> 5"
proof -
  have "scriptnum_encode (uint height) \<noteq> []"
    using assms scriptnum_value_encode [of "uint height"] scriptnum_value_encode [of 0]
    by (auto simp: scriptnum_encode_def [of 0] uint_0_iff)
  then show "1 \<le> length (scriptnum_encode (uint height))" by (simp add: Suc_le_eq)
  show "length (scriptnum_encode (uint height)) \<le> 5"
    using scriptnum_encode_length [of "uint height" 4] uint_bounded [of height] by simp
qed

lemma bip34_script_first:
  "hd (bip34_height_script h) =
    (if h = 0 then 0 else if h \<le> 16 then 0x50 + ucast h else word_of_nat (length (scriptnum_encode (uint h))))"
  by (simp add: bip34_height_script_def Let_def)

lemma bip34_script_unique:
  assumes "bip34_height_script h @ r = bip34_height_script h' @ r'"
  shows "h = h'"
proof -
  have first: "hd (bip34_height_script h) = hd (bip34_height_script h')"
    using assms by (metis bip34_height_script_nonempty hd_append2)
  have num: "unat (hd (bip34_height_script h)) \<in> {1..5}" if "16 < h" for h
    using that scriptnum_encode_height [OF that] by (auto simp: bip34_script_first unat_of_nat not_le)
  have small: "unat (hd (bip34_height_script h)) = (if h = 0 then 0 else 80 + unat h)" if "h \<le> 16" for h
    using that by (auto simp: bip34_script_first unat_word_ariths word_le_nat_alt unat_ucast_mod)
  have eq: "unat (hd (bip34_height_script h)) = unat (hd (bip34_height_script h'))" using first by simp
  consider "h \<le> 16" "h' \<le> 16" | "16 < h" "16 < h'" | "h \<le> 16" "16 < h'" | "16 < h" "h' \<le> 16"
    by (cases "h \<le> 16"; cases "h' \<le> 16") (simp_all add: not_le)
  then show ?thesis
  proof cases
    case 1
    have "unat h = unat h'" using eq unfolding small [OF 1(1)] small [OF 1(2)] by (simp split: if_splits)
    then show ?thesis by (simp add: word_eq_iff_unsigned [where ?'a = nat])
  next
    case 2
    have len: "length (scriptnum_encode (uint h)) = length (scriptnum_encode (uint h'))"
      using eq 2 scriptnum_encode_height [OF 2(1)] scriptnum_encode_height [OF 2(2)] 
      by (simp add: bip34_script_first not_le unat_of_nat split: if_splits)
    then have "scriptnum_encode (uint h) = scriptnum_encode (uint h')"
      using assms 2 by (simp add: bip34_height_script_def Let_def not_le split: if_splits)
    then have "scriptnum_value (scriptnum_encode (uint h)) = scriptnum_value (scriptnum_encode (uint h'))" by (rule arg_cong)
    then show ?thesis unfolding scriptnum_value_encode by (rule word_uint_eqI)
  next
    case 3
    then show ?thesis using eq num [OF 3(2)] small [OF 3(1)] by (simp split: if_splits)
  next
    case 4
    then show ?thesis using eq num [OF 4(1)] small [OF 4(2)] by (simp split: if_splits)
  qed
qed

text \<open>
  A coinbase satisfies the BIP34 rule for at most one height: if the strict check passes at two
  heights, they are the same.
\<close>

theorem coinbase_height_unique:
  assumes "\<not> collecting ts"
    and "fst (check_bip34_coinbase (b_txdata (block :: block) ! 0) h ts) = Inr ()"
    and "fst (check_bip34_coinbase (b_txdata block ! 0) h' ts) = Inr ()"
  shows "h = h'"
proof -
  have "bip34_prefix block h" "bip34_prefix block h'"
    using assms(2,3) by (simp_all add: check_bip34_strict [OF assms(1)])
  then show ?thesis unfolding bip34_prefix_def by (metis bip34_script_unique)
qed

theorem coinbase_height_unique_witness:
  "let cb = sample_coinbase\<lparr>tx_input := [(tx_input sample_coinbase ! 0)\<lparr>ti_script_sig := [1, 17]\<rparr>]\<rparr>
   in fst (check_bip34_coinbase cb 17 trust_off) = Inr () \<and> fst (check_bip34_coinbase cb 18 trust_off) \<noteq> Inr ()"
proof -
  let ?b = "sample_block\<lparr>b_txdata := [sample_coinbase\<lparr>tx_input := [(tx_input sample_coinbase ! 0)\<lparr>ti_script_sig := [1, 17]\<rparr>]\<rparr>]\<rparr>"
  have "bip34_height_script 17 = [1, 17]" by code_simp
  then have "fst (check_bip34_coinbase (b_txdata ?b ! 0) 17 trust_off) = Inr ()"
    by (simp add: check_bip34_coinbase_def strict_simps)
  then show ?thesis using coinbase_height_unique [of trust_off ?b 18 17] by auto
qed

end
