(* ===== verification/Policy.thy ===== *)
theory Policy
  imports BlockRules Interp
begin

text \<open>
  Relay policy of \<open>crates/rbitcoin-consensus/src/policy.rs\<close>: fee rates on 64-bit values with the
  saturating arithmetic of the source, the annex rule, dust and the admission check. The static
  reason of \<open>NonStandard\<close> is its string.
\<close>

section \<open>Definitions\<close>

datatype policy_result = Standard | NonStandard string

definition MIN_RELAY_FEE_RATE_SAT_PER_KVB :: u64 where
  "MIN_RELAY_FEE_RATE_SAT_PER_KVB = 100"

definition MAX_STANDARD_TX_WEIGHT :: u64 where
  "MAX_STANDARD_TX_WEIGHT = 400000"

definition is_standard :: "policy_result \<Rightarrow> bool" where
  "is_standard r = (r = Standard)"

definition policy_is_ok :: "policy_result \<Rightarrow> bool" where
  "policy_is_ok r = is_standard r"

text \<open>\<open>Weight::to_vbytes_ceil\<close> is the field \<open>lib_to_vbytes_ceil\<close>.\<close>

definition vbytes_ceil :: "btc_lib \<Rightarrow> u64 \<Rightarrow> u64" where
  "vbytes_ceil L weight = (if - 1 - 4 < weight then - 1 div 4 else lib_to_vbytes_ceil L weight)"

definition fee_exceeds_max :: "btc_lib \<Rightarrow> u64 \<Rightarrow> u64 \<Rightarrow> u64 \<Rightarrow> bool" where
  "fee_exceeds_max L fee_sat weight max_sat_kvb =
    (if max_sat_kvb = 0 then False
     else
       let prod = ucast max_sat_kvb * ucast (vbytes_ceil L weight) :: 128 word;
           cap = (if prod mod 1000 = 0 then prod div 1000 else prod div 1000 + 1)
       in cap < ucast fee_sat)"

definition feerate_exceeds_max :: "btc_lib \<Rightarrow> u64 \<Rightarrow> u64 \<Rightarrow> u64 \<Rightarrow> bool" where
  "feerate_exceeds_max L fee_sat weight max_sat_kvb =
    (max_sat_kvb \<noteq> 0 \<and> ucast max_sat_kvb * ucast (vbytes_ceil L weight) < (ucast fee_sat * 1000 :: 128 word))"

definition meets_min_relay_fee_at :: "btc_lib \<Rightarrow> u64 \<Rightarrow> u64 \<Rightarrow> u64 \<Rightarrow> bool" where
  "meets_min_relay_fee_at L fee_sat weight sat_kvb =
    (if sat_kvb = 0 then True
     else
       let vsize = vbytes_ceil L weight
       in if vsize = 0 then False else sat_mul vsize sat_kvb \<le> sat_mul fee_sat 1000)"

definition meets_min_relay_fee :: "btc_lib \<Rightarrow> u64 \<Rightarrow> u64 \<Rightarrow> bool" where
  "meets_min_relay_fee L fee_sat weight = meets_min_relay_fee_at L fee_sat weight MIN_RELAY_FEE_RATE_SAT_PER_KVB"

definition fee_rate_sat_per_kvb :: "btc_lib \<Rightarrow> u64 \<Rightarrow> u64 \<Rightarrow> u64" where
  "fee_rate_sat_per_kvb L fee_sat weight =
    (let vsize = vbytes_ceil L weight in if vsize = 0 then 0 else sat_mul fee_sat 1000 div vsize)"

definition is_annex_standard :: "bytes \<Rightarrow> bool" where
  "is_annex_standard annex =
    (if annex = [] then True
     else if annex ! 0 \<noteq> OP_RESERVED then True
     else length annex = 1 \<or> annex ! 1 = 0)"

fun libre_annex_loop :: "txin list \<Rightarrow> policy_result" where
  "libre_annex_loop [] = Standard"
| "libre_annex_loop (inp # inps) =
    (let stack = ti_witness inp
     in if length stack < 2 then libre_annex_loop inps
        else if \<not> is_annex_standard (last stack) then NonStandard ''libre annex''
        else libre_annex_loop inps)"

definition check_libre_annex :: "transaction \<Rightarrow> policy_result" where
  "check_libre_annex tx = libre_annex_loop (tx_input tx)"

definition is_unspendable :: "bytes \<Rightarrow> bool" where
  "is_unspendable script =
    ((case script of [] \<Rightarrow> False | b # _ \<Rightarrow> b = OP_RETURN) \<or> MAX_SCRIPT_SIZE_LEGACY < length script)"

definition is_dust :: "txout \<Rightarrow> bool" where
  "is_dust out = (to_value out = 0 \<and> \<not> is_unspendable (to_script_pubkey out))"

definition dust_vouts :: "transaction \<Rightarrow> u32 list" where
  "dust_vouts tx = map (\<lambda>(i, _). word_of_nat i) (filter (\<lambda>(_, out). is_dust out) (enumerate 0 (tx_output tx)))"

definition spends_dust_of :: "btc_lib \<Rightarrow> transaction \<Rightarrow> transaction \<Rightarrow> bool" where
  "spends_dust_of L parent child =
    (let txid = lib_compute_txid L parent
     in list_ex (\<lambda>vout. list_ex (\<lambda>i. ti_previous_output i = (txid, vout)) (tx_input child)) (dust_vouts parent))"

definition check_libre_shape :: "btc_lib \<Rightarrow> transaction \<Rightarrow> u64 \<Rightarrow> policy_result" where
  "check_libre_shape L tx weight =
    (if lib_is_coinbase L tx then NonStandard ''coinbase''
     else if list_ex (\<lambda>out. MAX_SCRIPT_SIZE_LEGACY < length (to_script_pubkey out)
                        \<and> (case to_script_pubkey out of [] \<Rightarrow> True | b # _ \<Rightarrow> b \<noteq> OP_RETURN)) (tx_output tx)
     then NonStandard ''scriptpubkey''
     else if 2 \<le> length (dust_vouts tx) then NonStandard ''dust''
     else if MAX_STANDARD_TX_WEIGHT < weight then NonStandard ''tx weight''
     else check_libre_annex tx)"

definition check_libre_admission_at :: "btc_lib \<Rightarrow> transaction \<Rightarrow> u64 \<Rightarrow> int \<Rightarrow> u64 \<Rightarrow> u64 \<Rightarrow> policy_result" where
  "check_libre_admission_at L tx fee_sat fee_delta weight min_relay_sat_kvb =
    (case check_libre_shape L tx weight of
       NonStandard why \<Rightarrow> NonStandard why
     | Standard \<Rightarrow>
         let modified = uint fee_sat + fee_delta
         in if (fee_sat \<noteq> 0 \<or> modified \<noteq> 0) \<and> dust_vouts tx \<noteq> [] then NonStandard ''dust''
            else if \<not> meets_min_relay_fee_at L (word_of_int (max modified 0)) weight min_relay_sat_kvb
            then NonStandard ''min relay fee''
            else Standard)"

definition check_libre_admission :: "btc_lib \<Rightarrow> transaction \<Rightarrow> u64 \<Rightarrow> u64 \<Rightarrow> policy_result" where
  "check_libre_admission L tx fee_sat weight =
    check_libre_admission_at L tx fee_sat 0 weight MIN_RELAY_FEE_RATE_SAT_PER_KVB"

section \<open>Properties\<close>

lemma libre_annex_loop_iff:
  "libre_annex_loop inps = Standard \<longleftrightarrow> (\<forall>i \<in> set inps. 2 \<le> length (ti_witness i) \<longrightarrow> is_annex_standard (last (ti_witness i)))"
  by (induction inps) (auto simp: Let_def)

text \<open>Documented behaviour of \<open>Weight::to_vbytes_ceil\<close>: a quarter of the weight, rounded up.\<close>

definition vbytes_rounds_up :: "btc_lib \<Rightarrow> bool" where
  "vbytes_rounds_up L \<longleftrightarrow> (\<forall>w. unat w < 2 ^ 64 - 4 \<longrightarrow> unat (lib_to_vbytes_ceil L w) = (unat w + 3) div 4)"

lemma unat_vbytes_ceil:
  assumes "vbytes_rounds_up L" "unat weight \<le> 400000"
  shows "unat (vbytes_ceil L weight) = (unat weight + 3) div 4"
  using assms by (auto simp: vbytes_ceil_def vbytes_rounds_up_def word_less_nat_alt)

lemma meets_min_relay_fee_exact:
  assumes "vbytes_rounds_up L" "unat weight \<le> 400000" "unat rate \<le> 10 ^ 14"
  shows "meets_min_relay_fee_at L fee weight rate \<longleftrightarrow>
    rate = 0 \<or> 0 < unat weight \<and> (unat weight + 3) div 4 * unat rate \<le> unat fee * 1000"
proof -
  have "(unat weight + 3) div 4 * unat rate \<le> 100000 * 10 ^ 14"
    using assms(2,3) by (intro mult_le_mono) auto
  then show ?thesis
    using unat_vbytes_ceil [OF assms(1,2)]
    by (auto simp: meets_min_relay_fee_at_def Let_def word_le_nat_alt unat_sat_mul word_unat_eq_iff)
qed

lemma fee_cast:
  assumes "k < 2 ^ 64"
  shows "unat (word_of_int (max k 0) :: u64) = nat k"
proof -
  have "uint (word_of_int (max k 0) :: u64) = max k 0"
    using assms by (subst uint_word_of_int_eq) (simp add: take_bit_int_eq_self_iff)
  then show ?thesis by (simp only: unat_eq_nat_uint)
qed

lemma policy_if: "(if c then NonStandard a else if d then NonStandard b else Standard) = Standard \<longleftrightarrow> \<not> c \<and> \<not> d"
  by simp

lemma policy_chain:
  "(if a then NonStandard p else if b then NonStandard q else if c then NonStandard r else if d then NonStandard t else e)
      = Standard \<longleftrightarrow> \<not> a \<and> \<not> b \<and> \<not> c \<and> \<not> d \<and> e = Standard"
  by simp

lemma int_unat: "int (unat w) = uint w" for w :: u64
  by simp

lemma big_scripts_iff:
  "list_ex (\<lambda>out. MAX_SCRIPT_SIZE_LEGACY < length (to_script_pubkey out)
      \<and> (case to_script_pubkey out of [] \<Rightarrow> True | b # _ \<Rightarrow> b \<noteq> OP_RETURN)) outs \<longleftrightarrow>
    \<not> (\<forall>out \<in> set outs. length (to_script_pubkey out) \<le> MAX_SCRIPT_SIZE_LEGACY
       \<or> hd (to_script_pubkey out) = OP_RETURN)"
proof -
  have "(case spk of [] \<Rightarrow> True | b # _ \<Rightarrow> b \<noteq> OP_RETURN) \<longleftrightarrow> spk = [] \<or> hd spk \<noteq> OP_RETURN" for spk
    by (cases spk) simp_all
  then show ?thesis by (auto simp: list_ex_iff not_le)
qed

lemma check_libre_shape_iff:
  "check_libre_shape L tx weight = Standard \<longleftrightarrow>
    \<not> lib_is_coinbase L tx
    \<and> (\<forall>out \<in> set (tx_output tx). length (to_script_pubkey out) \<le> MAX_SCRIPT_SIZE_LEGACY
         \<or> hd (to_script_pubkey out) = OP_RETURN)
    \<and> unat weight \<le> 400000
    \<and> (\<forall>i \<in> set (tx_input tx). 2 \<le> length (ti_witness i) \<longrightarrow> is_annex_standard (last (ti_witness i)))
    \<and> length (dust_vouts tx) \<le> 1"
proof -
  have "MAX_STANDARD_TX_WEIGHT < weight \<longleftrightarrow> \<not> unat weight \<le> 400000"
    by (simp add: MAX_STANDARD_TX_WEIGHT_def word_less_nat_alt not_le)
  moreover have "2 \<le> length (dust_vouts tx) \<longleftrightarrow> \<not> length (dust_vouts tx) \<le> 1" by linarith
  ultimately show ?thesis
    unfolding check_libre_shape_def big_scripts_iff check_libre_annex_def libre_annex_loop_iff [symmetric]
      policy_chain by blast
qed

text \<open>
  C25. Admission, end to end: for a fee within the money supply and a floor of at most a million
  sat/vB, the saturating 64-bit checks accept exactly the transactions that are no coinbase, have
  only output scripts that are small or start with OP_RETURN, weigh at most 400000 units, carry
  only allowed annexes, have at most one dust output and then pay nothing, and whose fee plus delta
  (negative counts as zero) reaches the floor over exact rationals, for the size rounded up.
\<close>

theorem check_libre_admission_accepts:
  assumes "vbytes_rounds_up L" "unat rate \<le> 10 ^ 14" "unat fee \<le> 2100000000000000"
    "- (2 ^ 63) \<le> delta" "delta < 2 ^ 63"
  shows "check_libre_admission_at L tx fee delta weight rate = Standard \<longleftrightarrow>
    \<not> lib_is_coinbase L tx
    \<and> (\<forall>out \<in> set (tx_output tx). length (to_script_pubkey out) \<le> MAX_SCRIPT_SIZE_LEGACY
         \<or> hd (to_script_pubkey out) = OP_RETURN)
    \<and> unat weight \<le> 400000
    \<and> (\<forall>i \<in> set (tx_input tx). 2 \<le> length (ti_witness i) \<longrightarrow> is_annex_standard (last (ti_witness i)))
    \<and> length (dust_vouts tx) \<le> 1 \<and> (dust_vouts tx \<noteq> [] \<longrightarrow> fee = 0 \<and> delta = 0)
    \<and> (rate = 0 \<or> 0 < unat weight \<and> (unat weight + 3) div 4 * unat rate \<le> nat (int (unat fee) + delta) * 1000)"
proof -
  have small: "uint fee \<le> 2100000000000000" unfolding int_unat [symmetric] using assms(3) by linarith
  have modified: "unat (word_of_int (max (uint fee + delta) 0) :: u64) = nat (uint fee + delta)"
    using small assms(5) by (intro fee_cast) simp
  have free: "(fee \<noteq> 0 \<or> uint fee + delta \<noteq> 0) \<longleftrightarrow> \<not> (fee = 0 \<and> delta = 0)" by auto
  show ?thesis
  proof (cases "check_libre_shape L tx weight")
    case Standard
    note shape = iffD1 [OF check_libre_shape_iff Standard]
    then have light: "unat weight \<le> 400000" by blast
    have "check_libre_admission_at L tx fee delta weight rate = Standard \<longleftrightarrow>
        \<not> (\<not> (fee = 0 \<and> delta = 0) \<and> dust_vouts tx \<noteq> [])
        \<and> meets_min_relay_fee_at L (word_of_int (max (uint fee + delta) 0)) weight rate"
      unfolding check_libre_admission_at_def Standard policy_result.case Let_def free policy_if by blast
    with shape show ?thesis
      unfolding meets_min_relay_fee_exact [OF assms(1) light assms(2)] modified int_unat by blast
  next
    case (NonStandard why)
    then have "check_libre_shape L tx weight \<noteq> Standard" by simp
    moreover have "check_libre_admission_at L tx fee delta weight rate \<noteq> Standard"
      unfolding check_libre_admission_at_def NonStandard by simp
    ultimately show ?thesis unfolding check_libre_shape_iff by blast
  qed
qed

theorem check_libre_admission_accepts_witness:
  "let out = (\<lambda>v. \<lparr>to_value = v, to_script_pubkey = [0x51]\<rparr>);
       tx = \<lparr>tx_version = 2, tx_lock_time = 0,
             tx_input = [\<lparr>ti_previous_output = ([], 0), ti_script_sig = [], ti_sequence = 0, ti_witness = [[1], [0x50, 0, 7]]\<rparr>],
             tx_output = [out 1]\<rparr>
   in check_libre_admission_at sample_lib tx 41 (- 1) 1600 100 = Standard
     \<and> check_libre_admission_at sample_lib tx 40 (- 1) 1600 100 \<noteq> Standard
     \<and> check_libre_admission_at sample_lib (tx\<lparr>tx_output := [out 0]\<rparr>) 41 0 1600 100 \<noteq> Standard"
proof -
  have "vbytes_rounds_up sample_lib"
    by (auto simp: vbytes_rounds_up_def unat_div_distrib unat_word_ariths)
  note accepts = check_libre_admission_accepts [OF this]
  show ?thesis
    unfolding Let_def
    by (simp add: accepts dust_vouts_def is_dust_def is_unspendable_def is_annex_standard_def enumerate_eq_zip
        MAX_SCRIPT_SIZE_LEGACY_def)
qed

end
