(* ===== verification/Signet.thy ===== *)
theory Signet
  imports BlockRules Verify Compact Merkle
begin

text \<open>
  The BIP325 block solution of \<open>crates/rbitcoin-consensus/src/signet.rs\<close>: the signet section of the
  witness commitment, its parser, the two synthetic transactions and the challenge check. The reader
  \<open>&mut &[u8]\<close> is the remaining bytes, returned with the value.
\<close>

section \<open>Definitions\<close>

definition SIGNET_HEADER :: bytes where
  "SIGNET_HEADER = [0xEC, 0xC7, 0xDA, 0xA2]"

definition signet_magic :: "btc_lib \<Rightarrow> bytes \<Rightarrow> bytes" where
  "signet_magic L challenge = take 4 (lib_sha256d L (enc_bytes L challenge))"

definition get_slice :: "bytes \<Rightarrow> nat \<Rightarrow> nat \<Rightarrow> bytes option" where
  "get_slice b i j = (if i \<le> j \<and> j \<le> length b then Some (take (j - i) (drop i b)) else None)"

text \<open>The result holds the opcode, its payload and the advanced cursor.\<close>

definition next_script_op :: "bytes \<Rightarrow> nat \<Rightarrow> (u8 \<times> bytes \<times> nat) option" where
  "next_script_op spk pc =
    Option.bind (get_at spk pc) (\<lambda>op.
    let at = pc + 1 in
    Option.bind
      (if 1 \<le> op \<and> op \<le> OP_PUSHBYTES_75 then Some (at, unat op)
       else if op = OP_PUSHDATA1 then map_option (\<lambda>n. (at + 1, unat n)) (get_at spk at)
       else if op = OP_PUSHDATA2 then map_option (\<lambda>n. (at + 2, of_le n)) (get_slice spk at (at + 2))
       else if op = OP_PUSHDATA4 then map_option (\<lambda>n. (at + 4, of_le n)) (get_slice spk at (at + 4))
       else Some (at, 0)) (\<lambda>(at, len).
    map_option (\<lambda>data. (op, data, at + len)) (get_slice spk at (at + len))))"

definition extract_header_payload :: "bytes \<Rightarrow> bytes option" where
  "extract_header_payload data =
    (if length SIGNET_HEADER < length data \<and> take (length SIGNET_HEADER) data = SIGNET_HEADER
     then Some (drop (length SIGNET_HEADER) data) else None)"

lemma get_slice_Some: "get_slice b i j = Some d \<Longrightarrow> i \<le> j \<and> j \<le> length b"
  by (simp add: get_slice_def split: if_splits)

lemma next_script_op_advances: "next_script_op spk pc = Some (op, data, pc') \<Longrightarrow> pc < pc' \<and> pc' \<le> length spk"
  by (auto simp: next_script_op_def Let_def bind_eq_Some_conv split: if_splits dest!: get_slice_Some)

function fetch_loop :: "bytes \<Rightarrow> nat \<Rightarrow> bytes option \<Rightarrow> bytes \<Rightarrow> bytes option \<times> bytes" where
  "fetch_loop spk pc solution replacement =
    (case next_script_op spk pc of
       None \<Rightarrow> (solution, replacement)
     | Some (op, data, pc') \<Rightarrow>
         if data = [] then fetch_loop spk pc' solution (replacement @ [op])
         else (case (if solution = None then extract_header_payload data else None) of
             Some sol \<Rightarrow> fetch_loop spk pc' (Some sol) (encode_push replacement SIGNET_HEADER)
           | None \<Rightarrow> fetch_loop spk pc' solution (encode_push replacement data)))"
  by pat_completeness auto
termination
  by (relation "measure (\<lambda>(spk, pc, _, _). length spk - pc)") (auto dest!: next_script_op_advances)

declare fetch_loop.simps [simp del]

definition fetch_and_clear_signet_section :: "bytes \<Rightarrow> (bytes \<times> bytes) option" where
  "fetch_and_clear_signet_section spk =
    (let (solution, replacement) = fetch_loop spk 0 None [] in map_option (\<lambda>sol. (sol, replacement)) solution)"

definition read_signet_compact :: "bytes \<Rightarrow> (u64 \<times> bytes) consensus" where
  "read_signet_compact rdr =
    (case rdr of
       [] \<Rightarrow> Inl (BadBlock ''signet: compact size'')
     | tag # _ \<Rightarrow>
         if tag \<le> 252 then Inr (ucast tag, drop 1 rdr)
         else if tag = 253 then
           (if length rdr < 3 then Inl (BadBlock ''signet: compact size'')
            else
              let v = of_le (take 2 (drop 1 rdr))
              in if v < 253 then Inl (BadBlock ''signet: non-minimal compact size'') else Inr (word_of_nat v, drop 3 rdr))
         else if tag = 254 then
           (if length rdr < 5 then Inl (BadBlock ''signet: compact size'')
            else
              let v = of_le (take 4 (drop 1 rdr))
              in if v \<le> 0xFFFF then Inl (BadBlock ''signet: non-minimal compact size'') else Inr (word_of_nat v, drop 5 rdr))
         else
           (if length rdr < 9 then Inl (BadBlock ''signet: compact size'')
            else
              let v = of_le (take 8 (drop 1 rdr))
              in if v \<le> 0xFFFFFFFF then Inl (BadBlock ''signet: non-minimal compact size'') else Inr (word_of_nat v, drop 9 rdr)))"

definition read_script :: "bytes \<Rightarrow> (bytes \<times> bytes) consensus" where
  "read_script rdr =
    rbind (read_signet_compact rdr) (\<lambda>(n, rdr).
    if length rdr < unat n then Inl (BadBlock ''signet: scriptSig short'')
    else Inr (take (unat n) rdr, drop (unat n) rdr))"

fun read_witness_items :: "nat \<Rightarrow> bytes \<Rightarrow> (bytes list \<times> bytes) consensus" where
  "read_witness_items 0 rdr = Inr ([], rdr)"
| "read_witness_items (Suc k) rdr =
    rbind (read_signet_compact rdr) (\<lambda>(n, rdr).
    if length rdr < unat n then Inl (BadBlock ''signet: witness short'')
    else
      rbind (read_witness_items k (drop (unat n) rdr)) (\<lambda>(items, rest).
      Inr (take (unat n) rdr # items, rest)))"

definition read_witness_stack :: "bytes \<Rightarrow> (bytes list \<times> bytes) consensus" where
  "read_witness_stack rdr =
    rbind (read_signet_compact rdr) (\<lambda>(k, rdr).
    if length rdr < unat k then Inl (BadBlock ''signet: witness count'')
    else read_witness_items (unat k) rdr)"

definition parse_signet_solution :: "bytes \<Rightarrow> (bytes \<times> bytes list) consensus" where
  "parse_signet_solution solution =
    rbind (read_script solution) (\<lambda>(script_sig, rdr).
    rbind (read_witness_stack rdr) (\<lambda>(witness, rdr).
    if rdr \<noteq> [] then Inl (BadBlock ''signet: extraneous solution data'') else Inr (script_sig, witness)))"

text \<open>
  The merkle loop of the file: an odd level repeats its last leaf, then every pair is hashed.
\<close>

function signet_merkle_loop :: "btc_lib \<Rightarrow> bytes list \<Rightarrow> bytes list" where
  "signet_merkle_loop L leaves =
    (if 1 < length leaves then
       let leaves = (if length leaves mod 2 = 1 then leaves @ [last leaves] else leaves)
       in signet_merkle_loop L (map (\<lambda>(a, b). lib_sha256d L (a @ b)) (pairs leaves))
     else leaves)"
  by pat_completeness auto
termination
  by (relation "measure (\<lambda>(_, leaves). length leaves)") auto

declare signet_merkle_loop.simps [simp del]

definition modified_merkle_root :: "btc_lib \<Rightarrow> transaction \<Rightarrow> block \<Rightarrow> bytes" where
  "modified_merkle_root L modified_cb block =
    signet_merkle_loop L (lib_compute_txid L modified_cb # map (lib_compute_txid L) (drop 1 (b_txdata block))) ! 0"

definition signet_block_data :: "btc_lib \<Rightarrow> header \<Rightarrow> bytes \<Rightarrow> bytes" where
  "signet_block_data L h signet_merkle =
    enc_u32 L (h_version h) @ enc_block_hash L (h_prev_blockhash h) @ enc_merkle_node L signet_merkle @ enc_u32 L (h_time h)"

definition signet_to_spend :: "btc_lib \<Rightarrow> bytes \<Rightarrow> bytes \<Rightarrow> transaction" where
  "signet_to_spend L block_data challenge =
    \<lparr>tx_version = 0, tx_lock_time = 0,
     tx_input = [\<lparr>ti_previous_output = lib_outpoint_null L, ti_script_sig = encode_push [OP_0] block_data,
                  ti_sequence = 0, ti_witness = []\<rparr>],
     tx_output = [\<lparr>to_value = 0, to_script_pubkey = challenge\<rparr>]\<rparr>"

definition signet_to_sign :: "bytes \<Rightarrow> bytes \<Rightarrow> bytes list \<Rightarrow> transaction" where
  "signet_to_sign to_spend_txid script_sig witness =
    \<lparr>tx_version = 0, tx_lock_time = 0,
     tx_input = [\<lparr>ti_previous_output = (to_spend_txid, 0), ti_script_sig = script_sig, ti_sequence = 0, ti_witness = witness\<rparr>],
     tx_output = [\<lparr>to_value = 0, to_script_pubkey = [OP_RETURN]\<rparr>]\<rparr>"

definition witness_commitment_index :: "transaction \<Rightarrow> nat option" where
  "witness_commitment_index coinbase = witness_commitment_vout_index coinbase"

definition set_output_script :: "nat \<Rightarrow> bytes \<Rightarrow> transaction \<Rightarrow> transaction" where
  "set_output_script i spk tx =
    tx\<lparr>tx_output := (tx_output tx)[i := (tx_output tx ! i)\<lparr>to_script_pubkey := spk\<rparr>]\<rparr>"

definition signet_challenge_transactions :: "btc_lib \<Rightarrow> block \<Rightarrow> bytes \<Rightarrow> (transaction \<times> transaction) consensus" where
  "signet_challenge_transactions L block challenge =
    (if b_txdata block = [] then Inl (BadBlock ''signet: no coinbase'')
     else
       let cb = b_txdata block ! 0 in
       rbind (ok_or (witness_commitment_index cb) (BadBlock ''signet: no witness commitment'')) (\<lambda>cidx.
       rbind (case fetch_and_clear_signet_section (to_script_pubkey (tx_output cb ! cidx)) of
                Some (solution, stripped) \<Rightarrow>
                  rbind (parse_signet_solution solution) (\<lambda>(script_sig, witness).
                  Inr (set_output_script cidx stripped cb, script_sig, witness))
              | None \<Rightarrow> Inr (cb, [], [])) (\<lambda>(modified_cb, script_sig, witness).
       let signet_merkle = modified_merkle_root L modified_cb block;
           to_spend = signet_to_spend L (signet_block_data L (b_header block) signet_merkle) challenge;
           to_sign = signet_to_sign (lib_compute_txid L to_spend) script_sig witness
       in Inr (to_spend, to_sign))))"

definition verify_challenge_spend :: "btc_lib \<Rightarrow> transaction \<Rightarrow> transaction \<Rightarrow> bytes \<Rightarrow> unit checked" where
  "verify_challenge_spend L to_spend to_sign challenge =
    (let prevout = \<lparr>to_value = to_value (tx_output to_spend ! 0), to_script_pubkey = challenge\<rparr>
     in tbind (tlift (try_new L [prevout] to_sign (flags_buried False False True True False))) (\<lambda>job.
        let job = job\<lparr>j_flags := (j_flags job)\<lparr>f_null_dummy := True, f_witness_active := True\<rparr>\<rparr>
        in case verify_job_all_inputs L job of
             Inr _ \<Rightarrow> tret ()
           | Inl _ \<Rightarrow> soften (BadBlock ''signet solution invalid'')))"

definition validate_signet_block_solution :: "btc_lib \<Rightarrow> block \<Rightarrow> bytes \<Rightarrow> unit checked" where
  "validate_signet_block_solution L block challenge =
    (if h_prev_blockhash (b_header block) = replicate 32 0 then tret ()
     else case signet_challenge_transactions L block challenge of
       Inl e \<Rightarrow> soften_at None e
     | Inr (to_spend, to_sign) \<Rightarrow> verify_challenge_spend L to_spend to_sign challenge)"

section \<open>Solution parser\<close>

lemma compact_size_len_of_nat:
  "v < 2 ^ 64 \<Longrightarrow> compact_size_len (word_of_nat v) =
    (if v < 253 then 1 else if v \<le> 0xFFFF then 3 else if v \<le> 0xFFFFFFFF then 5 else 9)"
  by (simp add: compact_size_len_def word_less_nat_alt word_le_nat_alt unat_of_nat)

lemma of_le_take_less: "k \<le> length bs \<Longrightarrow> of_le (take k bs) < 256 ^ k"
  using of_le_bound [of "take k bs"] by (simp add: min_absorb2)

text \<open>The signet reader accepts exactly the shortest encodings among those the general reader accepts.\<close>

lemma read_signet_compact_iff:
  "read_signet_compact rdr = Inr (v, rest) \<longleftrightarrow>
    read_compact_size rdr = Inr (v, compact_size_len v) \<and> rest = drop (compact_size_len v) rdr"
proof (cases rdr)
  case Nil
  then show ?thesis by (simp add: read_signet_compact_def read_compact_size_def)
next
  case (Cons b bs)
  have small: "b \<le> 252 \<Longrightarrow> compact_size_len (ucast b) = 1"
    by (simp add: compact_size_len_def word_less_nat_alt word_le_nat_alt unat_ucast_mod)
  have "2 \<le> length bs \<Longrightarrow> of_le (take 2 bs) < 65536" "4 \<le> length bs \<Longrightarrow> of_le (take 4 bs) < 4294967296"
    "8 \<le> length bs \<Longrightarrow> of_le (take 8 bs) < 18446744073709551616"
    using of_le_take_less [of 2 bs] of_le_take_less [of 4 bs] of_le_take_less [of 8 bs] by simp_all
  note bounds = this
  consider "b \<le> 252" | "\<not> b \<le> 252" "b = 253" | "\<not> b \<le> 252" "b \<noteq> 253" "b = 254"
    | "\<not> b \<le> 252" "b \<noteq> 253" "b \<noteq> 254" by blast
  then show ?thesis
  proof cases
    case 1
    then show ?thesis using Cons by (auto simp: read_signet_compact_def read_compact_size_def small)
  next
    case 2
    then show ?thesis using bounds(1) Cons
      by (cases "length bs < 2") (auto simp: read_signet_compact_def read_compact_size_def Let_def compact_size_len_of_nat split: if_splits)
  next
    case 3
    then show ?thesis using bounds(2) Cons
      by (cases "length bs < 4") (auto simp: read_signet_compact_def read_compact_size_def Let_def compact_size_len_of_nat split: if_splits)
  next
    case 4
    then show ?thesis using bounds(3) Cons
      by (cases "length bs < 8") (auto simp: read_signet_compact_def read_compact_size_def Let_def compact_size_len_of_nat split: if_splits)
  qed
qed

lemma read_signet_compact_write [simp]:
  "read_signet_compact (write_compact_size [] n @ rest) = Inr (n, rest)"
  using length_write_compact_size [of "[]" n] by (simp add: read_signet_compact_iff read_write_compact_size)

definition sized :: "bytes \<Rightarrow> bytes" where
  "sized v = write_compact_size [] (word_of_nat (length v)) @ v"

lemma unat_length: "length v < 2 ^ 64 \<Longrightarrow> unat (word_of_nat (length v) :: u64) = length v"
  by (simp add: unat_of_nat)

lemma read_witness_items_sized:
  "\<forall>v \<in> set items. length v < 2 ^ 64 \<Longrightarrow>
    read_witness_items (length items) (concat (map sized items) @ rest) = Inr (items, rest)"
  by (induction items) (simp_all add: sized_def unat_length)

lemma length_sized_pos: "length items \<le> length (concat (map sized items))"
  by (induction items) (auto simp: sized_def length_write_compact_size compact_size_len_def)

section \<open>Properties\<close>

text \<open>
  The solution parser inverts the BIP325 serialisation: a script and a witness stack, each length
  written as a CompactSize, are read back exactly, and a single extra byte makes the parse fail.
\<close>

theorem signet_solution_roundtrip:
  assumes "length script_sig < 2 ^ 64" "length witness < 2 ^ 64" "\<forall>v \<in> set witness. length v < 2 ^ 64"
  defines "solution \<equiv> sized script_sig @ write_compact_size [] (word_of_nat (length witness)) @ concat (map sized witness)"
  shows "parse_signet_solution solution = Inr (script_sig, witness)
    \<and> parse_signet_solution (solution @ b # bs) = Inl (BadBlock ''signet: extraneous solution data'')"
proof -
  have "parse_signet_solution (solution @ tl) =
      (if tl \<noteq> [] then Inl (BadBlock ''signet: extraneous solution data'') else Inr (script_sig, witness))" for tl
    using assms(1-3) length_sized_pos [of witness]
    by (simp add: solution_def parse_signet_solution_def read_script_def read_witness_stack_def
        sized_def [of script_sig] unat_of_nat read_witness_items_sized)
  from this [of "[]"] this [of "b # bs"] show ?thesis by simp
qed

theorem signet_solution_roundtrip_witness:
  "parse_signet_solution [2, 0x51, 0x52, 2, 1, 7, 0] = Inr ([0x51, 0x52], [[7], []])"
  using signet_solution_roundtrip [of "[0x51, 0x52]" "[[7], []]"]
  by (simp add: sized_def write_compact_size_def)

lemma signet_merkle_loop_eq:
  assumes "\<And>v. lib_sha256d L v = lib_sha256 L (lib_sha256 L v)" "leaves \<noteq> []"
  shows "signet_merkle_loop L leaves ! 0 = fst (merkle_root_loop (lib_sha256 L) leaves m)"
  using assms(2)
proof (induction "length leaves" arbitrary: leaves m rule: less_induct)
  case less
  show ?case
  proof (cases "1 < length leaves")
    case True
    have step: "map (\<lambda>(a, b). lib_sha256d L (a @ b)) (pairs (if length leaves mod 2 = 1 then leaves @ [last leaves] else leaves))
        = merkle_parent_level (lib_sha256 L) leaves"
      using less.prems by (simp add: merkle_parent_level_def merkle_pad_def hash256_concat_def assms(1) last_conv_nth)
    have nonempty: "merkle_parent_level (lib_sha256 L) leaves \<noteq> []"
      using True by (simp flip: length_greater_0_conv)
    have shorter: "length (merkle_parent_level (lib_sha256 L) leaves) < length leaves"
      using True by simp
    have "signet_merkle_loop L leaves = signet_merkle_loop L (merkle_parent_level (lib_sha256 L) leaves)"
      using True by (subst signet_merkle_loop.simps) (simp only: step Let_def if_True)
    also have "\<dots> ! 0 = fst (merkle_root_loop (lib_sha256 L) leaves m)"
      by (subst merkle_root_loop.simps) (simp only: True if_True less.hyps [OF shorter nonempty])
    finally show ?thesis .
  next
    case False
    then show ?thesis
      by (subst merkle_root_loop.simps, subst signet_merkle_loop.simps) (simp only: if_False fst_conv)
  qed
qed

text \<open>
  C26. The second merkle implementation agrees with the first: with \<open>sha256d\<close> the double hash, the signet
  root is \<open>merkle_root_from_txids\<close> of the block's txids with the modified coinbase in front.
\<close>

theorem signet_merkle_agrees:
  assumes "\<And>v. lib_sha256d L v = lib_sha256 L (lib_sha256 L v)"
  shows "modified_merkle_root L cb block =
    merkle_root_from_txids (lib_sha256 L) (lib_compute_txid L cb # map (lib_compute_txid L) (drop 1 (b_txdata block)))"
  unfolding modified_merkle_root_def merkle_root_from_txids_def merkle_root_mutated_def
  by (simp add: signet_merkle_loop_eq [OF assms])

theorem signet_merkle_agrees_witness:
  "modified_merkle_root sample_lib sample_coinbase \<lparr>b_header = sample_header, b_txdata = [sample_coinbase, sample_coinbase]\<rparr> =
    merkle_root_from_txids (lib_sha256 sample_lib) [lib_compute_txid sample_lib sample_coinbase, lib_compute_txid sample_lib sample_coinbase]"
  by (subst signet_merkle_agrees) (simp_all add: pad_def)

end
