(* ===== verification/Orphanage.thy ===== *)
theory Orphanage
  imports Chain "HOL-Library.AList"
begin

text \<open>
  The pool of transactions waiting for a parent, \<open>crates/rbitcoin-mempool/src/orphanage.rs\<close>. A
  \<open>HashMap\<close> is an association list with distinct keys and a \<open>HashSet\<close> a distinct list, so
  an iteration visits every element once in some order; a \<open>BTreeSet\<close> of peers is a sorted distinct list.
  The clock \<open>unix_ms\<close> is an argument.
\<close>

section \<open>Definitions\<close>

definition ORPHAN_RESERVED_WEIGHT_PER_PEER :: u64 where
  "ORPHAN_RESERVED_WEIGHT_PER_PEER = 404000"

definition ORPHAN_PEER_BUDGET :: u64 where
  "ORPHAN_PEER_BUDGET = 25"

definition DEFAULT_ORPHAN_MAX_WEIGHT :: u64 where
  "DEFAULT_ORPHAN_MAX_WEIGHT = ORPHAN_RESERVED_WEIGHT_PER_PEER * ORPHAN_PEER_BUDGET"

definition DEFAULT_ORPHAN_MAX_COUNT :: nat where
  "DEFAULT_ORPHAN_MAX_COUNT = 3000"

definition MAX_ORPHAN_TX_WEIGHT :: u64 where
  "MAX_ORPHAN_TX_WEIGHT = 404000"

definition ORPHAN_EXPIRE_MS :: u64 where
  "ORPHAN_EXPIRE_MS = 20 * 60 * 1000"

record orphan_entry =
  oe_tx :: transaction
  oe_wtxid :: bytes
  oe_weight :: u64
  oe_missing :: "bytes list"
  oe_announcers :: "u64 list"
  oe_arrived_ms :: u64

record orphan_snapshot =
  os_tx :: transaction
  os_announcers :: "u64 list"
  os_taken_gen :: u64

record taken_orphan =
  tk_announcers :: "u64 list"
  tk_drop :: bool
  tk_gen :: u64

datatype taken_claim = Keep "u64 list" | Drop

record orphanage =
  o_by_txid :: "(bytes \<times> orphan_entry) list"
  o_by_wtxid :: "(bytes \<times> bytes) list"
  o_by_parent :: "(bytes \<times> bytes list) list"
  o_fifo :: "bytes list"
  o_total_weight :: u64
  o_peer_weight :: "(u64 \<times> u64) list"
  o_max_weight :: u64
  o_max_count :: nat
  o_taken :: "(bytes \<times> taken_orphan) list"
  o_next_taken_gen :: u64

definition orphan_with_limits :: "u64 \<Rightarrow> nat \<Rightarrow> orphanage" where
  "orphan_with_limits max_weight max_count =
    \<lparr>o_by_txid = [], o_by_wtxid = [], o_by_parent = [], o_fifo = [], o_total_weight = 0, o_peer_weight = [],
     o_max_weight = max max_weight MAX_ORPHAN_TX_WEIGHT, o_max_count = max max_count 1,
     o_taken = [], o_next_taken_gen = 0\<rparr>"

definition orphan_new :: orphanage where
  "orphan_new = orphan_with_limits DEFAULT_ORPHAN_MAX_WEIGHT DEFAULT_ORPHAN_MAX_COUNT"

definition orphan_len :: "orphanage \<Rightarrow> nat" where
  "orphan_len s = length (o_by_txid s)"

definition orphan_is_empty :: "orphanage \<Rightarrow> bool" where
  "orphan_is_empty s = (o_by_txid s = [])"

definition orphan_contains :: "orphanage \<Rightarrow> bytes \<Rightarrow> bool" where
  "orphan_contains s txid = (map_of (o_by_txid s) txid \<noteq> None)"

definition orphan_contains_wtxid :: "orphanage \<Rightarrow> bytes \<Rightarrow> bool" where
  "orphan_contains_wtxid s wtxid = (map_of (o_by_wtxid s) wtxid \<noteq> None)"

definition wtxid_of :: "orphanage \<Rightarrow> bytes \<Rightarrow> bytes option" where
  "wtxid_of s txid = map_option oe_wtxid (map_of (o_by_txid s) txid)"

definition tx_by_wtxid :: "orphanage \<Rightarrow> bytes \<Rightarrow> transaction option" where
  "tx_by_wtxid s wtxid =
    Option.bind (map_of (o_by_wtxid s) wtxid) (\<lambda>txid. map_option oe_tx (map_of (o_by_txid s) txid))"

definition missing_of :: "orphanage \<Rightarrow> bytes \<Rightarrow> bytes list option" where
  "missing_of s txid = map_option oe_missing (map_of (o_by_txid s) txid)"

definition orphan_txs :: "orphanage \<Rightarrow> transaction list" where
  "orphan_txs s = map (oe_tx \<circ> snd) (o_by_txid s)"

definition peer_orphan_weight :: "orphanage \<Rightarrow> u64 \<Rightarrow> u64" where
  "peer_orphan_weight s peer = (case map_of (o_peer_weight s) peer of None \<Rightarrow> 0 | Some w \<Rightarrow> w)"

definition add_peer_weight :: "u64 \<Rightarrow> u64 \<Rightarrow> orphanage \<Rightarrow> orphanage" where
  "add_peer_weight peer weight s =
    s\<lparr>o_peer_weight := AList.update peer (sat_add (peer_orphan_weight s peer) weight) (o_peer_weight s)\<rparr>"

definition sub_peer_weight :: "u64 \<Rightarrow> u64 \<Rightarrow> orphanage \<Rightarrow> orphanage" where
  "sub_peer_weight peer weight s =
    (let nxt = sat_sub (peer_orphan_weight s peer) weight
     in if nxt = 0 then s\<lparr>o_peer_weight := AList.delete peer (o_peer_weight s)\<rparr>
        else s\<lparr>o_peer_weight := AList.update peer nxt (o_peer_weight s)\<rparr>)"

definition unaccount :: "orphan_entry \<Rightarrow> orphanage \<Rightarrow> orphanage" where
  "unaccount e s =
    fold (\<lambda>peer s. sub_peer_weight peer (oe_weight e) s) (oe_announcers e)
      (s\<lparr>o_total_weight := sat_sub (o_total_weight s) (oe_weight e)\<rparr>)"

definition announcers_within_reserve :: "orphanage \<Rightarrow> bytes \<Rightarrow> bool" where
  "announcers_within_reserve s txid =
    (case map_of (o_by_txid s) txid of
       None \<Rightarrow> False
     | Some e \<Rightarrow>
         if oe_announcers e = [] then False
         else list_ex (\<lambda>p. peer_orphan_weight s p \<le> ORPHAN_RESERVED_WEIGHT_PER_PEER) (oe_announcers e))"

text \<open>Dropping one child from the set of a parent; an empty set leaves the map.\<close>

definition unlink_parent :: "bytes \<Rightarrow> bytes \<Rightarrow> (bytes \<times> bytes list) list \<Rightarrow> (bytes \<times> bytes list) list" where
  "unlink_parent txid p by_parent =
    (case map_of by_parent p of
       None \<Rightarrow> by_parent
     | Some children \<Rightarrow>
         let children = removeAll txid children
         in if children = [] then AList.delete p by_parent else AList.update p children by_parent)"

definition remove_txid :: "bytes \<Rightarrow> orphanage \<Rightarrow> transaction option \<times> orphanage" where
  "remove_txid txid s =
    (case map_of (o_by_txid s) txid of
       None \<Rightarrow> (None, s)
     | Some e \<Rightarrow>
         let s = s\<lparr>o_by_txid := AList.delete txid (o_by_txid s)\<rparr>;
             s = s\<lparr>o_by_wtxid := AList.delete (oe_wtxid e) (o_by_wtxid s)\<rparr>;
             s = unaccount e s;
             s = s\<lparr>o_by_parent := fold (unlink_parent txid) (oe_missing e) (o_by_parent s)\<rparr>
         in (Some (oe_tx e), s))"

definition take_txid :: "bytes \<Rightarrow> orphanage \<Rightarrow> transaction option \<times> orphanage" where
  "take_txid txid s = remove_txid txid s"

definition remove_all_txids :: "bytes list \<Rightarrow> orphanage \<Rightarrow> orphanage" where
  "remove_all_txids txids s = fold (\<lambda>t s. snd (remove_txid t s)) txids s"

definition expire :: "u64 \<Rightarrow> orphanage \<Rightarrow> orphanage" where
  "expire now_ms s =
    (let stale = map fst (filter (\<lambda>(_, e). ORPHAN_EXPIRE_MS \<le> sat_sub now_ms (oe_arrived_ms e)) (o_by_txid s))
     in remove_all_txids stale s)"

definition retain_fifo :: "orphanage \<Rightarrow> orphanage" where
  "retain_fifo s = s\<lparr>o_fifo := filter (orphan_contains s) (o_fifo s)\<rparr>"

definition set_announcers :: "bytes \<Rightarrow> orphan_entry \<Rightarrow> u64 list \<Rightarrow> orphanage \<Rightarrow> orphanage" where
  "set_announcers txid e announcers s =
    s\<lparr>o_by_txid := AList.update txid (e\<lparr>oe_announcers := announcers\<rparr>) (o_by_txid s)\<rparr>"

definition announced_by :: "orphanage \<Rightarrow> u64 \<Rightarrow> bytes \<Rightarrow> bool" where
  "announced_by s peer txid =
    (case map_of (o_by_txid s) txid of None \<Rightarrow> False | Some e \<Rightarrow> peer \<in> set (oe_announcers e))"

definition evict_one_from_peer :: "u64 \<Rightarrow> orphanage \<Rightarrow> bool \<times> orphanage" where
  "evict_one_from_peer peer s =
    (case find (announced_by s peer) (o_fifo s) of
       None \<Rightarrow> (False, s)
     | Some txid \<Rightarrow>
         (case map_of (o_by_txid s) txid of
            None \<Rightarrow> (False, s)
          | Some e \<Rightarrow>
              if peer \<notin> set (oe_announcers e) then (False, s)
              else
                let rest = removeAll peer (oe_announcers e);
                    s = set_announcers txid e rest s;
                    s = sub_peer_weight peer (oe_weight e) s;
                    s = (if rest = [] then snd (remove_txid txid s) else s)
                in (True, retain_fifo s)))"

fun evict_scan :: "bool \<Rightarrow> orphanage \<Rightarrow> bytes list \<Rightarrow> bytes list \<Rightarrow> bool \<times> orphanage" where
  "evict_scan honor_reserve s skipped [] = (False, s\<lparr>o_fifo := skipped\<rparr>)"
| "evict_scan honor_reserve s skipped (txid # fifo) =
    (if \<not> orphan_contains s txid then evict_scan honor_reserve s skipped fifo
     else if honor_reserve \<and> announcers_within_reserve s txid
     then evict_scan honor_reserve s (skipped @ [txid]) fifo
     else (True, (snd (remove_txid txid s))\<lparr>o_fifo := skipped @ fifo\<rparr>))"

definition evict_oldest_filtered :: "bool \<Rightarrow> orphanage \<Rightarrow> bool \<times> orphanage" where
  "evict_oldest_filtered honor_reserve s = evict_scan honor_reserve s [] (o_fifo s)"

definition evict_oldest :: "orphanage \<Rightarrow> bool \<times> orphanage" where
  "evict_oldest s =
    (let (done, s) = evict_oldest_filtered True s in if done then (True, s) else evict_oldest_filtered False s)"

definition add_announcer :: "bytes \<Rightarrow> u64 \<Rightarrow> orphanage \<Rightarrow> bool \<times> orphanage" where
  "add_announcer txid peer s =
    (case map_of (o_by_txid s) txid of
       None \<Rightarrow> (False, s)
     | Some e \<Rightarrow>
         if peer \<in> set (oe_announcers e) then (False, s)
         else (True, add_peer_weight peer (oe_weight e) (set_announcers txid e (insort peer (oe_announcers e)) s)))"

definition add_announcer_wtxid :: "bytes \<Rightarrow> u64 \<Rightarrow> orphanage \<Rightarrow> bool \<times> orphanage" where
  "add_announcer_wtxid wtxid peer s =
    (case map_of (o_by_wtxid s) wtxid of None \<Rightarrow> (False, s) | Some txid \<Rightarrow> add_announcer txid peer s)"

text \<open>
  The two loops of \<open>insert_from_at\<close> end: the first drops an announcer in every round, the second an
  entry. The flag of the first is false when the early return is taken.
\<close>

definition announcer_count :: "orphanage \<Rightarrow> nat" where
  "announcer_count s = sum_list (map (\<lambda>(_, e). length (oe_announcers e)) (o_by_txid s))"

lemma orphan_fields_sub_peer [simp]:
  "o_by_txid (sub_peer_weight p w s) = o_by_txid s" "o_by_wtxid (sub_peer_weight p w s) = o_by_wtxid s"
  "o_by_parent (sub_peer_weight p w s) = o_by_parent s" "o_fifo (sub_peer_weight p w s) = o_fifo s"
  "o_total_weight (sub_peer_weight p w s) = o_total_weight s" "o_max_weight (sub_peer_weight p w s) = o_max_weight s"
  "o_max_count (sub_peer_weight p w s) = o_max_count s" "o_taken (sub_peer_weight p w s) = o_taken s"
  "o_next_taken_gen (sub_peer_weight p w s) = o_next_taken_gen s"
  by (simp_all add: sub_peer_weight_def Let_def)

lemma fold_sub_peer_field:
  "(\<And>p s. f (sub_peer_weight p w s) = f s) \<Longrightarrow> f (fold (\<lambda>p s. sub_peer_weight p w s) ps s) = f s"
  by (induction ps arbitrary: s) simp_all

lemma orphan_fields_unaccount [simp]:
  "o_by_txid (unaccount e s) = o_by_txid s" "o_by_wtxid (unaccount e s) = o_by_wtxid s"
  "o_by_parent (unaccount e s) = o_by_parent s" "o_fifo (unaccount e s) = o_fifo s"
  "o_total_weight (unaccount e s) = sat_sub (o_total_weight s) (oe_weight e)"
  "o_max_weight (unaccount e s) = o_max_weight s" "o_max_count (unaccount e s) = o_max_count s"
  "o_taken (unaccount e s) = o_taken s" "o_next_taken_gen (unaccount e s) = o_next_taken_gen s"
  by (simp_all add: unaccount_def fold_sub_peer_field)

lemma o_by_txid_remove [simp]: "o_by_txid (snd (remove_txid t s)) = AList.delete t (o_by_txid s)"
  by (auto simp: remove_txid_def Let_def map_of_eq_None_iff delete_idem split: option.split)

lemma length_delete_less: "map_of al k \<noteq> None \<Longrightarrow> length (AList.delete k al) < length al"
  by (induction al) (auto simp: AList.delete_eq le_imp_less_Suc split: if_splits)

lemma sum_list_delete_le: "sum_list (map f (AList.delete k al)) \<le> (sum_list (map f al) :: nat)"
  by (induction al) (auto simp: AList.delete_eq)

lemma sum_list_update_less:
  "map_of al k = Some e \<Longrightarrow> f (k, e') < f (k, e) \<Longrightarrow>
    sum_list (map f (AList.update k e' al)) < (sum_list (map f al) :: nat)"
  by (induction al) (auto split: if_splits)

lemma evict_one_from_peer_less:
  assumes "evict_one_from_peer peer s = (True, s')"
  shows "announcer_count s' < announcer_count s"
proof -
  let ?f = "\<lambda>(_ :: bytes, e). length (oe_announcers e)"
  from assms obtain txid e where e: "map_of (o_by_txid s) txid = Some e" "peer \<in> set (oe_announcers e)"
    and s': "o_by_txid s' = (let al = AList.update txid (e\<lparr>oe_announcers := removeAll peer (oe_announcers e)\<rparr>) (o_by_txid s)
         in if removeAll peer (oe_announcers e) = [] then AList.delete txid al else al)"
    by (auto simp: evict_one_from_peer_def Let_def retain_fifo_def set_announcers_def split: option.splits if_splits)
  define al where "al = AList.update txid (e\<lparr>oe_announcers := removeAll peer (oe_announcers e)\<rparr>) (o_by_txid s)"
  have less: "sum_list (map ?f al) < sum_list (map ?f (o_by_txid s))"
    unfolding al_def using e by (intro sum_list_update_less [OF e(1)]) (simp add: length_removeAll_less)
  have "o_by_txid s' = AList.delete txid al \<or> o_by_txid s' = al"
    unfolding s' al_def Let_def by simp
  then show ?thesis
    unfolding announcer_count_def using less sum_list_delete_le [of ?f txid al] by (elim disjE) (simp_all only:)
qed

lemma evict_scan_less: "evict_scan h s sk fifo = (True, s') \<Longrightarrow> length (o_by_txid s') < length (o_by_txid s)"
  by (induction h s sk fifo rule: evict_scan.induct)
    (auto simp: orphan_contains_def length_delete_less split: if_splits)

lemma o_by_txid_evict_scan: "evict_scan h s sk fifo = (False, s') \<Longrightarrow> o_by_txid s' = o_by_txid s"
  by (induction h s sk fifo rule: evict_scan.induct) (auto split: if_splits)

lemma evict_oldest_less:
  assumes "evict_oldest s = (True, s')"
  shows "length (o_by_txid s') < length (o_by_txid s)"
proof (cases "evict_scan True s [] (o_fifo s)")
  case (Pair found s1)
  show ?thesis
  proof (cases found)
    case True
    with Pair assms show ?thesis
      by (auto simp: evict_oldest_def evict_oldest_filtered_def intro: evict_scan_less)
  next
    case False
    with Pair assms have "evict_scan False s1 [] (o_fifo s1) = (True, s')"
      by (simp add: evict_oldest_def evict_oldest_filtered_def)
    from evict_scan_less [OF this] o_by_txid_evict_scan Pair False show ?thesis by simp
  qed
qed

function peer_evict_loop :: "u64 \<Rightarrow> u64 \<Rightarrow> orphanage \<Rightarrow> bool \<times> orphanage" where
  "peer_evict_loop peer weight s =
    (if ORPHAN_RESERVED_WEIGHT_PER_PEER < sat_add (peer_orphan_weight s peer) weight
     then (case evict_one_from_peer peer s of
             (True, s') \<Rightarrow> peer_evict_loop peer weight s'
           | (False, s') \<Rightarrow> (False, s'))
     else (True, s))"
  by pat_completeness auto
termination
  by (relation "measure (\<lambda>(_, _, s). announcer_count s)") (auto dest!: evict_one_from_peer_less [OF sym])

declare peer_evict_loop.simps [simp del]

function room_loop :: "u64 \<Rightarrow> orphanage \<Rightarrow> orphanage" where
  "room_loop weight s =
    (if o_by_txid s \<noteq> [] \<and> (o_max_count s \<le> length (o_by_txid s) \<or> o_max_weight s < sat_add (o_total_weight s) weight)
     then (case evict_oldest s of
             (True, s') \<Rightarrow> room_loop weight s'
           | (False, s') \<Rightarrow> s')
     else s)"
  by pat_completeness auto
termination
  by (relation "measure (\<lambda>(_, s). length (o_by_txid s))") (auto dest!: evict_oldest_less [OF sym])

declare room_loop.simps [simp del]

definition link_parent :: "bytes \<Rightarrow> bytes \<Rightarrow> (bytes \<times> bytes list) list \<Rightarrow> (bytes \<times> bytes list) list" where
  "link_parent txid p by_parent =
    AList.update p (List.insert txid (case map_of by_parent p of None \<Rightarrow> [] | Some c \<Rightarrow> c)) by_parent"

text \<open>The tail of \<open>insert_from_at\<close> after the checks, from the parent index on.\<close>

definition park :: "chain_lib \<Rightarrow> transaction \<Rightarrow> bytes list \<Rightarrow> u64 option \<Rightarrow> u64 \<Rightarrow> orphanage \<Rightarrow> orphanage" where
  "park K tx missing from now_ms s =
    (let txid = lib_compute_txid (k_btc K) tx; wtxid = k_compute_wtxid K tx; weight = k_weight K tx;
         s = s\<lparr>o_by_parent := fold (link_parent txid) missing (o_by_parent s)\<rparr>;
         s = s\<lparr>o_by_wtxid := AList.update wtxid txid (o_by_wtxid s)\<rparr>;
         s = s\<lparr>o_by_txid := AList.update txid
               \<lparr>oe_tx = tx, oe_wtxid = wtxid, oe_weight = weight, oe_missing = missing,
                oe_announcers = (case from of None \<Rightarrow> [] | Some peer \<Rightarrow> [peer]), oe_arrived_ms = now_ms\<rparr> (o_by_txid s)\<rparr>;
         s = s\<lparr>o_fifo := o_fifo s @ [txid]\<rparr>;
         s = s\<lparr>o_total_weight := sat_add (o_total_weight s) weight\<rparr>
     in case from of None \<Rightarrow> s | Some peer \<Rightarrow> add_peer_weight peer weight s)"

definition make_room_and_park :: "chain_lib \<Rightarrow> transaction \<Rightarrow> bytes list \<Rightarrow> u64 option \<Rightarrow> u64 \<Rightarrow> orphanage \<Rightarrow> bool \<times> orphanage" where
  "make_room_and_park K tx missing from now_ms s =
    (let weight = k_weight K tx
     in if MAX_ORPHAN_TX_WEIGHT < weight then (False, s)
        else
          let (fits, s) = (case from of None \<Rightarrow> (True, s) | Some peer \<Rightarrow> peer_evict_loop peer weight s)
          in if \<not> fits then (False, s)
             else
               let s = room_loop weight s
               in if o_max_count s \<le> length (o_by_txid s) then (False, s)
                  else if sat_sub (o_max_weight s) (o_total_weight s) < weight then (False, s)
                  else (True, park K tx missing from now_ms s))"

definition insert_from_at :: "chain_lib \<Rightarrow> transaction \<Rightarrow> bytes list \<Rightarrow> u64 option \<Rightarrow> u64 \<Rightarrow> orphanage \<Rightarrow> bool \<times> orphanage" where
  "insert_from_at K tx missing from now_ms s =
    (if missing = [] then (False, s)
     else
       let s = expire now_ms s; txid = lib_compute_txid (k_btc K) tx
       in case map_of (o_by_txid s) txid of
            Some e \<Rightarrow>
              if oe_wtxid e = k_compute_wtxid K tx
              then (False, case from of None \<Rightarrow> s | Some peer \<Rightarrow> snd (add_announcer txid peer s))
              else make_room_and_park K tx missing from now_ms (snd (remove_txid txid s))
          | None \<Rightarrow> make_room_and_park K tx missing from now_ms s)"

definition insert_from :: "chain_lib \<Rightarrow> u64 \<Rightarrow> transaction \<Rightarrow> bytes list \<Rightarrow> u64 option \<Rightarrow> orphanage \<Rightarrow> bool \<times> orphanage" where
  "insert_from K unix_ms tx missing from s = insert_from_at K tx missing from unix_ms s"

definition alloc_taken_gen :: "orphanage \<Rightarrow> u64 \<times> orphanage" where
  "alloc_taken_gen s =
    (let gen = o_next_taken_gen s + 1; gen = (if gen = 0 then 1 else gen) in (gen, s\<lparr>o_next_taken_gen := gen\<rparr>))"

definition record_taken :: "bytes \<Rightarrow> u64 list \<Rightarrow> orphanage \<Rightarrow> u64 \<times> orphanage" where
  "record_taken txid announcers s =
    (let (gen, s) = alloc_taken_gen s
     in (gen, s\<lparr>o_taken := AList.update txid \<lparr>tk_announcers = announcers, tk_drop = False, tk_gen = gen\<rparr> (o_taken s)\<rparr>))"

text \<open>One round of the loop of \<open>take_children_of\<close>.\<close>

definition take_child :: "bytes \<Rightarrow> bytes \<Rightarrow> orphan_snapshot list \<times> orphanage \<Rightarrow> orphan_snapshot list \<times> orphanage" where
  "take_child parent cid acc =
    (let (out, s) = acc
     in case map_of (o_by_txid s) cid of
          None \<Rightarrow> (out, s)
        | Some e \<Rightarrow>
            let s = s\<lparr>o_by_txid := AList.delete cid (o_by_txid s)\<rparr>;
                s = s\<lparr>o_by_wtxid := AList.delete (oe_wtxid e) (o_by_wtxid s)\<rparr>;
                s = unaccount e s;
                s = s\<lparr>o_by_parent := fold (\<lambda>p m. if p = parent then m else unlink_parent cid p m) (oe_missing e) (o_by_parent s)\<rparr>;
                (gen, s) = record_taken cid (oe_announcers e) s
            in (out @ [\<lparr>os_tx = oe_tx e, os_announcers = oe_announcers e, os_taken_gen = gen\<rparr>], s))"

definition take_children_of :: "bytes \<Rightarrow> orphanage \<Rightarrow> orphan_snapshot list \<times> orphanage" where
  "take_children_of parent s =
    (case map_of (o_by_parent s) parent of
       None \<Rightarrow> ([], s)
     | Some children \<Rightarrow>
         fold (take_child parent) children ([], s\<lparr>o_by_parent := AList.delete parent (o_by_parent s)\<rparr>))"

definition note_taken :: "bytes \<Rightarrow> u64 list \<Rightarrow> orphanage \<Rightarrow> u64 \<times> orphanage" where
  "note_taken txid announcers s = record_taken txid (sort (remdups announcers)) s"

definition claim_taken :: "bytes \<Rightarrow> orphanage \<Rightarrow> taken_claim option \<times> orphanage" where
  "claim_taken txid s =
    (case map_of (o_taken s) txid of
       None \<Rightarrow> (None, s)
     | Some t \<Rightarrow>
         (Some (if tk_drop t then Drop else Keep (tk_announcers t)), s\<lparr>o_taken := AList.delete txid (o_taken s)\<rparr>))"

definition forget_taken_gen :: "bytes \<Rightarrow> u64 \<Rightarrow> orphanage \<Rightarrow> orphanage" where
  "forget_taken_gen txid gen s =
    (if gen = 0 then s
     else case map_of (o_taken s) txid of
       None \<Rightarrow> s
     | Some t \<Rightarrow> if tk_gen t = gen then s\<lparr>o_taken := AList.delete txid (o_taken s)\<rparr> else s)"

definition announcers_of :: "orphanage \<Rightarrow> bytes \<Rightarrow> u64 list" where
  "announcers_of s txid = (case map_of (o_by_txid s) txid of None \<Rightarrow> [] | Some e \<Rightarrow> oe_announcers e)"

definition has_announcer :: "orphanage \<Rightarrow> u64 \<Rightarrow> bool" where
  "has_announcer s peer =
    (list_ex (\<lambda>(_, e). peer \<in> set (oe_announcers e)) (o_by_txid s)
     \<or> list_ex (\<lambda>(_, t). peer \<in> set (tk_announcers t)) (o_taken s))"

definition erase_hit :: "u64 \<Rightarrow> bytes \<times> u64 \<times> bool \<Rightarrow> bytes list \<times> orphanage \<Rightarrow> bytes list \<times> orphanage" where
  "erase_hit peer hit acc =
    (let (txid, weight, last) = hit; (dropped, s) = acc;
         s = (case map_of (o_by_txid s) txid of
                None \<Rightarrow> s
              | Some e \<Rightarrow> set_announcers txid e (removeAll peer (oe_announcers e)) s);
         s = sub_peer_weight peer weight s
     in (if last then dropped @ [txid] else dropped, s))"

definition erase_taken :: "u64 \<Rightarrow> taken_orphan \<Rightarrow> taken_orphan" where
  "erase_taken peer t =
    (let rest = removeAll peer (tk_announcers t)
     in t\<lparr>tk_announcers := rest, tk_drop := (if peer \<in> set (tk_announcers t) \<and> rest = [] then True else tk_drop t)\<rparr>)"

definition erase_for_peer :: "u64 \<Rightarrow> orphanage \<Rightarrow> orphanage" where
  "erase_for_peer peer s =
    (let hit = map (\<lambda>(txid, e). (txid, oe_weight e, length (oe_announcers e) = 1))
                 (filter (\<lambda>(_, e). peer \<in> set (oe_announcers e)) (o_by_txid s));
         (dropped, s) = fold (erase_hit peer) hit ([], s);
         s = remove_all_txids dropped s;
         s = retain_fifo s
     in s\<lparr>o_taken := map (\<lambda>(txid, t). (txid, erase_taken peer t)) (o_taken s)\<rparr>)"

fun snapshot_loop :: "orphanage \<Rightarrow> bytes list \<Rightarrow> bytes list \<Rightarrow> orphan_snapshot list" where
  "snapshot_loop s seen [] = []"
| "snapshot_loop s seen (txid # fifo) =
    (if txid \<in> set seen then snapshot_loop s seen fifo
     else
       (case map_of (o_by_txid s) txid of
          None \<Rightarrow> []
        | Some e \<Rightarrow> [\<lparr>os_tx = oe_tx e, os_announcers = oe_announcers e, os_taken_gen = 0\<rparr>])
       @ snapshot_loop s (txid # seen) fifo)"

definition snapshot :: "orphanage \<Rightarrow> orphan_snapshot list" where
  "snapshot s = snapshot_loop s [] (o_fifo s)"

definition erase_for_block :: "bytes list \<Rightarrow> orphanage \<Rightarrow> orphanage" where
  "erase_for_block block_txids s =
    retain_fifo (remove_all_txids (filter (\<lambda>t. t \<in> set block_txids) (map fst (o_by_txid s))) s)"

end
