(* ===== verification/OrphanProps.thy ===== *)
theory OrphanProps
  imports Orphanage
begin

text \<open>
  Properties of the orphanage: the invariant tying its three indexes, the weights and the queue
  together, that every operation keeps it, that eviction always makes room, what promotion and a
  disconnect do, and that the queue has no bound.
\<close>

section \<open>Sums over a map\<close>

definition asum :: "('v \<Rightarrow> nat) \<Rightarrow> ('k \<times> 'v) list \<Rightarrow> nat" where
  "asum f al = sum_list (map (f \<circ> snd) al)"

lemma asum_Nil [simp]: "asum f [] = 0"
  by (simp add: asum_def)

lemma asum_delete:
  "distinct (map fst al) \<Longrightarrow> map_of al k = Some e \<Longrightarrow> asum f al = f e + asum f (AList.delete k al)"
proof (induction al)
  case (Cons a al)
  then show ?case
    by (cases a) (auto simp: asum_def delete_idem)
qed simp

lemma asum_update_old:
  "map_of al k = Some e \<Longrightarrow> asum f (AList.update k e' al) + f e = asum f al + f e'"
  by (induction al) (auto simp: asum_def)

lemma asum_update_new: "map_of al k = None \<Longrightarrow> asum f (AList.update k e al) = asum f al + f e"
  by (induction al) (auto simp: asum_def split: if_splits)

lemma asum_member: "map_of al k = Some e \<Longrightarrow> f e \<le> asum f al"
  by (induction al) (auto simp: asum_def split: if_splits)

lemma asum_mono: "(\<And>e. f e \<le> g e) \<Longrightarrow> asum f al \<le> asum g al"
  by (simp add: asum_def sum_list_mono)

lemma asum_zero: "(\<And>k e. (k, e) \<in> set al \<Longrightarrow> f e = 0) \<Longrightarrow> asum f al = 0"
  by (force simp: asum_def)

section \<open>The parent index\<close>

definition kids :: "(bytes \<times> bytes list) list \<Rightarrow> bytes \<Rightarrow> bytes set" where
  "kids m p = (case map_of m p of None \<Rightarrow> {} | Some c \<Rightarrow> set c)"

definition no_empty :: "(bytes \<times> bytes list) list \<Rightarrow> bool" where
  "no_empty m \<longleftrightarrow> (\<forall>p. map_of m p \<noteq> Some [])"

lemma kids_delete: "kids (AList.delete p m) q = (if q = p then {} else kids m q)"
  by (simp add: kids_def delete_conv')

lemma no_empty_delete: "no_empty m \<Longrightarrow> no_empty (AList.delete p m)"
  by (simp add: no_empty_def delete_conv')

lemma kids_unlink: "kids (unlink_parent t p m) q = (if q = p then kids m q - {t} else kids m q)"
proof (cases "map_of m p")
  case None
  then show ?thesis by (simp add: kids_def unlink_parent_def)
next
  case (Some c)
  have "set c - {t} = set (removeAll t c)" by simp
  with Some show ?thesis
    by (auto simp add: kids_def unlink_parent_def Let_def delete_conv' update_conv' simp del: set_removeAll
        dest!: arg_cong [of "removeAll t c" "[]" set])
qed

lemma no_empty_unlink: "no_empty m \<Longrightarrow> no_empty (unlink_parent t p m)"
  by (simp add: no_empty_def unlink_parent_def Let_def delete_conv' update_conv' split: option.split)

lemma kids_fold_unlink: "kids (fold (unlink_parent t) ps m) q = (if q \<in> set ps then kids m q - {t} else kids m q)"
  by (induction ps arbitrary: m) (auto simp: kids_unlink)

lemma no_empty_fold_unlink: "no_empty m \<Longrightarrow> no_empty (fold (unlink_parent t) ps m)"
  by (induction ps arbitrary: m) (auto simp: no_empty_unlink)

lemma kids_link: "kids (link_parent t p m) q = (if q = p then insert t (kids m q) else kids m q)"
  by (simp add: kids_def link_parent_def update_conv' split: option.split)

lemma no_empty_link: "no_empty m \<Longrightarrow> no_empty (link_parent t p m)"
  by (auto simp: no_empty_def link_parent_def update_conv' List.insert_def split: option.split)

lemma kids_fold_link: "kids (fold (link_parent t) ps m) q = (if q \<in> set ps then insert t (kids m q) else kids m q)"
  by (induction ps arbitrary: m) (auto simp: kids_link)

lemma no_empty_fold_link: "no_empty m \<Longrightarrow> no_empty (fold (link_parent t) ps m)"
  by (induction ps arbitrary: m) (auto simp: no_empty_link)

section \<open>Peer weights\<close>

lemma peer_weight_sub:
  "unat (peer_orphan_weight (sub_peer_weight p w s) q) =
    (if q = p then unat (peer_orphan_weight s q) - unat w else unat (peer_orphan_weight s q))"
proof -
  have "unat (sat_sub (peer_orphan_weight s p) w) = unat (peer_orphan_weight s p) - unat w"
    by (rule unat_sat_sub)
  then show ?thesis
    by (auto simp: sub_peer_weight_def Let_def peer_orphan_weight_def [of "_\<lparr>o_peer_weight := _\<rparr>"]
        delete_conv' update_conv' peer_orphan_weight_def [of s q])
qed

lemma peer_weight_fold_sub:
  "distinct ps \<Longrightarrow> unat (peer_orphan_weight (fold (\<lambda>p s. sub_peer_weight p w s) ps s) q) =
    (if q \<in> set ps then unat (peer_orphan_weight s q) - unat w else unat (peer_orphan_weight s q))"
  by (induction ps arbitrary: s) (auto simp: peer_weight_sub)

lemma peer_weight_add:
  "unat (peer_orphan_weight s p) + unat w < 2 ^ 64 \<Longrightarrow>
    unat (peer_orphan_weight (add_peer_weight p w s) q) =
      (if q = p then unat (peer_orphan_weight s q) + unat w else unat (peer_orphan_weight s q))"
  by (auto simp: add_peer_weight_def peer_orphan_weight_def [of "_\<lparr>o_peer_weight := _\<rparr>"] update_conv'
      unat_sat_add peer_orphan_weight_def [of s q])

section \<open>The invariant\<close>

text \<open>The hash of a whole transaction determines the hash of its stripped form.\<close>

definition wtxid_determines_txid :: "chain_lib \<Rightarrow> bool" where
  "wtxid_determines_txid K \<longleftrightarrow>
    (\<forall>a b. k_compute_wtxid K a = k_compute_wtxid K b \<longrightarrow> lib_compute_txid (k_btc K) a = lib_compute_txid (k_btc K) b)"

definition entry_ok :: "chain_lib \<Rightarrow> bytes \<Rightarrow> orphan_entry \<Rightarrow> bool" where
  "entry_ok K t e \<longleftrightarrow>
    t = lib_compute_txid (k_btc K) (oe_tx e) \<and> oe_wtxid e = k_compute_wtxid K (oe_tx e)
    \<and> oe_weight e = k_weight K (oe_tx e) \<and> oe_weight e \<le> MAX_ORPHAN_TX_WEIGHT
    \<and> oe_missing e \<noteq> [] \<and> distinct (oe_announcers e)"

definition announced_weight :: "u64 \<Rightarrow> orphan_entry \<Rightarrow> nat" where
  "announced_weight p e = (if p \<in> set (oe_announcers e) then unat (oe_weight e) else 0)"

definition waiting :: "orphanage \<Rightarrow> bytes \<Rightarrow> bytes set" where
  "waiting s p = {t. \<exists>e. map_of (o_by_txid s) t = Some e \<and> p \<in> set (oe_missing e)}"

text \<open>
  Indexes: every entry is filed under its own hashes, the index by witness hash is the inverse of the
  entries, and the index by parent is exact outside the parents in \<open>X\<close>.
\<close>

definition index_ok :: "bytes set \<Rightarrow> chain_lib \<Rightarrow> orphanage \<Rightarrow> bool" where
  "index_ok X K s \<longleftrightarrow>
    distinct (map fst (o_by_txid s))
    \<and> (\<forall>t e. map_of (o_by_txid s) t = Some e \<longrightarrow> entry_ok K t e)
    \<and> (\<forall>w t. map_of (o_by_wtxid s) w = Some t \<longleftrightarrow> (\<exists>e. map_of (o_by_txid s) t = Some e \<and> oe_wtxid e = w))
    \<and> no_empty (o_by_parent s) \<and> (\<forall>p. p \<notin> X \<longrightarrow> kids (o_by_parent s) p = waiting s p)"

text \<open>Weights: the counters are the exact sums and both limits hold.\<close>

definition weight_ok :: "orphanage \<Rightarrow> bool" where
  "weight_ok s \<longleftrightarrow>
    unat (o_total_weight s) = asum (unat \<circ> oe_weight) (o_by_txid s)
    \<and> (\<forall>p. unat (peer_orphan_weight s p) = asum (announced_weight p) (o_by_txid s))
    \<and> o_total_weight s \<le> o_max_weight s \<and> MAX_ORPHAN_TX_WEIGHT \<le> o_max_weight s
    \<and> length (o_by_txid s) \<le> o_max_count s \<and> 0 < o_max_count s"

definition fifo_ok :: "orphanage \<Rightarrow> bool" where
  "fifo_ok s \<longleftrightarrow> (\<forall>t. orphan_contains s t \<longrightarrow> t \<in> set (o_fifo s))"

definition orphan_inv :: "chain_lib \<Rightarrow> orphanage \<Rightarrow> bool" where
  "orphan_inv K s \<longleftrightarrow> index_ok {} K s \<and> weight_ok s \<and> fifo_ok s"

lemma index_ok_fields:
  "o_by_txid s' = o_by_txid s \<Longrightarrow> o_by_wtxid s' = o_by_wtxid s \<Longrightarrow> o_by_parent s' = o_by_parent s \<Longrightarrow>
    index_ok X K s' = index_ok X K s"
  by (simp add: index_ok_def waiting_def)

lemma weight_ok_fields:
  "o_by_txid s' = o_by_txid s \<Longrightarrow> o_total_weight s' = o_total_weight s \<Longrightarrow> o_peer_weight s' = o_peer_weight s \<Longrightarrow>
    o_max_weight s' = o_max_weight s \<Longrightarrow> o_max_count s' = o_max_count s \<Longrightarrow> weight_ok s' = weight_ok s"
  by (simp add: weight_ok_def peer_orphan_weight_def)

lemma weight_ok_new: "weight_ok (orphan_with_limits mw mc)"
  by (simp add: weight_ok_def orphan_with_limits_def peer_orphan_weight_def)

lemma orphan_inv_new: "orphan_inv K (orphan_with_limits mw mc)"
  using weight_ok_new
  by (simp add: orphan_inv_def index_ok_def fifo_ok_def orphan_with_limits_def orphan_contains_def no_empty_def
      kids_def waiting_def)

lemma peer_weight_le_total:
  "weight_ok s \<Longrightarrow> unat (peer_orphan_weight s p) \<le> unat (o_total_weight s)"
  by (simp add: weight_ok_def asum_mono announced_weight_def)

section \<open>Removing an entry\<close>

lemma index_ok_remove:
  assumes ok: "index_ok X K s" and K: "wtxid_determines_txid K" and e: "map_of (o_by_txid s) t = Some e"
    and s': "o_by_txid s' = AList.delete t (o_by_txid s)" "o_by_wtxid s' = AList.delete (oe_wtxid e) (o_by_wtxid s)"
    and parent: "no_empty (o_by_parent s')"
      "\<And>p. p \<notin> X \<Longrightarrow> kids (o_by_parent s') p = (if p \<in> set (oe_missing e) then kids (o_by_parent s) p - {t} else kids (o_by_parent s) p)"
  shows "index_ok X K s'"
proof -
  have entries: "entry_ok K t' e'" if "map_of (o_by_txid s) t' = Some e'" for t' e'
    using ok that unfolding index_ok_def by blast
  have same: "t' = t" if "map_of (o_by_txid s) t' = Some e'" "oe_wtxid e' = oe_wtxid e" for t' e'
    using entries [OF that(1)] entries [OF e] that(2)
      K [unfolded wtxid_determines_txid_def, THEN spec, THEN spec, of "oe_tx e'" "oe_tx e"]
    unfolding entry_ok_def by simp
  have inverse: "map_of (o_by_wtxid s) w = Some t' \<longleftrightarrow> (\<exists>e. map_of (o_by_txid s) t' = Some e \<and> oe_wtxid e = w)" for w t'
    using ok unfolding index_ok_def by blast
  have 1: "map_of (o_by_wtxid s') w = Some t' \<longleftrightarrow> (\<exists>e. map_of (o_by_txid s') t' = Some e \<and> oe_wtxid e = w)" for w t'
  proof (cases "t' = t \<or> w = oe_wtxid e")
    case True
    have "map_of (o_by_wtxid s) w = Some t' \<Longrightarrow> w = oe_wtxid e" if "t' = t"
      using inverse [of w t'] e that by simp
    moreover have "\<not> (\<exists>e. map_of (o_by_txid s') t' = Some e \<and> oe_wtxid e = w)"
      using True same [of t'] by (auto simp: s' delete_conv')
    ultimately show ?thesis using True by (auto simp: s' delete_conv')
  next
    case False
    then show ?thesis using inverse [of w t'] by (simp add: s' delete_conv')
  qed
  have 2: "waiting s' p = waiting s p - {t}" for p
    by (auto simp: waiting_def s' delete_conv')
  have 3: "t \<notin> waiting s p" if "p \<notin> set (oe_missing e)" for p
    using that e by (simp add: waiting_def)
  have 4: "kids (o_by_parent s') p = waiting s' p" if "p \<notin> X" for p
    using parent(2) [OF that] 3 [of p] ok that by (simp add: 2 index_ok_def)
  have 5: "entry_ok K t' e'" if "map_of (o_by_txid s') t' = Some e'" for t' e'
    using entries that by (simp add: s' delete_conv' split: if_splits)
  have 6: "distinct (map fst (o_by_txid s'))"
    using ok by (simp add: s' index_ok_def distinct_delete)
  show ?thesis unfolding index_ok_def using 1 4 5 6 parent(1) by blast
qed

lemma weight_ok_remove:
  assumes ok: "weight_ok s" and d: "distinct (map fst (o_by_txid s))" and e: "map_of (o_by_txid s) t = Some e"
    and s': "o_by_txid s' = AList.delete t (o_by_txid s)" "o_max_weight s' = o_max_weight s" "o_max_count s' = o_max_count s"
      "unat (o_total_weight s') = unat (o_total_weight s) - unat (oe_weight e)"
      "\<And>p. unat (peer_orphan_weight s' p) = unat (peer_orphan_weight s p) - announced_weight p e"
  shows "weight_ok s'"
proof -
  have "length (AList.delete t (o_by_txid s)) \<le> length (o_by_txid s)" by (rule length_delete_le)
  then show ?thesis
    using ok asum_delete [OF d e] by (auto simp: weight_ok_def s' word_le_nat_alt)
qed

lemma peer_weight_unaccount:
  assumes "distinct (oe_announcers e)"
  shows "unat (peer_orphan_weight (unaccount e s) p) = unat (peer_orphan_weight s p) - announced_weight p e"
  using peer_weight_fold_sub [OF assms, of "oe_weight e" "s\<lparr>o_total_weight := sat_sub (o_total_weight s) (oe_weight e)\<rparr>" p]
  by (simp add: unaccount_def announced_weight_def peer_orphan_weight_def [of "s\<lparr>o_total_weight := _\<rparr>"] peer_orphan_weight_def [of s])

definition core_ok :: "bytes set \<Rightarrow> chain_lib \<Rightarrow> orphanage \<Rightarrow> bool" where
  "core_ok X K s \<longleftrightarrow> index_ok X K s \<and> weight_ok s"

lemma core_ok_entry: "core_ok X K s \<Longrightarrow> map_of (o_by_txid s) t = Some e \<Longrightarrow> entry_ok K t e"
  unfolding core_ok_def index_ok_def by blast

lemma core_ok_distinct: "core_ok X K s \<Longrightarrow> distinct (map fst (o_by_txid s))"
  unfolding core_ok_def index_ok_def by blast

lemma core_ok_fields:
  "o_by_txid s' = o_by_txid s \<Longrightarrow> o_by_wtxid s' = o_by_wtxid s \<Longrightarrow> o_by_parent s' = o_by_parent s \<Longrightarrow>
    o_total_weight s' = o_total_weight s \<Longrightarrow> o_peer_weight s' = o_peer_weight s \<Longrightarrow>
    o_max_weight s' = o_max_weight s \<Longrightarrow> o_max_count s' = o_max_count s \<Longrightarrow> core_ok X K s' = core_ok X K s"
  by (simp add: core_ok_def index_ok_fields [of s' s] weight_ok_fields [of s' s])

lemma core_ok_fifo [simp]: "core_ok X K (s\<lparr>o_fifo := f\<rparr>) = core_ok X K s"
  by (rule core_ok_fields) simp_all

lemma core_ok_retain [simp]: "core_ok X K (retain_fifo s) = core_ok X K s"
  by (simp add: retain_fifo_def)

lemma core_ok_delete:
  assumes ok: "core_ok X K s" and K: "wtxid_determines_txid K" and e: "map_of (o_by_txid s) t = Some e"
    and parent: "no_empty m"
      "\<And>p. p \<notin> X \<Longrightarrow> kids m p = (if p \<in> set (oe_missing e) then kids (o_by_parent s) p - {t} else kids (o_by_parent s) p)"
  shows "core_ok X K ((unaccount e (s\<lparr>o_by_txid := AList.delete t (o_by_txid s),
    o_by_wtxid := AList.delete (oe_wtxid e) (o_by_wtxid s)\<rparr>))\<lparr>o_by_parent := m\<rparr>)"
proof -
  have d: "distinct (oe_announcers e)" using core_ok_entry [OF ok e] by (simp add: entry_ok_def)
  let ?s1 = "s\<lparr>o_by_txid := AList.delete t (o_by_txid s), o_by_wtxid := AList.delete (oe_wtxid e) (o_by_wtxid s)\<rparr>"
  let ?s' = "(unaccount e ?s1)\<lparr>o_by_parent := m\<rparr>"
  have peer: "unat (peer_orphan_weight ?s' p) = unat (peer_orphan_weight s p) - announced_weight p e" for p
    using peer_weight_unaccount [OF d, of ?s1 p] by (simp add: peer_orphan_weight_def)
  have "index_ok X K ?s'"
    by (rule index_ok_remove [OF _ K e]) (use ok parent in \<open>simp_all add: core_ok_def\<close>)
  moreover have "weight_ok ?s'"
    by (rule weight_ok_remove [OF _ core_ok_distinct [OF ok] e])
      (use ok peer in \<open>simp_all add: core_ok_def unat_sat_sub\<close>)
  ultimately show ?thesis by (simp add: core_ok_def)
qed

lemma core_ok_remove_txid:
  assumes "core_ok X K s" "wtxid_determines_txid K"
  shows "core_ok X K (snd (remove_txid t s))"
proof (cases "map_of (o_by_txid s) t")
  case None
  then show ?thesis using assms by (simp add: remove_txid_def)
next
  case (Some e)
  have "no_empty (fold (unlink_parent t) (oe_missing e) (o_by_parent s))"
    using assms(1) by (intro no_empty_fold_unlink) (simp add: core_ok_def index_ok_def)
  from core_ok_delete [OF assms Some this] Some show ?thesis
    by (simp add: remove_txid_def Let_def kids_fold_unlink)
qed

lemma core_ok_remove_all:
  "core_ok X K s \<Longrightarrow> wtxid_determines_txid K \<Longrightarrow> core_ok X K (remove_all_txids ts s)"
  unfolding remove_all_txids_def by (induction ts arbitrary: s) (simp_all add: core_ok_remove_txid)

lemma o_by_txid_remove_all: "o_by_txid (remove_all_txids ts s) = filter (\<lambda>(t, _). t \<notin> set ts) (o_by_txid s)"
  unfolding remove_all_txids_def
  by (induction ts arbitrary: s) (auto simp: AList.delete_eq case_prod_unfold intro!: filter_cong)

lemma orphan_contains_iff: "orphan_contains s t \<longleftrightarrow> t \<in> fst ` set (o_by_txid s)"
  by (metis orphan_contains_def map_of_eq_None_iff)

lemma contains_remove_all: "orphan_contains (remove_all_txids ts s) t \<longleftrightarrow> orphan_contains s t \<and> t \<notin> set ts"
  by (force simp: orphan_contains_iff o_by_txid_remove_all)

lemma contains_remove: "orphan_contains (snd (remove_txid u s)) t \<longleftrightarrow> orphan_contains s t \<and> t \<noteq> u"
  by (simp add: orphan_contains_def delete_conv')

lemma o_fifo_remove [simp]: "o_fifo (snd (remove_txid t s)) = o_fifo s"
  by (simp add: remove_txid_def Let_def split: option.split)

lemma o_taken_remove [simp]: "o_taken (snd (remove_txid t s)) = o_taken s"
  by (simp add: remove_txid_def Let_def split: option.split)

lemma o_max_weight_remove [simp]: "o_max_weight (snd (remove_txid t s)) = o_max_weight s"
  by (simp add: remove_txid_def Let_def split: option.split)

lemma o_taken_remove_all [simp]: "o_taken (remove_all_txids ts s) = o_taken s"
  unfolding remove_all_txids_def by (induction ts arbitrary: s) simp_all

lemma o_max_weight_remove_all [simp]: "o_max_weight (remove_all_txids ts s) = o_max_weight s"
  unfolding remove_all_txids_def by (induction ts arbitrary: s) simp_all

lemma o_fifo_remove_all [simp]: "o_fifo (remove_all_txids ts s) = o_fifo s"
  unfolding remove_all_txids_def by (induction ts arbitrary: s) simp_all

lemma orphan_inv_core: "orphan_inv K s \<longleftrightarrow> core_ok {} K s \<and> fifo_ok s"
  by (simp add: orphan_inv_def core_ok_def)

lemma orphan_inv_remove:
  "orphan_inv K s \<Longrightarrow> wtxid_determines_txid K \<Longrightarrow> orphan_inv K (snd (remove_txid t s))"
  by (simp add: orphan_inv_core core_ok_remove_txid fifo_ok_def contains_remove)

lemma orphan_inv_remove_all:
  "orphan_inv K s \<Longrightarrow> wtxid_determines_txid K \<Longrightarrow> orphan_inv K (remove_all_txids ts s)"
  by (simp add: orphan_inv_core core_ok_remove_all fifo_ok_def contains_remove_all)

lemma contains_retain [simp]: "orphan_contains (retain_fifo s) = orphan_contains s"
  by (simp add: fun_eq_iff orphan_contains_def retain_fifo_def)

lemma orphan_inv_retain: "orphan_inv K s \<Longrightarrow> orphan_inv K (retain_fifo s)"
  by (simp add: orphan_inv_core fifo_ok_def) (simp add: retain_fifo_def)

lemma orphan_inv_expire: "orphan_inv K s \<Longrightarrow> wtxid_determines_txid K \<Longrightarrow> orphan_inv K (expire now s)"
  by (simp add: expire_def orphan_inv_remove_all)

lemma orphan_inv_erase_for_block:
  "orphan_inv K s \<Longrightarrow> wtxid_determines_txid K \<Longrightarrow> orphan_inv K (erase_for_block ts s)"
  by (simp add: erase_for_block_def orphan_inv_retain orphan_inv_remove_all)

section \<open>Announcers\<close>

lemma keys_update_old: "map_of al k = Some e \<Longrightarrow> map fst (AList.update k e' al) = map fst al"
  by (induction al) auto

lemma core_ok_announcers:
  assumes ok: "core_ok X K s" and e: "map_of (o_by_txid s) t = Some e" and d: "distinct new"
    and s': "o_by_txid s' = AList.update t (e\<lparr>oe_announcers := new\<rparr>) (o_by_txid s)" "o_by_wtxid s' = o_by_wtxid s"
      "o_by_parent s' = o_by_parent s" "o_total_weight s' = o_total_weight s" "o_max_weight s' = o_max_weight s"
      "o_max_count s' = o_max_count s"
    and peer: "\<And>p. unat (peer_orphan_weight s' p) + announced_weight p e
      = unat (peer_orphan_weight s p) + announced_weight p (e\<lparr>oe_announcers := new\<rparr>)"
  shows "core_ok X K s'"
proof -
  let ?e = "e\<lparr>oe_announcers := new\<rparr>"
  have lookup: "map_of (o_by_txid s') u = (if u = t then Some ?e else map_of (o_by_txid s) u)" for u
    by (simp add: s' update_conv')
  have keys: "map fst (o_by_txid s') = map fst (o_by_txid s)"
    by (simp add: s' keys_update_old [OF e])
  then have len: "length (o_by_txid s') = length (o_by_txid s)" by (rule map_eq_imp_length_eq)
  have waits: "waiting s' p = waiting s p" for p
    using e by (auto simp: waiting_def lookup)
  have inv: "(\<exists>x. map_of (o_by_txid s') u = Some x \<and> oe_wtxid x = w) \<longleftrightarrow> (\<exists>x. map_of (o_by_txid s) u = Some x \<and> oe_wtxid x = w)" for u w
    using e by (simp add: lookup)
  have entries: "entry_ok K u x" if "map_of (o_by_txid s') u = Some x" for u x
  proof (cases "u = t")
    case True
    with that show ?thesis using core_ok_entry [OF ok e] d by (auto simp: lookup entry_ok_def)
  next
    case False
    with that show ?thesis using core_ok_entry [OF ok, of u x] by (simp add: lookup)
  qed
  have "index_ok X K s'"
    using ok entries unfolding core_ok_def index_ok_def inv waits keys s'(2,3) by blast
  moreover have "asum (unat \<circ> oe_weight) (o_by_txid s') = asum (unat \<circ> oe_weight) (o_by_txid s)"
    using asum_update_old [OF e, of "unat \<circ> oe_weight" ?e] by (simp add: s'(1))
  moreover have "unat (peer_orphan_weight s' p) = asum (announced_weight p) (o_by_txid s')" for p
    using asum_update_old [OF e, of "announced_weight p" ?e] peer [of p] ok
    by (simp add: s'(1) core_ok_def weight_ok_def)
  ultimately show ?thesis
    using ok by (simp add: core_ok_def weight_ok_def len s'(4-6))
qed

lemma announced_weight_set: "announced_weight p (e\<lparr>oe_announcers := new\<rparr>) = (if p \<in> set new then unat (oe_weight e) else 0)"
  by (simp add: announced_weight_def)

lemma peer_weight_set_announcers [simp]: "peer_orphan_weight (set_announcers t e new s) = peer_orphan_weight s"
  by (simp add: fun_eq_iff peer_orphan_weight_def set_announcers_def)

lemma peer_weight_ge:
  "core_ok X K s \<Longrightarrow> map_of (o_by_txid s) t = Some e \<Longrightarrow> announced_weight p e \<le> unat (peer_orphan_weight s p)"
  by (simp add: core_ok_def weight_ok_def asum_member)

lemma core_ok_drop_announcer:
  assumes ok: "core_ok X K s" and e: "map_of (o_by_txid s) t = Some e" and p: "peer \<in> set (oe_announcers e)"
  shows "core_ok X K (sub_peer_weight peer (oe_weight e) (set_announcers t e (removeAll peer (oe_announcers e)) s))"
proof (rule core_ok_announcers [OF ok e])
  show "distinct (removeAll peer (oe_announcers e))"
    using core_ok_entry [OF ok e] by (simp add: entry_ok_def distinct_removeAll)
  show "unat (peer_orphan_weight (sub_peer_weight peer (oe_weight e) (set_announcers t e (removeAll peer (oe_announcers e)) s)) q)
      + announced_weight q e
    = unat (peer_orphan_weight s q) + announced_weight q (e\<lparr>oe_announcers := removeAll peer (oe_announcers e)\<rparr>)" for q
    using peer_weight_ge [OF ok e, of q] p
    by (auto simp: peer_weight_sub announced_weight_set) (auto simp: announced_weight_def)
qed (simp_all add: set_announcers_def)

lemma core_ok_add_announcer:
  assumes ok: "core_ok X K s"
  shows "core_ok X K (snd (add_announcer t peer s))"
proof (cases "\<exists>e. map_of (o_by_txid s) t = Some e \<and> peer \<notin> set (oe_announcers e)")
  case False
  then show ?thesis using ok by (auto simp: add_announcer_def split: option.split)
next
  case True
  then obtain e where e: "map_of (o_by_txid s) t = Some e" and new: "peer \<notin> set (oe_announcers e)" by blast
  let ?e = "e\<lparr>oe_announcers := insort peer (oe_announcers e)\<rparr>" and ?s = "set_announcers t e (insort peer (oe_announcers e)) s"
  have w: "weight_ok s" using ok by (simp add: core_ok_def)
  have "asum (announced_weight peer) (o_by_txid s) + unat (oe_weight e) \<le> asum (unat \<circ> oe_weight) (o_by_txid s)"
    using asum_update_old [OF e, of "announced_weight peer" ?e] asum_update_old [OF e, of "unat \<circ> oe_weight" ?e]
      asum_mono [of "announced_weight peer" "unat \<circ> oe_weight" "AList.update t ?e (o_by_txid s)"] new
    by (simp add: announced_weight_def set_insort_key)
  then have "unat (peer_orphan_weight s peer) + unat (oe_weight e) \<le> unat (o_total_weight s)"
    using w by (simp add: weight_ok_def)
  also have "\<dots> < 2 ^ 64" using unsigned_less [of "o_total_weight s", where ?'a = nat] by simp
  finally have room: "unat (peer_orphan_weight ?s peer) + unat (oe_weight e) < 2 ^ 64" by simp
  have "core_ok X K (add_peer_weight peer (oe_weight e) ?s)"
  proof (rule core_ok_announcers [OF ok e])
    show "distinct (insort peer (oe_announcers e))"
      using core_ok_entry [OF ok e] new by (simp add: entry_ok_def distinct_insort)
    show "unat (peer_orphan_weight (add_peer_weight peer (oe_weight e) ?s) q) + announced_weight q e
        = unat (peer_orphan_weight s q) + announced_weight q ?e" for q
      using new by (auto simp: peer_weight_add [OF room] announced_weight_def set_insort_key)
  qed (simp_all add: set_announcers_def add_peer_weight_def)
  then show ?thesis using e new by (simp add: add_announcer_def)
qed

lemma contains_set_announcers: "map_of (o_by_txid s) t = Some e \<Longrightarrow> orphan_contains (set_announcers t e new s) = orphan_contains s"
  by (auto simp: fun_eq_iff orphan_contains_def set_announcers_def update_conv')

lemma contains_sub_peer [simp]: "orphan_contains (sub_peer_weight p w s) = orphan_contains s"
  by (simp add: fun_eq_iff orphan_contains_def)

lemma contains_add_peer [simp]: "orphan_contains (add_peer_weight p w s) = orphan_contains s"
  by (simp add: fun_eq_iff orphan_contains_def add_peer_weight_def)

lemma contains_add_announcer [simp]: "orphan_contains (snd (add_announcer t peer s)) = orphan_contains s"
  by (auto simp: add_announcer_def contains_set_announcers split: option.split)

lemma o_fifo_add_announcer [simp]: "o_fifo (snd (add_announcer t peer s)) = o_fifo s"
  by (simp add: add_announcer_def add_peer_weight_def set_announcers_def split: option.split)

lemma orphan_inv_add_announcer: "orphan_inv K s \<Longrightarrow> orphan_inv K (snd (add_announcer t peer s))"
  by (simp add: orphan_inv_core core_ok_add_announcer fifo_ok_def)

lemma orphan_inv_add_announcer_wtxid: "orphan_inv K s \<Longrightarrow> orphan_inv K (snd (add_announcer_wtxid w peer s))"
  by (simp add: add_announcer_wtxid_def orphan_inv_add_announcer split: option.split)

section \<open>Eviction\<close>

lemma find_Some_props: "find P xs = Some x \<Longrightarrow> x \<in> set xs \<and> P x"
  by (auto simp: find_Some_iff)

lemma orphan_inv_evict_one:
  assumes ok: "orphan_inv K s" and K: "wtxid_determines_txid K"
  shows "orphan_inv K (snd (evict_one_from_peer peer s))"
proof (cases "find (announced_by s peer) (o_fifo s)")
  case None
  then show ?thesis using ok by (simp add: evict_one_from_peer_def)
next
  case (Some t)
  then obtain e where e: "map_of (o_by_txid s) t = Some e" and p: "peer \<in> set (oe_announcers e)"
    by (auto simp: announced_by_def dest!: find_Some_props split: option.splits)
  define rest where "rest = removeAll peer (oe_announcers e)"
  let ?s = "sub_peer_weight peer (oe_weight e) (set_announcers t e rest s)"
  have inv: "orphan_inv K ?s"
    unfolding rest_def using ok core_ok_drop_announcer [OF _ e p]
    by (simp add: orphan_inv_core fifo_ok_def contains_set_announcers [OF e]) (simp add: set_announcers_def)
  have "snd (evict_one_from_peer peer s) = retain_fifo (if rest = [] then snd (remove_txid t ?s) else ?s)"
    using Some e p by (simp add: evict_one_from_peer_def Let_def rest_def)
  moreover have "orphan_inv K (if rest = [] then snd (remove_txid t ?s) else ?s)"
    using inv K by (split if_split) (intro conjI impI orphan_inv_remove)
  ultimately show ?thesis by (simp only: orphan_inv_retain)
qed

lemma evict_one_contains: "orphan_contains (snd (evict_one_from_peer peer s)) t \<Longrightarrow> orphan_contains s t"
  by (auto simp: evict_one_from_peer_def Let_def contains_remove contains_set_announcers split: option.splits if_splits)

lemma evict_one_fails:
  assumes "orphan_inv K s" "\<not> fst (evict_one_from_peer peer s)"
  shows "peer_orphan_weight s peer = 0"
proof -
  have none: "find (announced_by s peer) (o_fifo s) = None"
    using assms(2) find_Some_props [of "announced_by s peer" "o_fifo s"]
    by (auto simp: evict_one_from_peer_def Let_def announced_by_def split: option.splits if_splits)
  have "announced_weight peer e = 0" if "(t, e) \<in> set (o_by_txid s)" for t e
  proof -
    have "map_of (o_by_txid s) t = Some e"
      using that core_ok_distinct [of "{}" K s] assms(1) by (simp add: orphan_inv_core)
    moreover from this have "t \<in> set (o_fifo s)"
      using assms(1) by (simp add: orphan_inv_core fifo_ok_def orphan_contains_def)
    ultimately show ?thesis using none by (auto simp: find_None_iff announced_by_def announced_weight_def)
  qed
  then have "asum (announced_weight peer) (o_by_txid s) = 0" by (rule asum_zero)
  then have "unat (peer_orphan_weight s peer) = 0"
    using assms(1) unfolding orphan_inv_core core_ok_def weight_ok_def by simp
  then show ?thesis by (simp add: unat_eq_0)
qed

lemma evict_scan_inv:
  assumes "core_ok {} K s" "wtxid_determines_txid K" "\<And>t. orphan_contains s t \<Longrightarrow> t \<in> set sk \<union> set fifo"
  shows "orphan_inv K (snd (evict_scan h s sk fifo))"
  using assms
proof (induction h s sk fifo rule: evict_scan.induct)
  case (1 h s sk)
  then show ?case by (auto simp: orphan_inv_core fifo_ok_def orphan_contains_def)
next
  case (2 h s sk t fifo)
  let ?s = "(snd (remove_txid t s))\<lparr>o_fifo := sk @ fifo\<rparr>"
  have "orphan_contains ?s u \<longleftrightarrow> orphan_contains s u \<and> u \<noteq> t" for u
    using contains_remove [of t s u] by (simp add: orphan_contains_def)
  then have "orphan_inv K ?s"
    using 2(3-5) by (fastforce simp: orphan_inv_core fifo_ok_def core_ok_remove_txid)
  moreover have "orphan_contains s u \<Longrightarrow> u \<in> set sk \<union> set fifo" if "\<not> orphan_contains s t" for u
    using 2(5) [of u] that by (cases "u = t") auto
  ultimately show ?case using 2 by auto
qed

lemma orphan_inv_evict_oldest:
  assumes "orphan_inv K s" "wtxid_determines_txid K"
  shows "orphan_inv K (snd (evict_oldest s))"
proof -
  have scan: "orphan_inv K (snd (evict_oldest_filtered h s))" if "orphan_inv K s" for h s
    unfolding evict_oldest_filtered_def
    by (rule evict_scan_inv) (use that assms(2) in \<open>auto simp: orphan_inv_core fifo_ok_def\<close>)
  show ?thesis
    using scan [of s True] scan [of "snd (evict_oldest_filtered True s)" False] assms(1)
    by (simp add: evict_oldest_def case_prod_unfold Let_def)
qed

lemma evict_scan_contains: "orphan_contains (snd (evict_scan h s sk fifo)) t \<Longrightarrow> orphan_contains s t"
proof (induction h s sk fifo rule: evict_scan.induct)
  case (2 h s sk u fifo)
  have "orphan_contains ((snd (remove_txid u s))\<lparr>o_fifo := sk @ fifo\<rparr>) t \<Longrightarrow> orphan_contains s t"
    using contains_remove [of u s t] by (simp add: orphan_contains_def)
  with 2 show ?case by (auto split: if_splits)
qed (simp add: orphan_contains_def)

lemma evict_oldest_contains: "orphan_contains (snd (evict_oldest s)) t \<Longrightarrow> orphan_contains s t"
  by (auto simp: evict_oldest_def evict_oldest_filtered_def case_prod_unfold Let_def split: if_splits dest!: evict_scan_contains)

lemma evict_scan_fails: "\<not> fst (evict_scan False s sk fifo) \<Longrightarrow> t \<in> set fifo \<Longrightarrow> \<not> orphan_contains s t"
  by (induction False s sk fifo rule: evict_scan.induct) (auto split: if_splits)

lemma evict_oldest_fails:
  assumes ok: "orphan_inv K s" "wtxid_determines_txid K" and no: "\<not> fst (evict_oldest s)"
  shows "o_by_txid s = []"
proof -
  let ?s = "snd (evict_scan True s [] (o_fifo s))"
  have f: "\<not> fst (evict_scan True s [] (o_fifo s))" "\<not> fst (evict_scan False ?s [] (o_fifo ?s))"
    using no by (auto simp: evict_oldest_def evict_oldest_filtered_def case_prod_unfold Let_def split: if_splits)
  have "orphan_inv K ?s"
    by (rule evict_scan_inv) (use ok in \<open>auto simp: orphan_inv_core fifo_ok_def\<close>)
  then have "\<not> orphan_contains ?s t" for t
    using evict_scan_fails [OF f(2)] by (auto simp: orphan_inv_core fifo_ok_def)
  from this [of "fst (hd (o_by_txid ?s))"] have "o_by_txid ?s = []"
    by (cases "o_by_txid ?s") (auto simp: orphan_contains_iff)
  then show ?thesis
    using o_by_txid_evict_scan [of True s "[]" "o_fifo s" ?s] f(1) by (simp add: prod_eq_iff)
qed

section \<open>Parking\<close>

lemma peer_evict_loop_ok:
  assumes "orphan_inv K s" "wtxid_determines_txid K" "weight \<le> MAX_ORPHAN_TX_WEIGHT"
  shows "fst (peer_evict_loop peer weight s)
    \<and> orphan_inv K (snd (peer_evict_loop peer weight s))
    \<and> sat_add (peer_orphan_weight (snd (peer_evict_loop peer weight s)) peer) weight \<le> ORPHAN_RESERVED_WEIGHT_PER_PEER
    \<and> (\<forall>t. orphan_contains (snd (peer_evict_loop peer weight s)) t \<longrightarrow> orphan_contains s t)"
  using assms
proof (induction peer weight s rule: peer_evict_loop.induct)
  case (1 peer weight s)
  obtain ok s' where ev: "evict_one_from_peer peer s = (ok, s')" by fastforce
  have inv: "orphan_inv K s'" using orphan_inv_evict_one [OF 1(2,3), of peer] ev by simp
  have sub: "orphan_contains s' t \<Longrightarrow> orphan_contains s t" for t using evict_one_contains [of peer s t] ev by simp
  show ?case
  proof (cases "ORPHAN_RESERVED_WEIGHT_PER_PEER < sat_add (peer_orphan_weight s peer) weight")
    case False
    have "peer_evict_loop peer weight s = (True, s)"
      by (subst peer_evict_loop.simps) (simp only: False if_False)
    with False 1(2) show ?thesis by (simp add: not_less)
  next
    case True
    have ok
    proof (rule ccontr)
      assume "\<not> ok"
      then have "peer_orphan_weight s peer = 0" using evict_one_fails [OF 1(2), of peer] ev by simp
      then show False
        using True 1(4) unsigned_less [of weight, where ?'a = nat]
        by (simp add: sat_add_def ORPHAN_RESERVED_WEIGHT_PER_PEER_def MAX_ORPHAN_TX_WEIGHT_def split: if_splits)
    qed
    then show ?thesis
      using 1(1) [OF True ev [symmetric] _ inv 1(3,4)] True ev sub
      by (simp add: peer_evict_loop.simps [of peer weight s])
  qed
qed

lemma room_loop_ok:
  assumes "orphan_inv K s" "wtxid_determines_txid K"
  shows "orphan_inv K (room_loop weight s)
    \<and> (o_by_txid (room_loop weight s) = [] \<or> length (o_by_txid (room_loop weight s)) < o_max_count (room_loop weight s)
        \<and> sat_add (o_total_weight (room_loop weight s)) weight \<le> o_max_weight (room_loop weight s))
    \<and> (\<forall>t. orphan_contains (room_loop weight s) t \<longrightarrow> orphan_contains s t)"
  using assms
proof (induction weight s rule: room_loop.induct)
  case (1 weight s)
  obtain ok s' where ev: "evict_oldest s = (ok, s')" by fastforce
  have inv: "orphan_inv K s'" using orphan_inv_evict_oldest [OF 1(2,3)] ev by simp
  have sub: "orphan_contains s' t \<Longrightarrow> orphan_contains s t" for t using evict_oldest_contains [of s t] ev by simp
  show ?case
  proof (cases "o_by_txid s \<noteq> [] \<and> (o_max_count s \<le> length (o_by_txid s) \<or> o_max_weight s < sat_add (o_total_weight s) weight)")
    case False
    then show ?thesis using 1(2) by (auto simp add: room_loop.simps [of weight s] not_less not_le)
  next
    case True
    have ok using evict_oldest_fails [OF 1(2,3)] ev True by auto
    then show ?thesis
      using 1(1) [OF True ev [symmetric] _ inv 1(3)] True ev sub by (simp add: room_loop.simps [of weight s])
  qed
qed

lemma length_update_new: "map_of al k = None \<Longrightarrow> length (AList.update k e al) = Suc (length al)"
  by (induction al) (auto split: if_splits)

lemma index_ok_park:
  assumes ok: "index_ok {} K s" and K: "wtxid_determines_txid K"
    and new: "map_of (o_by_txid s) (lib_compute_txid (k_btc K) tx) = None" and e: "entry_ok K (lib_compute_txid (k_btc K) tx) e" "oe_tx e = tx"
    and s': "o_by_txid s' = AList.update (lib_compute_txid (k_btc K) tx) e (o_by_txid s)"
      "o_by_wtxid s' = AList.update (oe_wtxid e) (lib_compute_txid (k_btc K) tx) (o_by_wtxid s)"
      "o_by_parent s' = fold (link_parent (lib_compute_txid (k_btc K) tx)) (oe_missing e) (o_by_parent s)"
  shows "index_ok {} K s'"
proof -
  define t where "t = lib_compute_txid (k_btc K) tx"
  note s' = s' [folded t_def] and new = new [folded t_def]
  have entries: "entry_ok K u x" if "map_of (o_by_txid s) u = Some x" for u x
    using ok that unfolding index_ok_def by blast
  have lookup: "map_of (o_by_txid s') u = (if u = t then Some e else map_of (o_by_txid s) u)" for u
    by (simp add: s' update_conv')
  have inverse: "map_of (o_by_wtxid s) w = Some u \<longleftrightarrow> (\<exists>x. map_of (o_by_txid s) u = Some x \<and> oe_wtxid x = w)" for w u
    using ok unfolding index_ok_def by blast
  have we: "oe_wtxid e = k_compute_wtxid K tx"
    using e(1) unfolding entry_ok_def e(2) by blast
  have fresh: "oe_wtxid x \<noteq> oe_wtxid e" if "map_of (o_by_txid s) u = Some x" for u x
  proof
    assume "oe_wtxid x = oe_wtxid e"
    then have "u = t"
      using entries [OF that] we K [unfolded wtxid_determines_txid_def, THEN spec, THEN spec, of "oe_tx x" tx]
      unfolding entry_ok_def t_def by simp
    with that new show False by simp
  qed
  have 1: "map_of (o_by_wtxid s') w = Some u \<longleftrightarrow> (\<exists>x. map_of (o_by_txid s') u = Some x \<and> oe_wtxid x = w)" for w u
  proof (cases "w = oe_wtxid e")
    case True
    then show ?thesis using fresh [of u] by (auto simp: s'(2) lookup update_conv')
  next
    case False
    then show ?thesis using inverse [of w u] new by (auto simp: s'(2) lookup update_conv')
  qed
  have "waiting s' p = (if p \<in> set (oe_missing e) then insert t (waiting s p) else waiting s p)" for p
    using new by (auto simp: waiting_def lookup)
  then have 2: "kids (o_by_parent s') p = waiting s' p" for p
    using ok by (simp add: s'(3) kids_fold_link index_ok_def)
  have 3: "entry_ok K u x" if "map_of (o_by_txid s') u = Some x" for u x
    using that entries e(1) [folded t_def] by (auto simp: lookup split: if_splits)
  have 4: "distinct (map fst (o_by_txid s'))" "no_empty (o_by_parent s')"
    using ok by (simp_all add: s' index_ok_def distinct_update no_empty_fold_link)
  show ?thesis unfolding index_ok_def using 1 2 3 4 by blast
qed

lemma weight_ok_park:
  assumes ok: "weight_ok s" and new: "map_of (o_by_txid s) t = None"
    and room: "length (o_by_txid s) < o_max_count s" "unat (o_total_weight s) + unat (oe_weight e) \<le> unat (o_max_weight s)"
    and s': "o_by_txid s' = AList.update t e (o_by_txid s)" "o_max_weight s' = o_max_weight s" "o_max_count s' = o_max_count s"
      "o_total_weight s' = sat_add (o_total_weight s) (oe_weight e)"
      "\<And>p. unat (peer_orphan_weight s' p) = unat (peer_orphan_weight s p) + announced_weight p e"
  shows "weight_ok s'"
proof -
  have "unat (o_max_weight s) < 2 ^ 64" using unsigned_less [of "o_max_weight s", where ?'a = nat] by simp
  then have total: "unat (o_total_weight s') = unat (o_total_weight s) + unat (oe_weight e)"
    using room(2) by (simp add: s' unat_sat_add)
  have "length (AList.update t e (o_by_txid s)) = Suc (length (o_by_txid s))"
    using new by (rule length_update_new)
  then show ?thesis
    using ok room asum_update_new [OF new] total by (simp add: weight_ok_def s'(1-3,5) word_le_nat_alt)
qed

definition parked_entry :: "chain_lib \<Rightarrow> transaction \<Rightarrow> bytes list \<Rightarrow> u64 option \<Rightarrow> u64 \<Rightarrow> orphan_entry" where
  "parked_entry K tx missing from now_ms =
    \<lparr>oe_tx = tx, oe_wtxid = k_compute_wtxid K tx, oe_weight = k_weight K tx, oe_missing = missing,
     oe_announcers = (case from of None \<Rightarrow> [] | Some peer \<Rightarrow> [peer]), oe_arrived_ms = now_ms\<rparr>"

lemma park_fields:
  "o_by_txid (park K tx missing from now s) =
    AList.update (lib_compute_txid (k_btc K) tx) (parked_entry K tx missing from now) (o_by_txid s)"
  "o_by_wtxid (park K tx missing from now s) = AList.update (k_compute_wtxid K tx) (lib_compute_txid (k_btc K) tx) (o_by_wtxid s)"
  "o_by_parent (park K tx missing from now s) = fold (link_parent (lib_compute_txid (k_btc K) tx)) missing (o_by_parent s)"
  "o_fifo (park K tx missing from now s) = o_fifo s @ [lib_compute_txid (k_btc K) tx]"
  "o_total_weight (park K tx missing from now s) = sat_add (o_total_weight s) (k_weight K tx)"
  "o_max_weight (park K tx missing from now s) = o_max_weight s" "o_max_count (park K tx missing from now s) = o_max_count s"
  by (simp_all add: park_def Let_def add_peer_weight_def parked_entry_def split: option.split)

lemma peer_weight_park:
  assumes "\<And>p. unat (peer_orphan_weight s p) + unat (k_weight K tx) < 2 ^ 64"
  shows "unat (peer_orphan_weight (park K tx missing from now s) p) =
    unat (peer_orphan_weight s p) + announced_weight p (parked_entry K tx missing from now)"
proof -
  define s' where "s' = park K tx missing None now s"
  have same: "peer_orphan_weight s' q = peer_orphan_weight s q" for q
    by (simp add: s'_def park_def Let_def peer_orphan_weight_def)
  show ?thesis
  proof (cases "from")
    case None
    then show ?thesis using same [of p] by (simp add: s'_def announced_weight_def parked_entry_def)
  next
    case (Some q)
    let ?new = "AList.update (lib_compute_txid (k_btc K) tx) (parked_entry K tx missing (Some q) now) (o_by_txid s)"
    have "park K tx missing (Some q) now s = add_peer_weight q (k_weight K tx) (s'\<lparr>o_by_txid := ?new\<rparr>)"
      by (cases s) (simp add: s'_def park_def Let_def parked_entry_def)
    moreover have "peer_orphan_weight (s'\<lparr>o_by_txid := ?new\<rparr>) r = peer_orphan_weight s r" for r
      using same [of r] by (simp add: peer_orphan_weight_def)
    ultimately show ?thesis
      using assms [of q] peer_weight_add [of "s'\<lparr>o_by_txid := ?new\<rparr>" q "k_weight K tx" p]
      by (simp add: Some announced_weight_def parked_entry_def)
  qed
qed

lemma orphan_inv_park:
  assumes ok: "orphan_inv K s" and K: "wtxid_determines_txid K" and m: "missing \<noteq> []"
    and new: "\<not> orphan_contains s (lib_compute_txid (k_btc K) tx)" and w: "k_weight K tx \<le> MAX_ORPHAN_TX_WEIGHT"
    and room: "length (o_by_txid s) < o_max_count s" "unat (o_total_weight s) + unat (k_weight K tx) \<le> unat (o_max_weight s)"
  shows "orphan_inv K (park K tx missing from now s)"
proof -
  let ?t = "lib_compute_txid (k_btc K) tx" and ?e = "parked_entry K tx missing from now" and ?s = "park K tx missing from now s"
  have core: "index_ok {} K s" "weight_ok s" and fifo: "fifo_ok s" using ok by (simp_all add: orphan_inv_def)
  have new': "map_of (o_by_txid s) ?t = None" using new by (simp add: orphan_contains_def)
  have e: "entry_ok K ?t ?e" "oe_tx ?e = tx"
    using m w by (simp_all add: entry_ok_def parked_entry_def split: option.split)
  have "unat (o_max_weight s) < 2 ^ 64" using unsigned_less [of "o_max_weight s", where ?'a = nat] by simp
  then have "unat (peer_orphan_weight s p) + unat (k_weight K tx) < 2 ^ 64" for p
    using peer_weight_le_total [OF core(2), of p] room(2) by linarith
  note peer = peer_weight_park [OF this]
  have "index_ok {} K ?s"
    by (rule index_ok_park [OF core(1) K new' e]) (simp_all add: park_fields parked_entry_def)
  moreover have "weight_ok ?s"
    by (rule weight_ok_park [OF core(2) new' room(1)])
      (use room(2) peer in \<open>simp_all add: park_fields\<close>, simp_all add: parked_entry_def)
  moreover have "fifo_ok ?s"
    using fifo by (auto simp: fifo_ok_def orphan_contains_def park_fields update_conv')
  ultimately show ?thesis by (simp add: orphan_inv_def)
qed

lemma orphan_inv_make_room:
  assumes ok: "orphan_inv K s" and K: "wtxid_determines_txid K" and m: "missing \<noteq> []"
    and new: "\<not> orphan_contains s (lib_compute_txid (k_btc K) tx)"
  shows "orphan_inv K (snd (make_room_and_park K tx missing from now s))"
proof (cases "MAX_ORPHAN_TX_WEIGHT < k_weight K tx")
  case True
  then show ?thesis using ok by (simp add: make_room_and_park_def)
next
  case False
  then have w: "k_weight K tx \<le> MAX_ORPHAN_TX_WEIGHT" by simp
  define r where "r = (case from of None \<Rightarrow> (True, s) | Some peer \<Rightarrow> peer_evict_loop peer (k_weight K tx) s)"
  define s1 where "s1 = room_loop (k_weight K tx) (snd r)"
  have r: "fst r" "orphan_inv K (snd r)" "\<And>t. orphan_contains (snd r) t \<Longrightarrow> orphan_contains s t"
    using peer_evict_loop_ok [OF ok K w] ok by (auto simp: r_def split: option.splits)
  have s1: "orphan_inv K s1" "\<not> orphan_contains s1 (lib_compute_txid (k_btc K) tx)"
    using room_loop_ok [OF r(2) K, of "k_weight K tx"] r(3) new by (auto simp: s1_def)
  have "make_room_and_park K tx missing from now s =
      (if o_max_count s1 \<le> length (o_by_txid s1) \<or> sat_sub (o_max_weight s1) (o_total_weight s1) < k_weight K tx
       then (False, s1) else (True, park K tx missing from now s1))"
    using False r(1) by (simp add: make_room_and_park_def Let_def case_prod_unfold flip: r_def s1_def)
  moreover have "unat (o_total_weight s1) \<le> unat (o_max_weight s1)"
    using s1(1) by (simp add: orphan_inv_def weight_ok_def word_le_nat_alt)
  ultimately show ?thesis
    using s1 orphan_inv_park [OF s1(1) K m s1(2) w]
    by (auto simp: word_less_nat_alt unat_sat_sub not_le not_less)
qed

lemma orphan_inv_insert:
  assumes ok: "orphan_inv K s" and K: "wtxid_determines_txid K"
  shows "orphan_inv K (snd (insert_from_at K tx missing from now s))"
proof -
  have ex: "orphan_inv K (expire now s)" by (rule orphan_inv_expire [OF ok K])
  have gone: "\<not> orphan_contains (snd (remove_txid t s)) t" for t s by (simp add: contains_remove)
  show ?thesis
    using ok ex orphan_inv_make_room [OF ex K] orphan_inv_make_room [OF orphan_inv_remove [OF ex K] K _ gone]
    by (auto simp: insert_from_at_def Let_def orphan_inv_add_announcer orphan_contains_def split: option.split)
qed

section \<open>Promotion and disconnects\<close>

lemma core_ok_taken [simp]:
  "core_ok X K (s\<lparr>o_next_taken_gen := b\<rparr>) = core_ok X K s" "core_ok X K (s\<lparr>o_taken := a\<rparr>) = core_ok X K s"
  by (rule core_ok_fields; simp)+

lemma orphan_inv_taken [simp]:
  "orphan_inv K (s\<lparr>o_next_taken_gen := b\<rparr>) = orphan_inv K s" "orphan_inv K (s\<lparr>o_taken := a\<rparr>) = orphan_inv K s"
  by (simp_all add: orphan_inv_core fifo_ok_def orphan_contains_def)

definition next_gen :: "orphanage \<Rightarrow> u64" where
  "next_gen s = (if o_next_taken_gen s + 1 = 0 then 1 else o_next_taken_gen s + 1)"

lemma record_taken_eq:
  "record_taken t ps s = (next_gen s, s\<lparr>o_next_taken_gen := next_gen s,
    o_taken := AList.update t \<lparr>tk_announcers = ps, tk_drop = False, tk_gen = next_gen s\<rparr> (o_taken s)\<rparr>)"
  by (simp add: record_taken_def alloc_taken_gen_def next_gen_def Let_def)

lemma take_child_Some:
  assumes "map_of (o_by_txid s) c = Some e"
  shows "take_child parent c (out, s) =
    (out @ [\<lparr>os_tx = oe_tx e, os_announcers = oe_announcers e, os_taken_gen = next_gen s\<rparr>],
     ((unaccount e (s\<lparr>o_by_txid := AList.delete c (o_by_txid s), o_by_wtxid := AList.delete (oe_wtxid e) (o_by_wtxid s)\<rparr>))
        \<lparr>o_by_parent := fold (\<lambda>p m. if p = parent then m else unlink_parent c p m) (oe_missing e) (o_by_parent s)\<rparr>)
        \<lparr>o_next_taken_gen := next_gen s,
         o_taken := AList.update c \<lparr>tk_announcers = oe_announcers e, tk_drop = False, tk_gen = next_gen s\<rparr> (o_taken s)\<rparr>)"
  using assms by (simp add: take_child_def Let_def record_taken_eq next_gen_def)

lemma take_child_None: "map_of (o_by_txid s) c = None \<Longrightarrow> take_child parent c (out, s) = (out, s)"
  by (simp add: take_child_def)

lemma take_child_core:
  assumes ok: "core_ok {parent} K s" and K: "wtxid_determines_txid K"
  shows "core_ok {parent} K (snd (take_child parent c (out, s)))"
    and "o_by_txid (snd (take_child parent c (out, s))) = AList.delete c (o_by_txid s)"
    and "o_fifo (snd (take_child parent c (out, s))) = o_fifo s"
    and "kids (o_by_parent s) parent = {} \<Longrightarrow> kids (o_by_parent (snd (take_child parent c (out, s)))) parent = {}"
proof -
  let ?m = "\<lambda>e. fold (\<lambda>p m. if p = parent then m else unlink_parent c p m) (oe_missing e) (o_by_parent s)"
  have fold: "fold (\<lambda>p m. if p = parent then m else unlink_parent c p m) ps m = fold (unlink_parent c) (filter (\<lambda>p. p \<noteq> parent) ps) m" for ps m
    by (induction ps arbitrary: m) auto
  have kids: "kids (?m e) p = (if p \<in> set (oe_missing e) \<and> p \<noteq> parent then kids (o_by_parent s) p - {c} else kids (o_by_parent s) p)" for e p
    by (simp add: fold kids_fold_unlink)
  have ne: "no_empty (?m e)" for e
    using ok by (simp add: fold no_empty_fold_unlink core_ok_def index_ok_def)
  show "core_ok {parent} K (snd (take_child parent c (out, s)))"
  proof (cases "map_of (o_by_txid s) c")
    case None
    then show ?thesis using ok by (simp add: take_child_None)
  next
    case (Some e)
    have "core_ok {parent} K ((unaccount e (s\<lparr>o_by_txid := AList.delete c (o_by_txid s),
        o_by_wtxid := AList.delete (oe_wtxid e) (o_by_wtxid s)\<rparr>))\<lparr>o_by_parent := ?m e\<rparr>)"
      by (rule core_ok_delete [OF ok K Some ne]) (simp add: kids)
    then show ?thesis by (simp only: take_child_Some [OF Some] snd_conv core_ok_taken)
  qed
  show "o_by_txid (snd (take_child parent c (out, s))) = AList.delete c (o_by_txid s)"
    by (cases "map_of (o_by_txid s) c") (simp_all add: take_child_Some take_child_None, simp add: map_of_eq_None_iff delete_idem)
  show "o_fifo (snd (take_child parent c (out, s))) = o_fifo s"
    by (cases "map_of (o_by_txid s) c") (simp_all add: take_child_Some take_child_None)
  show "kids (o_by_parent (snd (take_child parent c (out, s)))) parent = {}" if "kids (o_by_parent s) parent = {}"
  proof (cases "map_of (o_by_txid s) c")
    case None
    then show ?thesis using that by (simp add: take_child_None)
  next
    case (Some e)
    then show ?thesis using that kids [of e parent] by (simp add: take_child_Some)
  qed
qed

lemma fold_take_child:
  assumes "core_ok {parent} K s" "wtxid_determines_txid K" "kids (o_by_parent s) parent = {}"
  shows "core_ok {parent} K (snd (fold (take_child parent) cs (out, s)))
    \<and> o_by_txid (snd (fold (take_child parent) cs (out, s))) = filter (\<lambda>(t, _). t \<notin> set cs) (o_by_txid s)
    \<and> o_fifo (snd (fold (take_child parent) cs (out, s))) = o_fifo s
    \<and> kids (o_by_parent (snd (fold (take_child parent) cs (out, s)))) parent = {}"
  using assms
proof (induction cs arbitrary: out s)
  case Nil
  then show ?case by simp
next
  case (Cons c cs)
  obtain out' s' where step: "take_child parent c (out, s) = (out', s')" by fastforce
  note t = take_child_core [OF Cons.prems(1,2), of c out, unfolded step snd_conv]
  have "filter (\<lambda>(t, _). t \<notin> set cs) (AList.delete c (o_by_txid s)) = filter (\<lambda>(t, _). t \<notin> set (c # cs)) (o_by_txid s)"
    by (auto simp: AList.delete_eq case_prod_unfold intro!: filter_cong)
  with Cons.IH [OF t(1) Cons.prems(2) t(4) [OF Cons.prems(3)], of out'] t(2,3) step show ?case by simp
qed

lemma kids_waiting: "index_ok {} K s \<Longrightarrow> kids (o_by_parent s) p = waiting s p"
  unfolding index_ok_def by blast

lemma take_children_inv:
  assumes ok: "orphan_inv K s" and K: "wtxid_determines_txid K"
  shows "orphan_inv K (snd (take_children_of parent s))
    \<and> o_by_txid (snd (take_children_of parent s)) = filter (\<lambda>(t, _). t \<notin> waiting s parent) (o_by_txid s)"
proof (cases "map_of (o_by_parent s) parent")
  case None
  then have "waiting s parent = {}"
    using ok kids_waiting [of K s parent] by (simp add: orphan_inv_def kids_def)
  with None ok show ?thesis by (simp add: take_children_of_def)
next
  case (Some cs)
  let ?s0 = "s\<lparr>o_by_parent := AList.delete parent (o_by_parent s)\<rparr>"
  have idx: "index_ok {} K s" and w: "weight_ok s" using ok by (simp_all add: orphan_inv_def)
  have waits0: "waiting ?s0 p = waiting s p" for p by (simp add: waiting_def)
  have cs: "set cs = waiting s parent" using kids_waiting [OF idx, of parent] Some by (simp add: kids_def)
  have start: "core_ok {parent} K ?s0" "kids (o_by_parent ?s0) parent = {}"
    using idx w by (auto simp: core_ok_def index_ok_def waits0 kids_delete no_empty_delete weight_ok_fields [of ?s0 s])
  define s' where "s' = snd (take_children_of parent s)"
  have s'_eq: "s' = snd (fold (take_child parent) cs ([], ?s0))" by (simp add: s'_def take_children_of_def Some)
  note r = fold_take_child [OF start(1) K start(2), of cs "[]", folded s'_eq]
  then have by_txid: "o_by_txid s' = filter (\<lambda>(t, _). t \<notin> waiting s parent) (o_by_txid s)" by (simp add: cs)
  have d: "distinct (map fst (o_by_txid s))" using idx by (simp add: index_ok_def)
  have "waiting s' parent = {}"
  proof -
    have False if "map_of (o_by_txid s') t = Some e" "parent \<in> set (oe_missing e)" for t e
    proof -
      have "(t, e) \<in> set (o_by_txid s)" "t \<notin> waiting s parent"
        using map_of_SomeD [OF that(1)] by (auto simp: by_txid)
      with d that(2) show False by (auto simp: waiting_def)
    qed
    then show ?thesis by (auto simp: waiting_def)
  qed
  then have "kids (o_by_parent s') p = waiting s' p" for p
    using r by (cases "p = parent") (simp_all add: core_ok_def index_ok_def)
  with r have "core_ok {} K s'" unfolding core_ok_def index_ok_def by blast
  moreover have "fifo_ok s'"
    using ok r by (auto simp: orphan_inv_def fifo_ok_def orphan_contains_iff by_txid)
  ultimately show ?thesis using by_txid by (simp add: orphan_inv_core flip: s'_def)
qed

end
