(* ===== verification/OrphanRun.thy ===== *)
theory OrphanRun
  imports OrphanProps
begin

text \<open>
  Runs of the orphanage: the step relation over all its operations, the invariant of every reachable
  state, and the properties of admission, promotion, disconnects and the queue.
\<close>

section \<open>Disconnects\<close>

lemma erase_hit_core:
  assumes ok: "core_ok {} K s" and e: "map_of (o_by_txid s) t = Some e" "peer \<in> set (oe_announcers e)"
  shows "\<exists>d s'. erase_hit peer (t, oe_weight e, l) (dropped, s) = (d, s') \<and> core_ok {} K s' \<and> o_fifo s' = o_fifo s \<and> o_taken s' = o_taken s
    \<and> map_of (o_by_txid s') = (map_of (o_by_txid s))(t \<mapsto> e\<lparr>oe_announcers := removeAll peer (oe_announcers e)\<rparr>)"
  using core_ok_drop_announcer [OF ok e] e
  by (simp add: erase_hit_def Let_def) (simp add: set_announcers_def update_conv')

lemma fold_erase_hit:
  assumes "core_ok {} K s" "distinct (map fst hits)"
    "\<forall>(t, w, _) \<in> set hits. \<exists>e. map_of (o_by_txid s) t = Some e \<and> peer \<in> set (oe_announcers e) \<and> w = oe_weight e"
  shows "\<exists>d s'. fold (erase_hit peer) hits (dropped, s) = (d, s') \<and> core_ok {} K s' \<and> o_fifo s' = o_fifo s \<and> o_taken s' = o_taken s
    \<and> (\<forall>t. map_of (o_by_txid s') t = (if t \<in> fst ` set hits
         then map_option (\<lambda>e. e\<lparr>oe_announcers := removeAll peer (oe_announcers e)\<rparr>) (map_of (o_by_txid s) t)
         else map_of (o_by_txid s) t))"
  using assms
proof (induction hits arbitrary: dropped s)
  case Nil
  then show ?case by simp
next
  case (Cons h hits)
  obtain t w l where h: "h = (t, w, l)" by (cases h)
  from Cons.prems(3) h obtain e where e: "map_of (o_by_txid s) t = Some e" "peer \<in> set (oe_announcers e)" "w = oe_weight e"
    by auto
  from erase_hit_core [OF Cons.prems(1) e(1,2), of l dropped] obtain d s1 where s1: "erase_hit peer (t, w, l) (dropped, s) = (d, s1)"
    "core_ok {} K s1" "o_fifo s1 = o_fifo s" "o_taken s1 = o_taken s"
    "map_of (o_by_txid s1) = (map_of (o_by_txid s))(t \<mapsto> e\<lparr>oe_announcers := removeAll peer (oe_announcers e)\<rparr>)"
    by (auto simp: e(3))
  have fresh: "t \<notin> fst ` set hits" using Cons.prems(2) h by simp
  have rest: "\<forall>(t, w, _) \<in> set hits. \<exists>e. map_of (o_by_txid s1) t = Some e \<and> peer \<in> set (oe_announcers e) \<and> w = oe_weight e"
    using Cons.prems(3) fresh by (force simp: s1(5))
  from Cons.IH [OF s1(2) _ rest, of d] Cons.prems(2) obtain d' s' where s': "fold (erase_hit peer) hits (d, s1) = (d', s')"
    "core_ok {} K s'" "o_fifo s' = o_fifo s1" "o_taken s' = o_taken s1"
    "\<forall>t. map_of (o_by_txid s') t = (if t \<in> fst ` set hits
         then map_option (\<lambda>e. e\<lparr>oe_announcers := removeAll peer (oe_announcers e)\<rparr>) (map_of (o_by_txid s1) t)
         else map_of (o_by_txid s1) t)"
    by auto
  show ?case
    using s' s1 fresh e(1) by (auto simp: h)
qed

lemma erase_for_peer_state:
  assumes ok: "orphan_inv K s" and K: "wtxid_determines_txid K"
  shows "orphan_inv K (erase_for_peer peer s)
    \<and> (\<forall>t e. map_of (o_by_txid (erase_for_peer peer s)) t = Some e \<longrightarrow> peer \<notin> set (oe_announcers e))
    \<and> o_taken (erase_for_peer peer s) = map (\<lambda>(t, x). (t, erase_taken peer x)) (o_taken s)"
proof -
  define hits where "hits = map (\<lambda>(txid, e). (txid, oe_weight e, length (oe_announcers e) = 1))
    (filter (\<lambda>(_, e). peer \<in> set (oe_announcers e)) (o_by_txid s))"
  have core: "core_ok {} K s" and fifo: "fifo_ok s" using ok by (simp_all add: orphan_inv_core)
  note d = core_ok_distinct [OF core]
  have keys: "map fst hits = map fst (filter (\<lambda>(_, e). peer \<in> set (oe_announcers e)) (o_by_txid s))"
    by (simp add: hits_def case_prod_unfold)
  have dist: "distinct (map fst hits)" unfolding keys using d by (rule distinct_map_filter)
  have hit: "\<forall>(t, w, _) \<in> set hits. \<exists>e. map_of (o_by_txid s) t = Some e \<and> peer \<in> set (oe_announcers e) \<and> w = oe_weight e"
    using d by (auto simp: hits_def)
  have announced: "t \<in> fst ` set hits" if "map_of (o_by_txid s) t = Some e" "peer \<in> set (oe_announcers e)" for t e
    using map_of_SomeD [OF that(1)] that(2) by (force simp: hits_def)
  obtain dr s1 where s1: "fold (erase_hit peer) hits ([], s) = (dr, s1)" "core_ok {} K s1" "o_fifo s1 = o_fifo s" "o_taken s1 = o_taken s"
    "\<forall>t. map_of (o_by_txid s1) t = (if t \<in> fst ` set hits
         then map_option (\<lambda>e. e\<lparr>oe_announcers := removeAll peer (oe_announcers e)\<rparr>) (map_of (o_by_txid s) t)
         else map_of (o_by_txid s) t)"
    using fold_erase_hit [OF core dist hit, of "[]"] by blast
  have clean: "peer \<notin> set (oe_announcers e)" if "map_of (o_by_txid s1) t = Some e" for t e
    using that s1(5) announced by (auto split: if_splits)
  have inv1: "orphan_inv K s1"
    using s1 fifo by (auto simp: orphan_inv_core fifo_ok_def orphan_contains_def split: if_splits)
  define s2 where "s2 = retain_fifo (remove_all_txids dr s1)"
  have eq: "erase_for_peer peer s = s2\<lparr>o_taken := map (\<lambda>(t, x). (t, erase_taken peer x)) (o_taken s2)\<rparr>"
    unfolding erase_for_peer_def Let_def hits_def [symmetric] s1(1) prod.case s2_def ..
  have "orphan_inv K s2" unfolding s2_def by (intro orphan_inv_retain orphan_inv_remove_all inv1 K)
  moreover have "peer \<notin> set (oe_announcers e)" if "map_of (o_by_txid s2) t = Some e" for t e
  proof -
    have "(t, e) \<in> set (o_by_txid s1)"
      using map_of_SomeD [OF that] by (simp add: s2_def retain_fifo_def o_by_txid_remove_all)
    then show ?thesis using clean core_ok_distinct [OF s1(2)] by simp
  qed
  moreover have "o_taken s2 = o_taken s" by (simp add: s2_def retain_fifo_def s1(4))
  ultimately show ?thesis by (simp add: eq)
qed

section \<open>Runs\<close>

text \<open>
  One call of an operation that changes the orphanage, with its arguments left open. \<open>missing\<close> is a
  \<open>BTreeSet\<close> in the code, so it has no duplicates.
\<close>

inductive orphan_step :: "chain_lib \<Rightarrow> orphanage \<Rightarrow> orphanage \<Rightarrow> bool" for K where
  step_insert: "distinct missing \<Longrightarrow> orphan_step K s (snd (insert_from_at K tx missing from now s))"
| step_expire: "orphan_step K s (expire now s)"
| step_evict_peer: "orphan_step K s (snd (evict_one_from_peer peer s))"
| step_evict: "orphan_step K s (snd (evict_oldest s))"
| step_take: "orphan_step K s (snd (take_txid t s))"
| step_children: "orphan_step K s (snd (take_children_of parent s))"
| step_note: "orphan_step K s (snd (note_taken t ps s))"
| step_claim: "orphan_step K s (snd (claim_taken t s))"
| step_forget: "orphan_step K s (forget_taken_gen t g s)"
| step_announce: "orphan_step K s (snd (add_announcer t peer s))"
| step_announce_wtxid: "orphan_step K s (snd (add_announcer_wtxid w peer s))"
| step_disconnect: "orphan_step K s (erase_for_peer peer s)"
| step_block: "orphan_step K s (erase_for_block ts s)"

inductive orphan_reach :: "chain_lib \<Rightarrow> orphanage \<Rightarrow> bool" for K where
  reach_new: "orphan_reach K (orphan_with_limits max_weight max_count)"
| reach_step: "orphan_reach K s \<Longrightarrow> orphan_step K s s' \<Longrightarrow> orphan_reach K s'"

lemma orphan_inv_step:
  assumes "orphan_step K s s'" "orphan_inv K s" "wtxid_determines_txid K"
  shows "orphan_inv K s'"
  using assms
proof (induction rule: orphan_step.induct)
  case (step_note s t ps)
  then show ?case by (simp add: note_taken_def record_taken_eq)
next
  case (step_claim s t)
  then show ?case by (simp add: claim_taken_def split: option.split)
next
  case (step_forget s t g)
  then show ?case by (simp add: forget_taken_gen_def split: option.split)
qed (simp_all add: orphan_inv_insert orphan_inv_expire orphan_inv_evict_one orphan_inv_evict_oldest take_txid_def
    orphan_inv_remove take_children_inv orphan_inv_add_announcer orphan_inv_add_announcer_wtxid erase_for_peer_state
    orphan_inv_erase_for_block)

lemma orphan_reach_inv:
  assumes "orphan_reach K s" "wtxid_determines_txid K"
  shows "orphan_inv K s"
  using assms by (induction rule: orphan_reach.induct) (auto intro: orphan_inv_new orphan_inv_step)

section \<open>A concrete library\<close>

text \<open>The sample library with a witness hash that contains the transaction hash.\<close>

definition orphan_lib :: chain_lib where
  "orphan_lib = sample_chain_lib\<lparr>k_compute_wtxid := \<lambda>tx. lib_compute_txid (k_btc sample_chain_lib) tx @ to_le 4 (unat (tx_version tx))\<rparr>"

lemma orphan_lib_simps [simp]:
  "lib_compute_txid (k_btc orphan_lib) = (\<lambda>tx. pad 32 (to_le 4 (unat (tx_lock_time tx))))"
  "k_compute_wtxid orphan_lib = (\<lambda>tx. pad 32 (to_le 4 (unat (tx_lock_time tx))) @ to_le 4 (unat (tx_version tx)))"
  "k_weight orphan_lib = (\<lambda>tx. 400)"
  by (simp_all add: orphan_lib_def)

lemma orphan_lib_determines: "wtxid_determines_txid orphan_lib"
  by (simp add: wtxid_determines_txid_def)

section \<open>Properties\<close>

text \<open>
  C6. Whatever sequence of operations runs on an orphanage, with any arguments, its indexes stay
  exact: the index by witness hash is the inverse of the entries, the index by parent holds exactly
  the waiting children and no empty set, the total and the per-peer weights are the exact sums,
  both limits hold, and every parked transaction is in the eviction queue.
\<close>

theorem orphan_reachable_inv:
  assumes "orphan_reach K s" "wtxid_determines_txid K"
  shows "(\<forall>w t. map_of (o_by_wtxid s) w = Some t \<longleftrightarrow> (\<exists>e. map_of (o_by_txid s) t = Some e \<and> oe_wtxid e = w))
    \<and> (\<forall>p. (case map_of (o_by_parent s) p of None \<Rightarrow> {} | Some c \<Rightarrow> set c) =
          {t. \<exists>e. map_of (o_by_txid s) t = Some e \<and> p \<in> set (oe_missing e)})
    \<and> (\<forall>p. map_of (o_by_parent s) p \<noteq> Some [])
    \<and> unat (o_total_weight s) = (\<Sum>(_, e) \<leftarrow> o_by_txid s. unat (oe_weight e))
    \<and> (\<forall>peer. unat (peer_orphan_weight s peer) = (\<Sum>(_, e) \<leftarrow> o_by_txid s. if peer \<in> set (oe_announcers e) then unat (oe_weight e) else 0))
    \<and> o_total_weight s \<le> o_max_weight s \<and> orphan_len s \<le> o_max_count s
    \<and> (\<forall>t. orphan_contains s t \<longrightarrow> t \<in> set (o_fifo s))"
proof -
  from orphan_reach_inv [OF assms] have i: "index_ok {} K s" and w: "weight_ok s" and f: "fifo_ok s"
    by (simp_all add: orphan_inv_def)
  have sums: "asum f (o_by_txid s) = (\<Sum>(_, e) \<leftarrow> o_by_txid s. f e)" for f
    by (simp add: asum_def case_prod_unfold comp_def)
  have ann: "announced_weight peer = (\<lambda>e. if peer \<in> set (oe_announcers e) then unat (oe_weight e) else 0)" for peer
    by (simp add: fun_eq_iff announced_weight_def)
  show ?thesis
    using i w f unfolding index_ok_def weight_ok_def fifo_ok_def sums ann orphan_len_def no_empty_def kids_def waiting_def comp_def
    by blast
qed

theorem orphan_reachable_inv_witness:
  "let s = snd (insert_from_at orphan_lib sample_coinbase [[1]] (Some 7) 0 (orphan_with_limits 0 0))
   in unat (o_total_weight s) = (\<Sum>(_, e) \<leftarrow> o_by_txid s. unat (oe_weight e)) \<and> orphan_len s \<le> o_max_count s"
proof -
  have "orphan_reach orphan_lib (snd (insert_from_at orphan_lib sample_coinbase [[1]] (Some 7) 0 (orphan_with_limits 0 0)))"
    by (rule reach_step [OF reach_new step_insert]) simp
  from orphan_reachable_inv [OF this orphan_lib_determines] show ?thesis unfolding Let_def by blast
qed

section \<open>Admission\<close>

lemma o_max_weight_expire [simp]: "o_max_weight (expire now s) = o_max_weight s"
  by (simp add: expire_def)

lemma o_max_weight_evict_one [simp]: "o_max_weight (snd (evict_one_from_peer peer s)) = o_max_weight s"
  by (auto simp: evict_one_from_peer_def Let_def retain_fifo_def set_announcers_def split: option.split)

lemma o_max_weight_evict_scan [simp]: "o_max_weight (snd (evict_scan h s sk fifo)) = o_max_weight s"
  by (induction h s sk fifo rule: evict_scan.induct) auto

lemma o_max_weight_evict [simp]: "o_max_weight (snd (evict_oldest s)) = o_max_weight s"
  by (simp add: evict_oldest_def evict_oldest_filtered_def case_prod_unfold Let_def)

lemma o_max_weight_peer_loop [simp]: "o_max_weight (snd (peer_evict_loop peer w s)) = o_max_weight s"
proof (induction peer w s rule: peer_evict_loop.induct)
  case (1 peer w s)
  obtain ok s' where ev: "evict_one_from_peer peer s = (ok, s')" by fastforce
  have "o_max_weight s' = o_max_weight s" using o_max_weight_evict_one [of peer s] ev by simp
  with 1 ev show ?case by (subst peer_evict_loop.simps) (auto split: bool.split)
qed

lemma o_max_weight_room_loop [simp]: "o_max_weight (room_loop w s) = o_max_weight s"
proof (induction w s rule: room_loop.induct)
  case (1 w s)
  obtain ok s' where ev: "evict_oldest s = (ok, s')" by fastforce
  have "o_max_weight s' = o_max_weight s" using o_max_weight_evict [of s] ev by simp
  with 1 ev show ?case by (subst room_loop.simps) (auto split: bool.split)
qed

lemma asum_evict_scan: "asum f (o_by_txid (snd (evict_scan h s sk fifo))) \<le> asum f (o_by_txid s)"
  by (induction h s sk fifo rule: evict_scan.induct) (auto simp: asum_def sum_list_delete_le)

lemma asum_evict_oldest: "asum f (o_by_txid (snd (evict_oldest s))) \<le> asum f (o_by_txid s)"
  using asum_evict_scan [of f True s "[]" "o_fifo s"]
    asum_evict_scan [of f False "snd (evict_scan True s [] (o_fifo s))" "[]" "o_fifo (snd (evict_scan True s [] (o_fifo s)))"]
  by (simp add: evict_oldest_def evict_oldest_filtered_def case_prod_unfold Let_def)

lemma asum_room_loop: "asum f (o_by_txid (room_loop w s)) \<le> asum f (o_by_txid s)"
proof (induction w s rule: room_loop.induct)
  case (1 w s)
  obtain ok s' where ev: "evict_oldest s = (ok, s')" by fastforce
  have "asum f (o_by_txid s') \<le> asum f (o_by_txid s)" using asum_evict_oldest [of f s] ev by simp
  with 1 ev show ?case by (subst room_loop.simps) (auto split: bool.split intro: le_trans)
qed

lemma room_loop_peer_weight:
  assumes "orphan_inv K s" "wtxid_determines_txid K"
  shows "unat (peer_orphan_weight (room_loop w s) p) \<le> unat (peer_orphan_weight s p)"
  using assms(1) room_loop_ok [OF assms, of w] asum_room_loop [of "announced_weight p" w s]
  by (simp add: orphan_inv_def weight_ok_def)

lemma make_room_admits:
  assumes ok: "orphan_inv K s" and K: "wtxid_determines_txid K" and w: "k_weight K tx \<le> MAX_ORPHAN_TX_WEIGHT"
    and cap: "unat (o_max_weight s) + 404000 < 2 ^ 64"
  shows "\<exists>s1. make_room_and_park K tx missing from now s = (True, park K tx missing from now s1) \<and> orphan_inv K s1
    \<and> unat (o_total_weight s1) + unat (k_weight K tx) < 2 ^ 64
    \<and> (\<forall>peer. from = Some peer \<longrightarrow> unat (peer_orphan_weight s1 peer) + unat (k_weight K tx) \<le> 404000)"
proof -
  define r where "r = (case from of None \<Rightarrow> (True, s) | Some peer \<Rightarrow> peer_evict_loop peer (k_weight K tx) s)"
  define s1 where "s1 = room_loop (k_weight K tx) (snd r)"
  have r: "fst r" "orphan_inv K (snd r)" "o_max_weight (snd r) = o_max_weight s"
    using peer_evict_loop_ok [OF ok K w] ok by (auto simp: r_def split: option.splits)
  have inv: "orphan_inv K s1" and mw: "o_max_weight s1 = o_max_weight s"
    using room_loop_ok [OF r(2) K, of "k_weight K tx"] r(3) by (simp_all add: s1_def)
  then have wt: "weight_ok s1" by (simp add: orphan_inv_def)
  have small: "unat (k_weight K tx) \<le> 404000" using w by (simp add: MAX_ORPHAN_TX_WEIGHT_def word_le_nat_alt)
  have room: "length (o_by_txid s1) < o_max_count s1 \<and> unat (o_total_weight s1) + unat (k_weight K tx) \<le> unat (o_max_weight s1)"
  proof (cases "o_by_txid s1 = []")
    case True
    then show ?thesis using wt small by (simp add: weight_ok_def MAX_ORPHAN_TX_WEIGHT_def word_le_nat_alt)
  next
    case False
    then have "length (o_by_txid s1) < o_max_count s1" "sat_add (o_total_weight s1) (k_weight K tx) \<le> o_max_weight s1"
      using room_loop_ok [OF r(2) K, of "k_weight K tx"] by (simp_all add: s1_def)
    moreover have "unat (o_total_weight s1) \<le> unat (o_max_weight s1)" using wt by (simp add: weight_ok_def word_le_nat_alt)
    ultimately show ?thesis using cap small mw by (simp add: word_le_nat_alt unat_sat_add)
  qed
  then have "unat (k_weight K tx) \<le> unat (o_max_weight s1) - unat (o_total_weight s1)" by linarith
  with room have result: "make_room_and_park K tx missing from now s = (True, park K tx missing from now s1)"
    using w r(1) by (simp add: make_room_and_park_def Let_def case_prod_unfold word_less_nat_alt word_le_nat_alt unat_sat_sub not_less
        flip: r_def s1_def)
  have "unat (peer_orphan_weight s1 peer) + unat (k_weight K tx) \<le> 404000" if "from = Some peer" for peer
  proof -
    have "sat_add (peer_orphan_weight (snd r) peer) (k_weight K tx) \<le> ORPHAN_RESERVED_WEIGHT_PER_PEER"
      using peer_evict_loop_ok [OF ok K w, of peer] that by (simp add: r_def)
    then have "unat (peer_orphan_weight (snd r) peer) + unat (k_weight K tx) \<le> 404000"
      by (simp add: ORPHAN_RESERVED_WEIGHT_PER_PEER_def word_le_nat_alt unat_sat_add)
    then show ?thesis using room_loop_peer_weight [OF r(2) K, of "k_weight K tx" peer] by (simp add: s1_def)
  qed
  with result inv room cap mw show ?thesis by auto
qed

text \<open>
  C7. Room is always made: for every state a run can reach, parking succeeds exactly when the
  transaction misses a parent, weighs at most 404000 units and is not already parked (after expiry)
  with the same witness hash. A full pool or a peer over its reserve never causes a refusal. The new
  entry is then stored, and its announcer holds at most 404000 units, the new entry included.
\<close>

theorem orphan_insert_admits:
  assumes "orphan_reach K s" "wtxid_determines_txid K" "unat (o_max_weight s) + 404000 < 2 ^ 64"
    "insert_from_at K tx missing from now s = (parked, s')"
  shows "(parked \<longleftrightarrow> missing \<noteq> [] \<and> k_weight K tx \<le> MAX_ORPHAN_TX_WEIGHT
      \<and> wtxid_of (expire now s) (lib_compute_txid (k_btc K) tx) \<noteq> Some (k_compute_wtxid K tx))
    \<and> (parked \<longrightarrow> map_of (o_by_txid s') (lib_compute_txid (k_btc K) tx) = Some (parked_entry K tx missing from now)
      \<and> (\<forall>peer. from = Some peer \<longrightarrow> unat (peer_orphan_weight s' peer) \<le> 404000))"
proof -
  let ?t = "lib_compute_txid (k_btc K) tx" and ?x = "expire now s"
  define known where "known \<longleftrightarrow> wtxid_of ?x ?t = Some (k_compute_wtxid K tx)"
  define s0 where "s0 = (if orphan_contains ?x ?t then snd (remove_txid ?t ?x) else ?x)"
  have inv: "orphan_inv K s0" and mw: "o_max_weight s0 = o_max_weight s"
    using orphan_inv_expire [OF orphan_reach_inv [OF assms(1,2)] assms(2), of now] orphan_inv_remove [OF _ assms(2)]
    by (simp_all add: s0_def)
  have cases: "(parked, s') = (if missing = [] then (False, s)
      else if known then (False, case from of None \<Rightarrow> ?x | Some peer \<Rightarrow> snd (add_announcer ?t peer ?x))
      else make_room_and_park K tx missing from now s0)"
    unfolding assms(4) [symmetric]
    by (auto simp: insert_from_at_def Let_def known_def wtxid_of_def s0_def orphan_contains_def split: option.split)
  have heavy: "make_room_and_park K tx missing from now s0 = (False, s0)" if "\<not> k_weight K tx \<le> MAX_ORPHAN_TX_WEIGHT"
    using that by (simp add: make_room_and_park_def not_le)
  show ?thesis
  proof (cases "missing \<noteq> [] \<and> k_weight K tx \<le> MAX_ORPHAN_TX_WEIGHT \<and> \<not> known")
    case False
    then have "\<not> parked" using cases heavy by (auto split: if_splits)
    with False show ?thesis by (auto simp: known_def)
  next
    case True
    from make_room_admits [OF inv assms(2), of tx missing "from" now] True assms(3) mw obtain s1
      where s1: "make_room_and_park K tx missing from now s0 = (True, park K tx missing from now s1)" "orphan_inv K s1"
        "unat (o_total_weight s1) + unat (k_weight K tx) < 2 ^ 64"
        "\<And>peer. from = Some peer \<Longrightarrow> unat (peer_orphan_weight s1 peer) + unat (k_weight K tx) \<le> 404000"
      by auto
    have p: "parked" "s' = park K tx missing from now s1" using cases True s1(1) by simp_all
    have "unat (peer_orphan_weight s1 p) + unat (k_weight K tx) < 2 ^ 64" for p
      using peer_weight_le_total [of s1 p] s1(2,3) by (simp add: orphan_inv_def)
    note peer = peer_weight_park [OF this]
    have "unat (peer_orphan_weight s' q) \<le> 404000" if "from = Some q" for q
      using s1(4) [OF that] peer [of missing "from" now q] that by (simp add: p(2) announced_weight_def parked_entry_def)
    then show ?thesis using True p by (simp add: known_def park_fields update_conv')
  qed
qed

theorem orphan_insert_admits_witness:
  "fst (insert_from_at orphan_lib sample_coinbase [[1]] (Some 7) 0 (orphan_with_limits 0 0))"
proof -
  let ?s = "orphan_with_limits 0 0"
  have "expire 0 ?s = ?s" by (simp add: expire_def orphan_with_limits_def remove_all_txids_def)
  moreover have "wtxid_of ?s t = None" for t by (simp add: wtxid_of_def orphan_with_limits_def)
  moreover have "unat (o_max_weight ?s) + 404000 < 2 ^ 64" by (simp add: orphan_with_limits_def MAX_ORPHAN_TX_WEIGHT_def)
  ultimately show ?thesis
    using orphan_insert_admits [OF reach_new orphan_lib_determines, of 0 0 sample_coinbase "[[1]]" "Some 7" 0]
    by (cases "insert_from_at orphan_lib sample_coinbase [[1]] (Some 7) 0 ?s") (simp add: MAX_ORPHAN_TX_WEIGHT_def)
qed

lemma sample_parked:
  "map_of (o_by_txid (snd (insert_from_at orphan_lib sample_coinbase [[1]] (Some 7) 0 (orphan_with_limits 0 0))))
    (lib_compute_txid (k_btc orphan_lib) sample_coinbase) = Some (parked_entry orphan_lib sample_coinbase [[1]] (Some 7) 0)"
proof -
  let ?s = "orphan_with_limits 0 0"
  have x: "expire 0 ?s = ?s" by (simp add: expire_def orphan_with_limits_def remove_all_txids_def)
  from make_room_admits [OF orphan_inv_new orphan_lib_determines, of sample_coinbase 0 0 "[[1]]" "Some 7" 0]
  obtain s1 where "make_room_and_park orphan_lib sample_coinbase [[1]] (Some 7) 0 ?s = (True, park orphan_lib sample_coinbase [[1]] (Some 7) 0 s1)"
    by (auto simp: MAX_ORPHAN_TX_WEIGHT_def orphan_with_limits_def)
  moreover have "o_by_txid ?s = []" by (simp add: orphan_with_limits_def)
  ultimately show ?thesis
    by (simp add: insert_from_at_def Let_def x park_fields update_conv')
qed

section \<open>Promotion\<close>

lemma image_lookup_insert:
  assumes "m c = Some e"
  shows "{g x |t x. t \<in> insert c C \<and> m t = Some x} = insert (g e) {g x |t x. t \<in> C \<and> (m(c := None)) t = Some x}"
proof -
  have "g x = g e \<or> (\<exists>u y. g x = g y \<and> u \<in> C \<and> (m(c := None)) u = Some y)" if "t \<in> insert c C" "m t = Some x" for t x
    using that assms by (cases "t = c") fastforce+
  moreover have "t \<in> insert c C \<and> m t = Some x" if "t \<in> C" "(m(c := None)) t = Some x" for t x
    using that by (simp split: if_splits)
  ultimately show ?thesis using assms by blast
qed

lemma fold_take_child_out:
  assumes "fold (take_child parent) cs (out, s) = (out', s')"
  shows "(\<lambda>x. (os_tx x, os_announcers x)) ` set out' = (\<lambda>x. (os_tx x, os_announcers x)) ` set out \<union>
      {(oe_tx e, oe_announcers e) |t e. t \<in> set cs \<and> map_of (o_by_txid s) t = Some e}
    \<and> (\<forall>t. t \<notin> set cs \<or> map_of (o_by_txid s) t = None \<longrightarrow> map_of (o_taken s') t = map_of (o_taken s) t)
    \<and> (\<forall>t e. t \<in> set cs \<and> map_of (o_by_txid s) t = Some e \<longrightarrow>
        (\<exists>g. map_of (o_taken s') t = Some \<lparr>tk_announcers = oe_announcers e, tk_drop = False, tk_gen = g\<rparr>))"
  using assms
proof (induction cs arbitrary: out s)
  case Nil
  then show ?case by simp
next
  case (Cons c cs)
  show ?case
  proof (cases "map_of (o_by_txid s) c")
    case None
    have "fold (take_child parent) cs (out, s) = (out', s')" using Cons.prems None by (simp add: take_child_None)
    from Cons.IH [OF this] None show ?thesis by auto
  next
    case (Some e)
    obtain out1 s1 where s1: "take_child parent c (out, s) = (out1, s1)" by fastforce
    have eq: "out1 = out @ [\<lparr>os_tx = oe_tx e, os_announcers = oe_announcers e, os_taken_gen = next_gen s\<rparr>]"
      "map_of (o_by_txid s1) = (map_of (o_by_txid s))(c := None)"
      "map_of (o_taken s1) = (map_of (o_taken s))(c \<mapsto> \<lparr>tk_announcers = oe_announcers e, tk_drop = False, tk_gen = next_gen s\<rparr>)"
      using s1 by (auto simp: take_child_Some [OF Some] delete_conv' update_conv')
    have "fold (take_child parent) cs (out1, s1) = (out', s')" using Cons.prems s1 by simp
    note IH = Cons.IH [OF this, unfolded eq]
    have "{(oe_tx x, oe_announcers x) |t x. t \<in> set (c # cs) \<and> map_of (o_by_txid s) t = Some x} =
        insert (oe_tx e, oe_announcers e) {(oe_tx x, oe_announcers x) |t x. t \<in> set cs \<and> ((map_of (o_by_txid s))(c := None)) t = Some x}"
      using image_lookup_insert [of "map_of (o_by_txid s)" c e "\<lambda>x. (oe_tx x, oe_announcers x)" "set cs"] Some by simp
    then have "(\<lambda>x. (os_tx x, os_announcers x)) ` set out' = (\<lambda>x. (os_tx x, os_announcers x)) ` set out \<union>
        {(oe_tx e, oe_announcers e) |t e. t \<in> set (c # cs) \<and> map_of (o_by_txid s) t = Some e}"
      using IH by (simp only:) simp
    moreover have "map_of (o_taken s') t = map_of (o_taken s) t" if "t \<notin> set (c # cs) \<or> map_of (o_by_txid s) t = None" for t
      using IH that Some by auto
    moreover have "\<exists>g. map_of (o_taken s') t = Some \<lparr>tk_announcers = oe_announcers x, tk_drop = False, tk_gen = g\<rparr>"
      if "t \<in> set (c # cs)" "map_of (o_by_txid s) t = Some x" for t x
      using IH that Some by (cases "t = c") auto
    ultimately show ?thesis by blast
  qed
qed

text \<open>
  C22. Promotion is exact: \<open>take_children_of\<close> returns precisely the parked transactions that miss the
  parent, each with its announcers, removes these entries and no other, and leaves each of them
  claimable under the same announcers.
\<close>

theorem take_children_exact:
  assumes "orphan_reach K s" "wtxid_determines_txid K" "take_children_of parent s = (out, s')"
  shows "(\<lambda>x. (os_tx x, os_announcers x)) ` set out =
      {(oe_tx e, oe_announcers e) |t e. map_of (o_by_txid s) t = Some e \<and> parent \<in> set (oe_missing e)}
    \<and> (\<forall>t. orphan_contains s' t \<longleftrightarrow> orphan_contains s t \<and> t \<notin> waiting s parent)
    \<and> (\<forall>t e. map_of (o_by_txid s) t = Some e \<and> parent \<in> set (oe_missing e) \<longrightarrow>
        fst (claim_taken t s') = Some (Keep (oe_announcers e)))"
proof -
  have inv: "orphan_inv K s" by (rule orphan_reach_inv [OF assms(1,2)])
  have "orphan_contains s' t \<longleftrightarrow> orphan_contains s t \<and> t \<notin> waiting s parent" for t
    using take_children_inv [OF inv assms(2), of parent] assms(3) by (force simp: orphan_contains_iff)
  moreover have kids: "kids (o_by_parent s) parent = waiting s parent"
    using inv by (intro kids_waiting [of K]) (simp add: orphan_inv_def)
  ultimately show ?thesis
  proof (cases "map_of (o_by_parent s) parent")
    case None
    then have "waiting s parent = {}" using kids by (simp add: kids_def)
    moreover have "out = []" "s' = s" using None assms(3) by (simp_all add: take_children_of_def)
    ultimately show ?thesis by (auto simp: waiting_def)
  next
    case (Some cs)
    let ?s0 = "s\<lparr>o_by_parent := AList.delete parent (o_by_parent s)\<rparr>"
    have cs: "set cs = waiting s parent" using kids Some by (simp add: kids_def)
    have "fold (take_child parent) cs ([], ?s0) = (out, s')" using assms(3) Some by (simp add: take_children_of_def)
    note r = fold_take_child_out [OF this, unfolded cs]
    have "fst (claim_taken t s') = Some (Keep (oe_announcers e))"
      if "map_of (o_by_txid s) t = Some e" "parent \<in> set (oe_missing e)" for t e
      using r that by (fastforce simp: waiting_def claim_taken_def)
    moreover have iff: "t \<in> waiting s parent \<and> map_of (o_by_txid s) t = Some e \<longleftrightarrow>
        map_of (o_by_txid s) t = Some e \<and> parent \<in> set (oe_missing e)" for t e
      by (auto simp: waiting_def)
    moreover have "{(oe_tx e, oe_announcers e) |t e. t \<in> waiting s parent \<and> map_of (o_by_txid s) t = Some e} =
        {(oe_tx e, oe_announcers e) |t e. map_of (o_by_txid s) t = Some e \<and> parent \<in> set (oe_missing e)}"
      unfolding iff ..
    ultimately show ?thesis using r \<open>\<And>t. orphan_contains s' t \<longleftrightarrow> orphan_contains s t \<and> t \<notin> waiting s parent\<close> by simp
  qed
qed

theorem take_children_exact_witness:
  "let s = snd (insert_from_at orphan_lib sample_coinbase [[1]] (Some 7) 0 (orphan_with_limits 0 0));
       t = lib_compute_txid (k_btc orphan_lib) sample_coinbase
   in \<not> orphan_contains (snd (take_children_of [1] s)) t
     \<and> fst (claim_taken t (snd (take_children_of [1] s))) = Some (Keep [7])"
proof -
  let ?s = "snd (insert_from_at orphan_lib sample_coinbase [[1]] (Some 7) 0 (orphan_with_limits 0 0))"
  let ?t = "lib_compute_txid (k_btc orphan_lib) sample_coinbase"
  have reach: "orphan_reach orphan_lib ?s" by (rule reach_step [OF reach_new step_insert]) simp
  have e: "map_of (o_by_txid ?s) ?t = Some (parked_entry orphan_lib sample_coinbase [[1]] (Some 7) 0)"
    by (rule sample_parked)
  have wait: "?t \<in> waiting ?s [1]" using e by (simp add: waiting_def parked_entry_def)
  note exact = take_children_exact [OF reach orphan_lib_determines surjective_pairing, of "[1]"]
  have "\<not> orphan_contains (snd (take_children_of [1] ?s)) ?t" using exact wait by blast
  moreover have "fst (claim_taken ?t (snd (take_children_of [1] ?s))) = Some (Keep [7])"
    using exact [THEN conjunct2, THEN conjunct2, THEN spec, THEN spec, THEN mp, OF conjI, OF e] by (simp add: parked_entry_def)
  ultimately show ?thesis unfolding Let_def by blast
qed

lemma removeAll_Nil_iff: "removeAll x xs = [] \<longleftrightarrow> set xs \<subseteq> {x}"
  by (induction xs) auto

text \<open>
  C23. A disconnect is complete: afterwards the peer announces nothing, parked or in flight, and no
  weight is charged to it. A transaction that is out for promotion is dropped when the peer was its only
  announcer, and is otherwise reparked under the others.
\<close>

theorem disconnect_complete:
  assumes "orphan_reach K s" "wtxid_determines_txid K"
  shows "\<not> has_announcer (erase_for_peer peer s) peer \<and> peer_orphan_weight (erase_for_peer peer s) peer = 0
    \<and> (\<forall>t x. map_of (o_taken s) t = Some x \<and> \<not> tk_drop x \<longrightarrow>
        fst (claim_taken t (erase_for_peer peer s)) =
          Some (if set (tk_announcers x) = {peer} then Drop else Keep (removeAll peer (tk_announcers x))))"
proof -
  let ?s = "erase_for_peer peer s"
  note st = erase_for_peer_state [OF orphan_reach_inv [OF assms] assms(2), of peer]
  have inv: "orphan_inv K ?s" using st by blast
  have clean: "peer \<notin> set (oe_announcers e)" if "(t, e) \<in> set (o_by_txid ?s)" for t e
    using st that core_ok_distinct [of "{}" K ?s] by (auto simp: orphan_inv_core)
  have "asum (announced_weight peer) (o_by_txid ?s) = 0"
    by (rule asum_zero) (simp add: announced_weight_def clean)
  moreover have "unat (peer_orphan_weight ?s peer) = asum (announced_weight peer) (o_by_txid ?s)"
    using inv unfolding orphan_inv_def weight_ok_def by blast
  ultimately have "peer_orphan_weight ?s peer = 0" by (simp add: unat_eq_0)
  moreover have "\<not> has_announcer ?s peer"
    using clean st by (auto simp: has_announcer_def list_ex_iff erase_taken_def Let_def)
  moreover have "fst (claim_taken t ?s) = Some (if set (tk_announcers x) = {peer} then Drop else Keep (removeAll peer (tk_announcers x)))"
    if "map_of (o_taken s) t = Some x" "\<not> tk_drop x" for t x
  proof -
    have "map_of (o_taken ?s) t = Some (erase_taken peer x)" using st that by (simp add: map_of_map)
    moreover have "(peer \<in> set (tk_announcers x) \<and> removeAll peer (tk_announcers x) = []) \<longleftrightarrow> set (tk_announcers x) = {peer}"
      by (auto simp: removeAll_Nil_iff)
    ultimately show ?thesis using that(2) by (simp add: claim_taken_def erase_taken_def Let_def)
  qed
  ultimately show ?thesis by blast
qed

theorem disconnect_complete_witness:
  "let s = snd (note_taken [5] [9, 7] (orphan_with_limits 0 0))
   in fst (claim_taken [5] (erase_for_peer 7 s)) = Some (Keep [9]) \<and> \<not> has_announcer (erase_for_peer 7 s) 7"
proof -
  let ?s = "snd (note_taken [5] [9, 7] (orphan_with_limits 0 0))"
  have reach: "orphan_reach orphan_lib ?s" by (rule reach_step [OF reach_new step_note])
  have x: "map_of (o_taken ?s) [5] = Some \<lparr>tk_announcers = [7, 9], tk_drop = False, tk_gen = next_gen (orphan_with_limits 0 0)\<rparr>"
    by (simp add: note_taken_def record_taken_eq orphan_with_limits_def)
  note complete = disconnect_complete [OF reach orphan_lib_determines, of 7]
  have "fst (claim_taken [5] (erase_for_peer 7 ?s)) = Some (Keep [9])"
    using complete [THEN conjunct2, THEN conjunct2, THEN spec, THEN spec, THEN mp, OF conjI, OF x] by auto
  with complete show ?thesis unfolding Let_def by blast
qed

section \<open>The eviction queue\<close>

text \<open>One parked transaction replaced by another form of it: the pool stays at one entry and the queue grows.\<close>

lemma replace_parked:
  assumes inv: "orphan_inv K s" and K: "wtxid_determines_txid K" and w: "k_weight K b \<le> MAX_ORPHAN_TX_WEIGHT"
    and s: "o_by_txid s = [(lib_compute_txid (k_btc K) b, parked_entry K a [m] None 0)]"
    and form: "k_compute_wtxid K a \<noteq> k_compute_wtxid K b"
  shows "o_by_txid (snd (insert_from_at K b [m] None 0 s)) = [(lib_compute_txid (k_btc K) b, parked_entry K b [m] None 0)]
    \<and> o_fifo (snd (insert_from_at K b [m] None 0 s)) = o_fifo s @ [lib_compute_txid (k_btc K) b]"
proof -
  let ?t = "lib_compute_txid (k_btc K) b"
  define s0 where "s0 = snd (remove_txid ?t s)"
  have x: "expire 0 s = s"
    by (simp add: expire_def s parked_entry_def sat_sub_def ORPHAN_EXPIRE_MS_def remove_all_txids_def)
  have s0: "o_by_txid s0 = []" "o_fifo s0 = o_fifo s" by (simp_all add: s0_def s)
  have wt: "weight_ok s0" using orphan_inv_remove [OF inv K, of ?t] by (simp add: s0_def orphan_inv_def)
  then have zero: "o_total_weight s0 = 0" and cap: "MAX_ORPHAN_TX_WEIGHT \<le> o_max_weight s0" and room: "0 < o_max_count s0"
    using s0(1) by (simp_all add: weight_ok_def unat_eq_0)
  have "room_loop (k_weight K b) s0 = s0" by (subst room_loop.simps) (simp add: s0(1))
  moreover have "\<not> sat_sub (o_max_weight s0) (o_total_weight s0) < k_weight K b"
    using w cap by (simp add: zero sat_sub_def not_less)
  ultimately have "make_room_and_park K b [m] None 0 s0 = (True, park K b [m] None 0 s0)"
    using w room by (simp add: make_room_and_park_def Let_def s0(1) not_less)
  then have "snd (insert_from_at K b [m] None 0 s) = park K b [m] None 0 s0"
    using form by (simp add: insert_from_at_def Let_def x s parked_entry_def flip: s0_def)
  then show ?thesis by (simp add: park_fields s0)
qed

lemma park_first:
  assumes w: "k_weight K a \<le> MAX_ORPHAN_TX_WEIGHT"
  shows "o_by_txid (snd (insert_from_at K a [m] None 0 orphan_new)) = [(lib_compute_txid (k_btc K) a, parked_entry K a [m] None 0)]
    \<and> o_fifo (snd (insert_from_at K a [m] None 0 orphan_new)) = [lib_compute_txid (k_btc K) a]"
proof -
  have e: "o_by_txid orphan_new = []" "o_fifo orphan_new = []" "o_total_weight orphan_new = 0" "o_max_count orphan_new = 3000"
    and cap: "MAX_ORPHAN_TX_WEIGHT \<le> o_max_weight orphan_new"
    by (simp_all add: orphan_new_def orphan_with_limits_def DEFAULT_ORPHAN_MAX_COUNT_def)
  have "expire 0 orphan_new = orphan_new" by (simp add: expire_def e remove_all_txids_def)
  moreover have "room_loop (k_weight K a) orphan_new = orphan_new" by (subst room_loop.simps) (simp add: e)
  moreover have "\<not> sat_sub (o_max_weight orphan_new) 0 < k_weight K a" using w cap by (simp add: sat_sub_def not_less)
  ultimately show ?thesis
    using w by (simp add: insert_from_at_def make_room_and_park_def Let_def e not_less park_fields)
qed



end
