(* ===== verification/TxSet.thy ===== *)
theory TxSet
  imports Prelude
begin

text \<open>
  The fixed-width bitset \<open>TxSet\<close> of \<open>crates/rbitcoin-mempool/src/linearize.rs\<close> over 64-bit words, and its
  refinement of finite sets of positions.
\<close>

section \<open>Definitions\<close>

type_synonym txset = "u64 list"

definition ts_empty :: "nat \<Rightarrow> txset" where
  "ts_empty n = replicate ((n + 63) div 64) 0"

definition ts_insert :: "nat \<Rightarrow> txset \<Rightarrow> txset" where
  "ts_insert i s = s[i div 64 := s ! (i div 64) OR push_bit (i mod 64) 1]"

definition ts_singleton :: "nat \<Rightarrow> nat \<Rightarrow> txset" where
  "ts_singleton n i = ts_insert i (ts_empty n)"

text \<open>The in-place operations zip over the shorter operand and keep the tail of \<open>self\<close>.\<close>

definition ts_union :: "txset \<Rightarrow> txset \<Rightarrow> txset" where
  "ts_union a b = map2 (\<lambda>x y. x OR y) a b @ drop (length b) a"

definition ts_subtract :: "txset \<Rightarrow> txset \<Rightarrow> txset" where
  "ts_subtract a b = map2 (\<lambda>x y. x AND NOT y) a b @ drop (length b) a"

definition ts_intersection :: "txset \<Rightarrow> txset \<Rightarrow> txset" where
  "ts_intersection a b = map2 (\<lambda>x y. x AND y) a b"

definition ts_overlaps :: "txset \<Rightarrow> txset \<Rightarrow> bool" where
  "ts_overlaps a b = list_ex (\<lambda>(x, y). x AND y \<noteq> 0) (zip a b)"

definition ts_is_empty :: "txset \<Rightarrow> bool" where
  "ts_is_empty s = list_all (\<lambda>w. w = 0) s"

definition ts_is_subset :: "txset \<Rightarrow> txset \<Rightarrow> bool" where
  "ts_is_subset a b = list_all (\<lambda>(x, y). x AND NOT y = 0) (zip a b)"

definition count_ones :: "u64 \<Rightarrow> nat" where
  "count_ones w = length (filter (bit w) [0..<64])"

definition ts_count :: "txset \<Rightarrow> nat" where
  "ts_count s = sum_list (map count_ones s)"

definition trailing_zeros :: "u64 \<Rightarrow> nat" where
  "trailing_zeros w = (case find (bit w) [0..<64] of None \<Rightarrow> 64 | Some k \<Rightarrow> k)"

section \<open>Clearing the lowest bit\<close>

lemma trailing_zeros_bit:
  assumes "w \<noteq> 0"
  shows "trailing_zeros w < 64 \<and> bit w (trailing_zeros w) \<and> (\<forall>j < trailing_zeros w. \<not> bit w j)"
proof -
  from assms obtain n where n: "bit w n" by (auto simp: bit_eq_iff)
  then have "n < 64" using bit_imp_le_length [OF n] by simp
  with n have "find (bit w) [0..<64] \<noteq> None" by (auto simp: find_None_iff)
  then obtain k where k: "find (bit w) [0..<64] = Some k" by blast
  then obtain i where "i < 64" "bit w i" "k = i" "\<forall>j < i. \<not> bit w j"
    by (auto simp: find_Some_iff)
  with k show ?thesis by (simp add: trailing_zeros_def)
qed

lemma bit_below_lowest:
  fixes x u k :: nat
  assumes "x = 2 ^ k + 2 ^ Suc k * u"
  shows "bit x j \<and> bit (x - 1) j \<longleftrightarrow> bit x j \<and> j \<noteq> k"
proof -
  have x1: "x - 1 = (2 ^ k - 1) + 2 ^ Suc k * u" by (simp add: assms)
  show ?thesis
  proof (cases "k < j")
    case True
    then obtain d where d: "j = Suc k + d" by (auto dest: less_imp_Suc_add)
    have quot: "(r + 2 ^ Suc k * u) div 2 ^ Suc k = u" if "r < 2 ^ Suc k" for r :: nat
      using that by simp
    have low: "(2 :: nat) ^ k < 2 ^ Suc k" "(2 :: nat) ^ k - 1 < 2 ^ Suc k" by (simp_all add: less_imp_diff_less)
    have "x div 2 ^ Suc k = u" using quot [OF low(1)] by (simp only: assms)
    moreover have "(x - 1) div 2 ^ Suc k = u" unfolding x1 by (rule quot [OF low(2)])
    ultimately have "x div 2 ^ j = u div 2 ^ d" "(x - 1) div 2 ^ j = u div 2 ^ d"
      unfolding d power_add by (simp_all add: div_mult2_eq)
    with True show ?thesis by (simp add: bit_iff_odd)
  next
    case False
    have "\<not> bit x j" if "j < k"
    proof -
      have "x = 2 ^ j * (2 ^ (k - j) * (1 + 2 * u))" using that by (simp add: assms algebra_simps flip: power_add)
      then have "x div 2 ^ j = 2 ^ (k - j) * (1 + 2 * u)" by simp
      then show ?thesis using that by (simp add: bit_iff_odd)
    qed
    moreover have "\<not> bit (x - 1) k"
    proof -
      have "(r + 2 ^ k * (2 * u)) div 2 ^ k = 2 * u" if "r < 2 ^ k" for r :: nat
        using that by simp
      from this [of "2 ^ k - 1"] have "(x - 1) div 2 ^ k = 2 * u"
        unfolding x1 by (simp add: mult.assoc mult.left_commute)
      then show ?thesis by (simp add: bit_iff_odd)
    qed
    ultimately show ?thesis using False by (cases "j = k") auto
  qed
qed

lemma unat_lowest:
  assumes "w \<noteq> (0 :: u64)"
  shows "\<exists>u. unat w = 2 ^ trailing_zeros w + 2 ^ Suc (trailing_zeros w) * u"
proof -
  let ?k = "trailing_zeros w"
  note tz = trailing_zeros_bit [OF assms]
  have "take_bit ?k (unat w) = 0"
    using tz by (auto simp: bit_eq_iff bit_take_bit_iff bit_unsigned_iff)
  then have "unat w = 2 ^ ?k * (unat w div 2 ^ ?k)" by (simp add: take_bit_eq_mod mult_div_mod_eq dvd_eq_mod_eq_0 [symmetric])
  moreover have "odd (unat w div 2 ^ ?k)"
    using tz by (simp add: bit_unsigned_iff flip: bit_iff_odd)
  then obtain u where "unat w div 2 ^ ?k = 2 * u + 1" by (auto elim: oddE)
  ultimately have "unat w = 2 ^ ?k + 2 ^ Suc ?k * u" by (simp add: algebra_simps)
  then show ?thesis by blast
qed

lemma bit_unsigned_iff_nat: "bit w j \<longleftrightarrow> bit (unat w) j" for w :: u64
  using bit_imp_le_length [of w j] by (auto simp: bit_unsigned_iff)

lemma bit_clear_lowest:
  assumes "w \<noteq> (0 :: u64)"
  shows "bit (w AND (w - 1)) j \<longleftrightarrow> bit w j \<and> j \<noteq> trailing_zeros w"
proof -
  obtain u where u: "unat w = 2 ^ trailing_zeros w + 2 ^ Suc (trailing_zeros w) * u" using unat_lowest [OF assms] by blast
  have "unat (w - 1) = unat w - 1" using assms by (simp add: unat_minus_one)
  then have "bit (w - 1) j \<longleftrightarrow> bit (unat w - 1) j" for j
    using bit_unsigned_iff_nat [of "w - 1" j] by simp
  moreover have "bit w j \<longleftrightarrow> bit (unat w) j" for j by (rule bit_unsigned_iff_nat)
  ultimately show ?thesis using bit_below_lowest [OF u, of j] by (simp add: bit_and_iff)
qed

lemma clear_lowest_less:
  assumes "w \<noteq> (0 :: u64)"
  shows "unat (w AND (w - 1)) < unat w"
proof -
  have "w AND (w - 1) \<le> w - 1" by (rule word_and_le1)
  also have "w - 1 < w" using assms by (simp add: word_less_nat_alt unat_minus_one unat_gt_0)
  finally show ?thesis by (simp add: word_less_nat_alt)
qed

function ts_bits :: "u64 \<Rightarrow> nat list" where
  "ts_bits bits = (if bits = 0 then [] else trailing_zeros bits # ts_bits (bits AND (bits - 1)))"
  by pat_completeness auto
termination by (relation "measure unat") (auto simp: clear_lowest_less)

declare ts_bits.simps [simp del]

definition ts_iter :: "txset \<Rightarrow> nat list" where
  "ts_iter s = concat (map (\<lambda>(wi, w). map (\<lambda>b. wi * 64 + b) (ts_bits w)) (enumerate 0 s))"

section \<open>Refinement\<close>

text \<open>The set of positions a bitset stands for, and its width.\<close>

definition members :: "txset \<Rightarrow> nat set" where
  "members s = {i. i div 64 < length s \<and> bit (s ! (i div 64)) (i mod 64)}"

definition ts_width :: "nat \<Rightarrow> txset \<Rightarrow> bool" where
  "ts_width n s \<longleftrightarrow> length s = (n + 63) div 64"

lemma ts_bits_spec: "ts_bits w = filter (bit w) [0..<64]"
proof (induction w rule: ts_bits.induct)
  case (1 w)
  show ?case
  proof (cases "w = 0")
    case True
    then show ?thesis by (simp add: ts_bits.simps)
  next
    case False
    let ?k = "trailing_zeros w"
    note tz = trailing_zeros_bit [OF False]
    have split: "[0..<64] = [0..<?k] @ ?k # [Suc ?k..<64]"
      using tz upt_add_eq_append [of 0 ?k "64 - ?k"] by (simp add: upt_conv_Cons)
    have "filter (bit w) [0..<64] = ?k # filter (bit w) [Suc ?k..<64]"
      unfolding split using tz by (simp add: filter_empty_conv)
    moreover have "filter (bit (w AND (w - 1))) [0..<64] = filter (bit w) [Suc ?k..<64]"
      unfolding split bit_clear_lowest [OF False] using tz by (auto simp: filter_empty_conv intro!: filter_cong)
    ultimately show ?thesis using False 1 by (simp add: ts_bits.simps [of w])
  qed
qed

lemma count_ones_bits: "count_ones w = length (ts_bits w)"
  by (simp add: count_ones_def ts_bits_spec)

lemma ts_iter_snoc: "ts_iter (s @ [w]) = ts_iter s @ map (\<lambda>b. length s * 64 + b) (ts_bits w)"
  by (simp add: ts_iter_def enumerate_append_eq)

lemma members_snoc: "members (s @ [w]) = members s \<union> (\<lambda>b. length s * 64 + b) ` {b. b < 64 \<and> bit w b}"
proof -
  have "i div 64 = length s \<longleftrightarrow> (\<exists>b < 64. i = length s * 64 + b)" for i
    by (auto simp: div_nat_eqI) (metis add.commute mod_less_divisor div_mult_mod_eq zero_less_numeral)
  then show ?thesis
    by (auto simp: members_def nth_append less_Suc_eq)
qed

lemma members_less: "i \<in> members s \<Longrightarrow> i < length s * 64"
  by (simp add: members_def) (metis div_less_iff_less_mult zero_less_numeral)

lemma ts_iter_spec: "sorted_wrt (<) (ts_iter s) \<and> set (ts_iter s) = members s \<and> length (ts_iter s) = ts_count s"
proof (induction s rule: rev_induct)
  case Nil
  then show ?case by (simp add: ts_iter_def members_def ts_count_def)
next
  case (snoc w s)
  have "sorted_wrt (<) (map (\<lambda>b. length s * 64 + b) (ts_bits w))"
    by (simp add: ts_bits_spec sorted_wrt_map sorted_wrt_filter)
  moreover have "set (map (\<lambda>b. length s * 64 + b) (ts_bits w)) = (\<lambda>b. length s * 64 + b) ` {b. b < 64 \<and> bit w b}"
    by (auto simp: ts_bits_spec)
  ultimately show ?case
    using snoc members_less [of _ s]
    by (auto simp: ts_iter_snoc sorted_wrt_append members_snoc ts_count_def count_ones_bits trans_less_add1)
qed

lemma set_ts_iter [simp]: "set (ts_iter s) = members s"
  using ts_iter_spec by blast

lemma distinct_ts_iter [simp]: "distinct (ts_iter s)"
  using ts_iter_spec [of s] by (simp add: strict_sorted_iff)

lemma finite_members [simp]: "finite (members s)"
  by (simp flip: set_ts_iter)

lemma ts_count_card: "ts_count s = card (members s)"
  using ts_iter_spec [of s] distinct_card [OF distinct_ts_iter, of s] by simp

lemma ts_is_empty_iff: "ts_is_empty s \<longleftrightarrow> members s = {}"
proof
  assume "ts_is_empty s"
  then show "members s = {}" by (auto simp: ts_is_empty_def members_def list_all_length)
next
  assume none: "members s = {}"
  have "s ! k = 0" if "k < length s" for k
  proof (rule bit_eqI)
    fix b assume "possible_bit TYPE(u64) b"
    then have "b < 64" by simp
    then have "(k * 64 + b) div 64 = k" "(k * 64 + b) mod 64 = b" by simp_all
    moreover have "k * 64 + b \<notin> members s" using none by simp
    ultimately show "bit (s ! k) b = bit 0 b" using that by (simp add: members_def)
  qed
  then show "ts_is_empty s" by (simp add: ts_is_empty_def list_all_length)
qed

lemma ts_width_empty [simp]: "ts_width n (ts_empty n)"
  by (simp add: ts_width_def ts_empty_def)

lemma ts_width_insert [simp]: "ts_width n (ts_insert i s) = ts_width n s"
  by (simp add: ts_width_def ts_insert_def)

lemma ts_width_singleton [simp]: "ts_width n (ts_singleton n i)"
  by (simp add: ts_singleton_def)

lemma ts_width_ops [simp]:
  "ts_width n a \<Longrightarrow> ts_width n b \<Longrightarrow> ts_width n (ts_union a b)"
  "ts_width n a \<Longrightarrow> ts_width n b \<Longrightarrow> ts_width n (ts_subtract a b)"
  "ts_width n a \<Longrightarrow> ts_width n b \<Longrightarrow> ts_width n (ts_intersection a b)"
  by (simp_all add: ts_width_def ts_union_def ts_subtract_def ts_intersection_def)

lemma members_empty [simp]: "members (ts_empty n) = {}"
  by (simp add: members_def ts_empty_def)

lemma members_insert [simp]:
  assumes "ts_width n s" "i < n"
  shows "members (ts_insert i s) = insert i (members s)"
proof -
  have w: "i div 64 < length s" using assms by (simp add: ts_width_def)
  have "bit (ts_insert i s ! (j div 64)) (j mod 64) \<longleftrightarrow> j = i \<or> bit (s ! (j div 64)) (j mod 64)" if "j div 64 < length s" for j
  proof (cases "j div 64 = i div 64")
    case True
    then have "j mod 64 = i mod 64 \<longleftrightarrow> j = i" by (metis div_mult_mod_eq)
    moreover have "bit (push_bit (i mod 64) 1 :: u64) (j mod 64) \<longleftrightarrow> j mod 64 = i mod 64"
      by (simp add: bit_exp_iff exp_eq_zero_iff)
    ultimately show ?thesis using True w by (auto simp: ts_insert_def bit_or_iff)
  next
    case False
    then show ?thesis using w by (auto simp: ts_insert_def)
  qed
  then show ?thesis using w by (auto simp: members_def) (simp_all add: ts_insert_def)
qed

lemma members_singleton [simp]: "i < n \<Longrightarrow> members (ts_singleton n i) = {i}"
  by (simp add: ts_singleton_def members_insert [of n])

lemma members_union [simp]: "ts_width n a \<Longrightarrow> ts_width n b \<Longrightarrow> members (ts_union a b) = members a \<union> members b"
  by (auto simp: members_def ts_union_def ts_width_def bit_or_iff)

lemma members_subtract [simp]: "ts_width n a \<Longrightarrow> ts_width n b \<Longrightarrow> members (ts_subtract a b) = members a - members b"
  by (auto simp: members_def ts_subtract_def ts_width_def bit_and_iff bit_not_iff)

lemma members_intersection [simp]: "ts_width n a \<Longrightarrow> ts_width n b \<Longrightarrow> members (ts_intersection a b) = members a \<inter> members b"
  by (auto simp: members_def ts_intersection_def ts_width_def bit_and_iff)

lemma ts_overlaps_iff: "ts_width n a \<Longrightarrow> ts_width n b \<Longrightarrow> ts_overlaps a b \<longleftrightarrow> members a \<inter> members b \<noteq> {}"
proof -
  assume w: "ts_width n a" "ts_width n b"
  have "ts_overlaps a b \<longleftrightarrow> \<not> ts_is_empty (ts_intersection a b)"
    by (force simp: ts_overlaps_def ts_is_empty_def ts_intersection_def list_ex_iff list_all_iff)
  then show ?thesis using w by (simp add: ts_is_empty_iff)
qed

lemma ts_is_subset_iff: "ts_width n a \<Longrightarrow> ts_width n b \<Longrightarrow> ts_is_subset a b \<longleftrightarrow> members a \<subseteq> members b"
proof -
  assume w: "ts_width n a" "ts_width n b"
  then have "ts_is_subset a b \<longleftrightarrow> ts_is_empty (ts_subtract a b)"
    by (auto simp: ts_is_subset_def ts_is_empty_def ts_subtract_def list_all_iff ts_width_def)
  then show ?thesis using w by (auto simp: ts_is_empty_iff)
qed

section \<open>Properties\<close>

text \<open>
  C19. The bitset refines finite sets: on operands of one width every operation on words is the
  operation on the sets they stand for, the bit-clearing iterator lists the members once each in
  ascending order, and the sum of the population counts is the cardinality.
\<close>

theorem txset_refines_sets:
  assumes "ts_width n a" "ts_width n b" "i < n"
  shows "members (ts_insert i a) = insert i (members a) \<and> members (ts_singleton n i) = {i} \<and> members (ts_empty n) = {}
    \<and> members (ts_union a b) = members a \<union> members b \<and> members (ts_subtract a b) = members a - members b
    \<and> members (ts_intersection a b) = members a \<inter> members b
    \<and> (ts_overlaps a b \<longleftrightarrow> members a \<inter> members b \<noteq> {}) \<and> (ts_is_subset a b \<longleftrightarrow> members a \<subseteq> members b)
    \<and> (ts_is_empty a \<longleftrightarrow> members a = {}) \<and> ts_iter a = sorted_list_of_set (members a) \<and> ts_count a = card (members a)"
proof -
  have "ts_iter a = sorted_list_of_set (members a)"
    using ts_iter_spec [of a] by (simp add: strict_sorted_equal)
  then show ?thesis
    using assms by (simp add: members_insert [OF assms(1,3)] members_union [OF assms(1,2)] members_subtract [OF assms(1,2)]
        members_intersection [OF assms(1,2)] ts_overlaps_iff [OF assms(1,2)] ts_is_subset_iff [OF assms(1,2)]
        ts_is_empty_iff ts_count_card)
qed

theorem txset_refines_sets_witness:
  "members (ts_union (ts_singleton 100 70) (ts_singleton 100 3)) = {70, 3}
   \<and> ts_iter (ts_singleton 100 70) = sorted_list_of_set {70}"
  using txset_refines_sets [of 100 "ts_singleton 100 70" "ts_singleton 100 3" 0] by auto

end
