(* ===== verification/Linearize.thy ===== *)
theory Linearize
  imports TxSet "HOL-Library.Product_Lexorder" "HOL-Library.Monad_Syntax"
begin

text \<open>
  Cluster linearisation of \<open>crates/rbitcoin-mempool/src/linearize.rs\<close>. Fees are integers with the saturation
  of \<open>i128\<close> written out, sizes 64-bit words, sets the bitsets of the file. A loop whose end depends
  on the graph is a partial function, where \<open>None\<close> is a loop that does not end or a panic.
\<close>

section \<open>Fee rates\<close>

record fee_frac =
  ff_fee :: int
  ff_size :: u64

definition sat128 :: "int \<Rightarrow> int" where
  "sat128 x = max (- (2 ^ 127)) (min (2 ^ 127 - 1) x)"

text \<open>Negation of an \<open>i128\<close>: the least value wraps to itself.\<close>

definition neg128 :: "int \<Rightarrow> int" where
  "neg128 x = (if x = - (2 ^ 127) then x else - x)"

definition ff_new :: "int \<Rightarrow> u64 \<Rightarrow> fee_frac" where
  "ff_new fee sz = \<lparr>ff_fee = fee, ff_size = sz\<rparr>"

definition ff_default :: fee_frac where
  "ff_default = \<lparr>ff_fee = 0, ff_size = 0\<rparr>"

definition cross :: "fee_frac \<Rightarrow> fee_frac \<Rightarrow> int \<times> int" where
  "cross a b = (sat128 (ff_fee a * uint (ff_size b)), sat128 (ff_fee b * uint (ff_size a)))"

definition higher_rate :: "fee_frac \<Rightarrow> fee_frac \<Rightarrow> bool" where
  "higher_rate a b = (let (x, y) = cross a b in y < x)"

datatype ordering = Less | Equal | Greater

definition compare :: "'a::linorder \<Rightarrow> 'a \<Rightarrow> ordering" where
  "compare a b = (if a < b then Less else if a = b then Equal else Greater)"

definition then_with :: "ordering \<Rightarrow> ordering \<Rightarrow> ordering" where
  "then_with a b = (if a = Equal then b else a)"

definition rank :: "fee_frac \<Rightarrow> fee_frac \<Rightarrow> ordering" where
  "rank a b = (let (x, y) = cross a b in then_with (compare x y) (compare (ff_size b) (ff_size a)))"

definition ff_add :: "fee_frac \<Rightarrow> fee_frac \<Rightarrow> fee_frac" where
  "ff_add a b = \<lparr>ff_fee = sat128 (ff_fee a + ff_fee b), ff_size = sat_add (ff_size a) (ff_size b)\<rparr>"

definition ff_sub :: "fee_frac \<Rightarrow> fee_frac \<Rightarrow> fee_frac" where
  "ff_sub a b = \<lparr>ff_fee = sat128 (ff_fee a - ff_fee b), ff_size = sat_sub (ff_size a) (ff_size b)\<rparr>"

section \<open>Dependency graph\<close>

record dep_graph =
  dg_feerate :: "fee_frac list"
  dg_ancestors :: "txset list"
  dg_descendants :: "txset list"

definition parents_of :: "nat \<Rightarrow> nat list list \<Rightarrow> nat \<Rightarrow> nat list" where
  "parents_of n parents i = filter (\<lambda>p. p < n \<and> p \<noteq> i) (parents ! i)"

definition children_of :: "nat \<Rightarrow> nat list list \<Rightarrow> nat list list" where
  "children_of n parents =
    fold (\<lambda>i children. fold (\<lambda>p children. children[p := children ! p @ [i]]) (parents_of n parents i) children)
      [0..<n] (replicate n [])"

text \<open>The inner loop over the children of \<open>p\<close>; counting below zero is a panic.\<close>

fun relax :: "nat \<Rightarrow> nat list \<Rightarrow> txset list \<Rightarrow> nat list \<Rightarrow> nat list \<Rightarrow> (txset list \<times> nat list \<times> nat list) option" where
  "relax p [] ancestors pending ready = Some (ancestors, pending, ready)"
| "relax p (c # cs) ancestors pending ready =
    (let ancestors = ancestors[c := ts_union (ancestors ! c) (ancestors ! p)]
     in if pending ! c = 0 then None
        else
          let pending = pending[c := pending ! c - 1];
              ready = (if pending ! c = 0 then ready @ [c] else ready)
          in relax p cs ancestors pending ready)"

partial_function (option) ready_loop :: "nat list list \<Rightarrow> txset list \<Rightarrow> nat list \<Rightarrow> nat list \<Rightarrow> txset list option" where
  "ready_loop children ancestors pending ready =
    (if ready = [] then Some ancestors
     else
       let p = last ready
       in Option.bind (relax p (children ! p) ancestors pending (butlast ready)) (\<lambda>(ancestors, pending, ready).
          ready_loop children ancestors pending ready))"

definition descendants_of :: "nat \<Rightarrow> txset list \<Rightarrow> txset list" where
  "descendants_of n ancestors =
    fold (\<lambda>(i, anc) descendants. fold (\<lambda>a descendants. descendants[a := ts_insert i (descendants ! a)]) (ts_iter anc) descendants)
      (enumerate 0 ancestors) (replicate n (ts_empty n))"

definition dep_graph_new :: "fee_frac list \<Rightarrow> nat list list \<Rightarrow> dep_graph option" where
  "dep_graph_new feerate parents =
    (let n = length feerate
     in if length parents < n then None
        else
          let pending = map (\<lambda>i. length (parents_of n parents i)) [0..<n];
              ready = filter (\<lambda>i. pending ! i = 0) [0..<n]
          in map_option (\<lambda>ancestors.
               \<lparr>dg_feerate = feerate, dg_ancestors = ancestors, dg_descendants = descendants_of n ancestors\<rparr>)
             (ready_loop (children_of n parents) (map (ts_singleton n) [0..<n]) pending ready))"

definition dg_len :: "dep_graph \<Rightarrow> nat" where
  "dg_len g = length (dg_feerate g)"

definition set_feerate :: "dep_graph \<Rightarrow> txset \<Rightarrow> fee_frac" where
  "set_feerate g s = fold (\<lambda>i f. ff_add f (dg_feerate g ! i)) (ts_iter s) ff_default"

definition append_topo :: "dep_graph \<Rightarrow> txset \<Rightarrow> nat list \<Rightarrow> nat list" where
  "append_topo g s out = out @ sort_key (\<lambda>i. (ts_count (dg_ancestors g ! i), i)) (ts_iter s)"

section \<open>Chunks\<close>

text \<open>\<open>Iterator::reduce\<close> with a comparison that keeps the earlier of two equals.\<close>

definition reduce_best :: "('a \<Rightarrow> 'a \<Rightarrow> ordering) \<Rightarrow> 'a list \<Rightarrow> 'a option" where
  "reduce_best cmp xs =
    (case xs of [] \<Rightarrow> None | x # rest \<Rightarrow> Some (foldl (\<lambda>b i. if cmp i b = Greater then i else b) x rest))"

text \<open>The stack of chunks has its last element in front.\<close>

fun chunk_merge :: "fee_frac \<times> nat \<Rightarrow> (fee_frac \<times> nat) list \<Rightarrow> (fee_frac \<times> nat) list" where
  "chunk_merge cur [] = [cur]"
| "chunk_merge cur ((prev, len) # chunks) =
    (if \<not> higher_rate (fst cur) prev then cur # (prev, len) # chunks
     else chunk_merge (ff_add (fst cur) prev, snd cur + len) chunks)"

definition chunk_stack :: "fee_frac list \<Rightarrow> (fee_frac \<times> nat) list" where
  "chunk_stack in_order = fold (\<lambda>fr chunks. chunk_merge (fr, 1) chunks) in_order []"

definition chunk_lengths :: "fee_frac list \<Rightarrow> nat list" where
  "chunk_lengths in_order = map snd (rev (chunk_stack in_order))"

section \<open>Merge and swap passes\<close>

record group =
  g_txs :: "nat list"
  g_set :: txset
  g_deps :: txset
  g_feerate :: fee_frac

definition absorb_before :: "group \<Rightarrow> group \<Rightarrow> group" where
  "absorb_before cur prev =
    \<lparr>g_txs = g_txs prev @ g_txs cur, g_set = ts_union (g_set cur) (g_set prev),
     g_deps = ts_union (g_deps cur) (g_deps prev), g_feerate = ff_add (g_feerate cur) (g_feerate prev)\<rparr>"

fun place :: "group \<Rightarrow> group list \<Rightarrow> nat \<Rightarrow> group list" where
  "place cur groups 0 = cur # groups"
| "place cur groups (Suc at) =
    (if higher_rate (g_feerate cur) (g_feerate (groups ! at))
     then (if ts_overlaps (g_deps cur) (g_set (groups ! at))
           then place (absorb_before cur (groups ! at)) (take at groups @ drop (Suc at) groups) at
           else place cur groups at)
     else take (Suc at) groups @ cur # drop (Suc at) groups)"

definition pass_group :: "dep_graph \<Rightarrow> bool \<Rightarrow> nat \<Rightarrow> group" where
  "pass_group g backward idx =
    (let feerate = dg_feerate g ! idx
     in \<lparr>g_txs = [idx], g_set = ts_singleton (dg_len g) idx,
         g_deps = (if backward then dg_descendants g ! idx else dg_ancestors g ! idx),
         g_feerate = (if backward then feerate\<lparr>ff_fee := neg128 (ff_fee feerate)\<rparr> else feerate)\<rparr>)"

definition pass_groups :: "dep_graph \<Rightarrow> bool \<Rightarrow> nat list \<Rightarrow> group list" where
  "pass_groups g backward lin =
    fold (\<lambda>k groups. place (pass_group g backward (lin ! (if backward then length lin - 1 - k else k))) groups (length groups))
      [0..<length lin] []"

definition merge_pass :: "dep_graph \<Rightarrow> bool \<Rightarrow> nat list \<Rightarrow> nat list" where
  "merge_pass g backward lin =
    (let flat = concat (map g_txs (pass_groups g backward lin))
     in fold (\<lambda>(k, idx) lin. lin[(if backward then length lin - 1 - k else k) := idx]) (enumerate 0 flat) lin)"

definition post_linearize :: "dep_graph \<Rightarrow> nat list \<Rightarrow> nat list" where
  "post_linearize g lin = merge_pass g False (merge_pass g True lin)"

section \<open>Output order\<close>

type_synonym chunk = "txset \<times> fee_frac \<times> nat"

fun cut_chunks :: "dep_graph \<Rightarrow> nat list \<Rightarrow> nat list \<Rightarrow> chunk list" where
  "cut_chunks g lin [] = []"
| "cut_chunks g lin (len # lens) =
    (let part = take len lin;
         s = fold ts_insert part (ts_empty (dg_len g));
         top = (if part = [] then 0 else Max (set part))
     in (s, set_feerate g s, top) # cut_chunks g (drop len lin) lens)"

definition chunk_ready :: "dep_graph \<Rightarrow> txset \<Rightarrow> chunk \<Rightarrow> bool" where
  "chunk_ready g finished c =
    list_all (\<lambda>t. ts_is_subset (ts_subtract (dg_ancestors g ! t) (fst c)) finished) (ts_iter (fst c))"

definition tx_ready :: "dep_graph \<Rightarrow> txset \<Rightarrow> nat \<Rightarrow> bool" where
  "tx_ready g finished t = ts_is_subset (ts_subtract (dg_ancestors g ! t) (ts_singleton (dg_len g) t)) finished"

partial_function (option) emit_chunk :: "dep_graph \<Rightarrow> txset \<Rightarrow> txset \<Rightarrow> nat list \<Rightarrow> (txset \<times> nat list) option" where
  "emit_chunk g left finished out =
    (case reduce_best (\<lambda>t b. rank (dg_feerate g ! t) (dg_feerate g ! b)) (filter (tx_ready g finished) (ts_iter left)) of
       None \<Rightarrow> Some (finished, out)
     | Some t \<Rightarrow> emit_chunk g (ts_subtract left (ts_singleton (dg_len g) t)) (ts_insert t finished) (out @ [t]))"

definition chunk_rank :: "chunk list \<Rightarrow> nat \<Rightarrow> nat \<Rightarrow> ordering" where
  "chunk_rank chunks k b =
    (let (_, fk, tk) = chunks ! k; (_, fb, tb) = chunks ! b in then_with (rank fk fb) (compare tb tk))"

partial_function (option) output_loop :: "dep_graph \<Rightarrow> chunk list \<Rightarrow> txset \<Rightarrow> nat list \<Rightarrow> nat list option" where
  "output_loop g chunks finished out =
    (if chunks = [] then Some out
     else case reduce_best (chunk_rank chunks) (filter (\<lambda>k. chunk_ready g finished (chunks ! k)) [0..<length chunks]) of
       None \<Rightarrow> Some out
     | Some pick \<Rightarrow>
         Option.bind (emit_chunk g (fst (chunks ! pick)) finished out) (\<lambda>(finished, out).
         output_loop g (take pick chunks @ drop (Suc pick) chunks) finished out))"

definition output_order :: "dep_graph \<Rightarrow> nat list \<Rightarrow> nat list option" where
  "output_order g lin =
    output_loop g (cut_chunks g lin (chunk_lengths (map (\<lambda>i. dg_feerate g ! i) lin))) (ts_empty (dg_len g)) []"

section \<open>Linearisation\<close>

definition lower_rates :: "dep_graph \<Rightarrow> txset \<Rightarrow> txset \<Rightarrow> fee_frac list \<Rightarrow> fee_frac list" where
  "lower_rates g todo pick anc_rate =
    fold (\<lambda>t rates. fold (\<lambda>d rates. rates[d := ff_sub (rates ! d) (dg_feerate g ! t)])
        (ts_iter (ts_intersection (dg_descendants g ! t) todo)) rates) (ts_iter pick) anc_rate"

partial_function (option) candidate_loop :: "dep_graph \<Rightarrow> txset \<Rightarrow> fee_frac list \<Rightarrow> nat list \<Rightarrow> nat list option" where
  "candidate_loop g todo anc_rate out =
    (if ts_is_empty todo then Some out
     else case reduce_best (\<lambda>i b. rank (anc_rate ! i) (anc_rate ! b)) (ts_iter todo) of
       None \<Rightarrow> Some out
     | Some best \<Rightarrow>
         let pick = ts_intersection (dg_ancestors g ! best) todo
         in candidate_loop g (ts_subtract todo pick) (lower_rates g todo pick anc_rate) (append_topo g pick out))"

definition linearize :: "dep_graph \<Rightarrow> nat list option" where
  "linearize g =
    (let n = dg_len g;
         todo = fold ts_insert [0..<n] (ts_empty n);
         anc_rate = map (set_feerate g) (dg_ancestors g)
     in Option.bind (candidate_loop g todo anc_rate []) (\<lambda>out. output_order g (post_linearize g out)))"

end
