(* ===== verification/LinearProps.thy ===== *)
theory LinearProps
  imports Linearize "HOL-Library.Multiset"
begin

text \<open>
  Properties of the linearisation: the constructor computes the ancestor closure of an acyclic
  graph, and every stage keeps a topological order of all transactions, so none is lost.
\<close>

section \<open>Well-formed graphs\<close>

abbreviation anc :: "dep_graph \<Rightarrow> nat \<Rightarrow> nat set" where
  "anc g i \<equiv> members (dg_ancestors g ! i)"

abbreviation desc :: "dep_graph \<Rightarrow> nat \<Rightarrow> nat set" where
  "desc g i \<equiv> members (dg_descendants g ! i)"

definition graph_ok :: "dep_graph \<Rightarrow> bool" where
  "graph_ok g \<longleftrightarrow>
    length (dg_ancestors g) = dg_len g \<and> length (dg_descendants g) = dg_len g
    \<and> (\<forall>i < dg_len g. ts_width (dg_len g) (dg_ancestors g ! i) \<and> ts_width (dg_len g) (dg_descendants g ! i)
        \<and> anc g i \<subseteq> {..<dg_len g} \<and> i \<in> anc g i \<and> desc g i = {j. j < dg_len g \<and> i \<in> anc g j})
    \<and> (\<forall>i < dg_len g. \<forall>j \<in> anc g i. anc g j \<subseteq> anc g i \<and> (i \<in> anc g j \<longrightarrow> i = j))"

lemma graph_okD:
  assumes "graph_ok g" "i < dg_len g"
  shows "ts_width (dg_len g) (dg_ancestors g ! i)" "ts_width (dg_len g) (dg_descendants g ! i)"
    "anc g i \<subseteq> {..<dg_len g}" "i \<in> anc g i" "desc g i = {j. j < dg_len g \<and> i \<in> anc g j}"
    "j \<in> anc g i \<Longrightarrow> anc g j \<subseteq> anc g i" "j \<in> anc g i \<Longrightarrow> i \<in> anc g j \<Longrightarrow> i = j"
  using assms unfolding graph_ok_def by blast+

lemma anc_count_less:
  assumes "graph_ok g" "i < dg_len g" "j \<in> anc g i" "j \<noteq> i"
  shows "ts_count (dg_ancestors g ! j) < ts_count (dg_ancestors g ! i)"
proof -
  have "anc g j \<subset> anc g i"
    using graph_okD [OF assms(1,2)] assms(3,4) by blast
  then show ?thesis by (simp add: ts_count_card psubset_card_mono)
qed

text \<open>No transaction stands before one it depends on.\<close>

definition topo :: "(nat \<Rightarrow> nat set) \<Rightarrow> nat list \<Rightarrow> bool" where
  "topo D xs \<longleftrightarrow> sorted_wrt (\<lambda>a b. b \<notin> D a) xs"

definition topo_order :: "dep_graph \<Rightarrow> nat list \<Rightarrow> bool" where
  "topo_order g xs \<longleftrightarrow> distinct xs \<and> set xs = {..<dg_len g} \<and> topo (anc g) xs"

lemma topo_append: "topo D (xs @ ys) \<longleftrightarrow> topo D xs \<and> topo D ys \<and> (\<forall>x \<in> set xs. \<forall>y \<in> set ys. y \<notin> D x)"
  by (simp add: topo_def sorted_wrt_append)

lemma topo_single [simp]: "topo D [x]"
  by (simp add: topo_def)

lemma topo_swap:
  "topo D (as @ bs @ cs @ ds) \<Longrightarrow> \<forall>x \<in> set cs. \<forall>y \<in> set bs. y \<notin> D x \<Longrightarrow> topo D (as @ cs @ bs @ ds)"
  unfolding topo_append set_append by blast

lemma topo_rev: "(\<And>a b. a \<in> set xs \<Longrightarrow> b \<in> set xs \<Longrightarrow> b \<in> D a \<longleftrightarrow> a \<in> E b) \<Longrightarrow> topo D (rev xs) \<longleftrightarrow> topo E xs"
  by (induction xs) (auto simp: topo_def sorted_wrt_append)

section \<open>Selection\<close>

lemma foldl_pick: "foldl (\<lambda>b i. if c i b then i else b) x xs \<in> insert x (set xs)"
proof (induction xs arbitrary: x)
  case (Cons a xs)
  from Cons.IH [of "if c a x then a else x"] show ?case by (auto split: if_splits)
qed simp

lemma reduce_best_Some: "reduce_best cmp xs = Some y \<Longrightarrow> y \<in> set xs"
  using foldl_pick [of "\<lambda>i b. cmp i b = Greater"] by (auto simp: reduce_best_def split: list.splits)

lemma reduce_best_None [simp]: "reduce_best cmp xs = None \<longleftrightarrow> xs = []"
  by (simp add: reduce_best_def split: list.split)

section \<open>Candidate search\<close>

lemma append_topo_set: "set (append_topo g s out) = set out \<union> members s"
  by (simp add: append_topo_def)

lemma topo_sorted_set:
  assumes "graph_ok g" "members s \<subseteq> {..<dg_len g}"
  shows "topo (anc g) (sort_key (\<lambda>i. (ts_count (dg_ancestors g ! i), i)) (ts_iter s))"
proof -
  let ?f = "\<lambda>i. (ts_count (dg_ancestors g ! i), i)" and ?xs = "sort_key (\<lambda>i. (ts_count (dg_ancestors g ! i), i)) (ts_iter s)"
  have "sorted_wrt (\<lambda>a b. ?f a \<le> ?f b) ?xs" using sorted_sort_key [of ?f "ts_iter s"] by (simp add: sorted_map)
  moreover have "distinct ?xs" by simp
  ultimately have "sorted_wrt (\<lambda>a b. ?f a \<le> ?f b \<and> a \<noteq> b) ?xs"
    by (auto simp: sorted_wrt_iff_nth_less nth_eq_iff_index_eq)
  then show ?thesis
    unfolding topo_def
  proof (rule sorted_wrt_mono_rel [rotated])
    fix a b assume ab: "a \<in> set ?xs" "b \<in> set ?xs" "?f a \<le> ?f b \<and> a \<noteq> b"
    then show "b \<notin> anc g a" using anc_count_less [OF assms(1), of a b] assms(2) by (auto simp: less_eq_prod_def)
  qed
qed

lemma candidate_loop_ok:
  assumes g: "graph_ok g" and "ts_width (dg_len g) todo" "members todo \<subseteq> {..<dg_len g}"
    "distinct out" "set out = {..<dg_len g} - members todo" "topo (anc g) out" "\<And>x. x \<in> set out \<Longrightarrow> anc g x \<subseteq> set out"
  shows "\<exists>lin. candidate_loop g todo rates out = Some lin \<and> topo_order g lin"
  using assms(2-)
proof (induction "card (members todo)" arbitrary: todo rates out rule: less_induct)
  case less
  show ?case
  proof (cases "members todo = {}")
    case True
    then show ?thesis
      using less.prems by (subst candidate_loop.simps) (simp add: ts_is_empty_iff topo_order_def)
  next
    case False
    then obtain best where best: "reduce_best (\<lambda>i b. rank (rates ! i) (rates ! b)) (ts_iter todo) = Some best"
      using reduce_best_None [of _ "ts_iter todo"] by (metis option.exhaust set_empty set_ts_iter)
    then have b: "best \<in> members todo" using reduce_best_Some by fastforce
    then have bn: "best < dg_len g" using less.prems(2) by blast
    note gb = graph_okD [OF g bn]
    define pick where "pick = ts_intersection (dg_ancestors g ! best) todo"
    have w: "ts_width (dg_len g) pick" and m: "members pick = anc g best \<inter> members todo"
      using gb(1) less.prems(1) by (simp_all add: pick_def members_intersection [OF gb(1) less.prems(1)])
    let ?todo = "ts_subtract todo pick" and ?out = "append_topo g pick out"
    have mt: "members ?todo = members todo - members pick" by (rule members_subtract [OF less.prems(1) w])
    have sub: "members pick \<subseteq> members todo" "best \<in> members pick" using m b gb(4) by auto
    have small: "card (members ?todo) < card (members todo)"
      using sub by (auto simp: mt intro!: psubset_card_mono)
    have closed: "anc g x \<subseteq> set ?out" if "x \<in> set ?out" for x
    proof (cases "x \<in> set out")
      case True
      then show ?thesis using less.prems(6) [OF True] by (auto simp: append_topo_set)
    next
      case False
      then have "x \<in> anc g best" using that by (simp add: append_topo_set m)
      then have "anc g x \<subseteq> anc g best" by (rule gb(6))
      then show ?thesis using gb(3) less.prems(4) by (auto simp: append_topo_set m)
    qed
    have "topo (anc g) ?out"
      using less.prems(4,5,6) topo_sorted_set [OF g, of pick] sub less.prems(2)
      by (auto simp: append_topo_def topo_append)
    moreover have "distinct ?out" "set ?out = {..<dg_len g} - members ?todo"
      using less.prems(2,3,4) sub by (auto simp: append_topo_def mt)
    moreover have "ts_width (dg_len g) ?todo" "members ?todo \<subseteq> {..<dg_len g}"
      using less.prems(1,2) w by (auto simp: mt)
    ultimately have "\<exists>lin. candidate_loop g ?todo (lower_rates g todo pick rates) ?out = Some lin \<and> topo_order g lin"
      using less.hyps [OF small] closed by blast
    then show ?thesis
      using False best by (subst candidate_loop.simps) (simp add: ts_is_empty_iff Let_def flip: pick_def)
  qed
qed

section \<open>Merge and swap passes\<close>

abbreviation flat :: "group list \<Rightarrow> nat list" where
  "flat groups \<equiv> concat (map g_txs groups)"

definition group_ok :: "nat \<Rightarrow> (nat \<Rightarrow> nat set) \<Rightarrow> group \<Rightarrow> bool" where
  "group_ok n D G \<longleftrightarrow> ts_width n (g_set G) \<and> ts_width n (g_deps G)
    \<and> members (g_set G) = set (g_txs G) \<and> members (g_deps G) = (\<Union>t \<in> set (g_txs G). D t)"

lemma group_ok_absorb:
  assumes "group_ok n D cur" "group_ok n D prev"
  shows "group_ok n D (absorb_before cur prev)"
  using assms unfolding group_ok_def absorb_before_def
  by (auto simp: members_union [of n])

lemma place_ok:
  assumes "group_ok n D cur" "\<forall>G \<in> set groups. group_ok n D G" "at \<le> length groups"
    "topo D (flat (take at groups) @ g_txs cur @ flat (drop at groups))"
  shows "(\<forall>G \<in> set (place cur groups at). group_ok n D G) \<and> topo D (flat (place cur groups at))
    \<and> mset (flat (place cur groups at)) = mset (g_txs cur) + mset (flat groups)"
  using assms
proof (induction cur groups at rule: place.induct)
  case (1 cur groups)
  then show ?case by simp
next
  case (2 cur groups at)
  let ?G = "groups ! at"
  have G: "?G \<in> set groups" "group_ok n D ?G" using 2(4,5) by auto
  have split: "take (Suc at) groups = take at groups @ [?G]" "drop at groups = ?G # drop (Suc at) groups"
    using 2(5) by (simp_all add: take_Suc_conv_app_nth Cons_nth_drop_Suc)
  have all: "groups = take at groups @ ?G # drop (Suc at) groups" using 2(5) by (simp add: id_take_nth_drop)
  have t: "topo D (flat (take at groups) @ g_txs ?G @ g_txs cur @ flat (drop (Suc at) groups))"
    using 2(6) by (simp add: split)
  show ?case
  proof (cases "higher_rate (g_feerate cur) (g_feerate ?G)")
    case False
    have "mset (flat groups) = mset (flat (take at groups)) + mset (g_txs ?G) + mset (flat (drop (Suc at) groups))"
      by (subst all) simp
    then show ?thesis
      using False 2(3,4) t G by (auto simp: split dest: in_set_takeD in_set_dropD)
  next
    case True
    note higher = True
    show ?thesis
    proof (cases "ts_overlaps (g_deps cur) (g_set ?G)")
      case True
      let ?rest = "take at groups @ drop (Suc at) groups"
      have r: "\<forall>H \<in> set ?rest. group_ok n D H" using 2(4) by (auto dest: in_set_takeD in_set_dropD)
      have at: "take at ?rest = take at groups" "drop at ?rest = drop (Suc at) groups" "at \<le> length ?rest"
        using 2(5) by simp_all
      have "topo D (flat (take at ?rest) @ g_txs (absorb_before cur ?G) @ flat (drop at ?rest))"
        unfolding at using t by (simp add: absorb_before_def)
      note IH = 2(1) [OF higher True group_ok_absorb [OF 2(3) G(2)] r at(3) this]
      have "mset (g_txs (absorb_before cur ?G)) + mset (flat ?rest) = mset (g_txs cur) + mset (flat groups)"
        by (subst (3) all) (simp add: absorb_before_def)
      with IH higher True show ?thesis by simp
    next
      case False
      have "members (g_deps cur) \<inter> members (g_set ?G) = {}"
        using False ts_overlaps_iff [of n "g_deps cur" "g_set ?G"] 2(3) G(2) by (simp add: group_ok_def)
      then have "\<forall>x \<in> set (g_txs cur). \<forall>y \<in> set (g_txs ?G). y \<notin> D x"
        using 2(3) G(2) by (auto simp: group_ok_def)
      then have "topo D (flat (take at groups) @ g_txs cur @ flat (drop at groups))"
        using topo_swap [OF t] by (simp add: split)
      with 2(2) [OF higher False 2(3,4) _ this] 2(5) higher False show ?thesis by simp
    qed
  qed
qed

lemma pass_fold_ok:
  assumes g: "\<And>i. i \<in> set xs \<Longrightarrow> group_ok n D (mk i)" "\<And>i. g_txs (mk i) = [i]"
    and "\<forall>G \<in> set groups. group_ok n D G" "topo D (flat groups @ xs)"
  shows "topo D (flat (fold (\<lambda>i gs. place (mk i) gs (length gs)) xs groups))
    \<and> mset (flat (fold (\<lambda>i gs. place (mk i) gs (length gs)) xs groups)) = mset (flat groups) + mset xs"
  using assms
proof (induction xs arbitrary: groups)
  case Nil
  then show ?case by simp
next
  case (Cons x xs)
  let ?gs = "place (mk x) groups (length groups)"
  have "topo D (flat (take (length groups) groups) @ g_txs (mk x) @ flat (drop (length groups) groups))"
    using Cons.prems(2,4) by (simp add: topo_append)
  from place_ok [OF _ Cons.prems(3) _ this] Cons.prems(1,2)
  have p: "\<forall>G \<in> set ?gs. group_ok n D G" "topo D (flat ?gs)" "mset (flat ?gs) = {#x#} + mset (flat groups)"
    by simp_all
  have "set (flat ?gs) = insert x (set (flat groups))" using arg_cong [OF p(3), of set_mset] by simp
  then have "topo D (flat ?gs @ xs)" using p(2) Cons.prems(4) by (simp add: topo_append) (auto simp: topo_def)
  from Cons.IH [OF _ Cons.prems(2) p(1) this] Cons.prems(1) p(3) show ?case by simp
qed

lemma fold_write:
  "length xs \<le> length l \<Longrightarrow> fold (\<lambda>(k, x) l. l[k := x]) (enumerate 0 xs) l = xs @ drop (length xs) l"
proof (induction xs rule: rev_induct)
  case (snoc x xs)
  then show ?case
    by (simp add: enumerate_append_eq list_update_append Cons_nth_drop_Suc [symmetric])
qed simp

lemma fold_write_back:
  "length xs \<le> length l \<Longrightarrow>
    fold (\<lambda>(k, x) l. l[length l - 1 - k := x]) (enumerate 0 xs) l = take (length l - length xs) l @ rev xs"
proof (induction xs rule: rev_induct)
  case (snoc x xs)
  then have "take (length l - length xs) l = take (length l - Suc (length xs)) l @ [l ! (length l - Suc (length xs))]"
    by (metis Suc_diff_Suc Suc_le_lessD diff_less length_append_singleton less_le_trans take_Suc_conv_app_nth zero_less_Suc zero_less_diff)
  with snoc show ?case by (simp add: enumerate_append_eq list_update_append)
qed simp

lemma pass_groups_eq:
  "pass_groups g backward lin =
    fold (\<lambda>i gs. place (pass_group g backward i) gs (length gs)) (if backward then rev lin else lin) []"
proof -
  have "map (\<lambda>k. lin ! (if backward then length lin - 1 - k else k)) [0..<length lin] = (if backward then rev lin else lin)"
    by (rule nth_equalityI) (simp_all add: rev_nth)
  moreover have "pass_groups g backward lin = fold (\<lambda>i gs. place (pass_group g backward i) gs (length gs))
      (map (\<lambda>k. lin ! (if backward then length lin - 1 - k else k)) [0..<length lin]) []"
    by (simp add: pass_groups_def fold_map comp_def)
  ultimately show ?thesis by simp
qed

lemma pass_group_ok:
  assumes "graph_ok g" "i < dg_len g"
  shows "group_ok (dg_len g) (if backward then desc g else anc g) (pass_group g backward i)"
  using graph_okD(1,2) [OF assms] assms(2) by (simp add: group_ok_def pass_group_def Let_def)

lemma merge_pass_ok:
  assumes g: "graph_ok g" and t: "topo_order g lin"
  shows "topo_order g (merge_pass g backward lin)"
proof -
  let ?D = "if backward then desc g else anc g" and ?xs = "if backward then rev lin else lin"
  define fl where "fl = flat (pass_groups g backward lin)"
  have conv: "b \<in> desc g a \<longleftrightarrow> a \<in> anc g b" if "a < dg_len g" "b < dg_len g" for a b
    using graph_okD(5) [OF g that(1)] that(2) by blast
  have lin: "set lin = {..<dg_len g}" "distinct lin" "topo (anc g) lin" using t by (simp_all add: topo_order_def)
  have start: "topo ?D ?xs"
    using lin topo_rev [of lin "desc g" "anc g"] conv by simp
  have txs: "g_txs (pass_group g backward i) = [i]" for i by (simp add: pass_group_def Let_def)
  have ok: "group_ok (dg_len g) ?D (pass_group g backward i)" if "i \<in> set ?xs" for i
    by (rule pass_group_ok [OF g]) (use that lin(1) in \<open>simp split: if_splits\<close>)
  have "topo ?D fl \<and> mset fl = mset (flat []) + mset ?xs"
    unfolding fl_def pass_groups_eq by (rule pass_fold_ok [OF ok txs]) (use start in simp_all)
  then have fl: "topo ?D fl" "mset fl = mset lin" by (simp_all split: if_splits)
  then have same: "set fl = {..<dg_len g}" "distinct fl" "length fl = length lin"
    using lin mset_eq_setD mset_eq_imp_distinct_iff mset_eq_length by metis+
  have "merge_pass g backward lin = (if backward then rev fl else fl)"
    using fold_write [of fl lin] fold_write_back [of fl lin] same(3)
    by (simp add: merge_pass_def Let_def flip: fl_def)
  moreover have "topo (anc g) (if backward then rev fl else fl)"
    using fl(1) topo_rev [of fl "anc g" "desc g"] conv same(1) by (auto split: if_splits)
  ultimately show ?thesis using same by (simp add: topo_order_def)
qed

lemma post_linearize_ok: "graph_ok g \<Longrightarrow> topo_order g lin \<Longrightarrow> topo_order g (post_linearize g lin)"
  by (simp add: post_linearize_def merge_pass_ok)

section \<open>Output order\<close>

definition emitted :: "dep_graph \<Rightarrow> txset \<Rightarrow> nat list \<Rightarrow> bool" where
  "emitted g finished out \<longleftrightarrow> ts_width (dg_len g) finished \<and> members finished = set out \<and> distinct out
    \<and> set out \<subseteq> {..<dg_len g} \<and> topo (anc g) out \<and> (\<forall>x \<in> set out. anc g x \<subseteq> set out)"

lemma tx_ready_iff:
  assumes "graph_ok g" "t < dg_len g" "emitted g finished out"
  shows "tx_ready g finished t \<longleftrightarrow> anc g t \<subseteq> insert t (set out)"
proof -
  have w: "ts_width (dg_len g) (dg_ancestors g ! t)" "ts_width (dg_len g) (ts_singleton (dg_len g) t)" "ts_width (dg_len g) finished"
    using graph_okD(1) [OF assms(1,2)] assms(3) by (simp_all add: emitted_def)
  have "members (ts_subtract (dg_ancestors g ! t) (ts_singleton (dg_len g) t)) = anc g t - {t}"
    using members_subtract [OF w(1,2)] assms(2) by simp
  with ts_is_subset_iff [OF ts_width_ops(2) [OF w(1,2)] w(3)] assms(3) show ?thesis
    unfolding tx_ready_def emitted_def by blast
qed

lemma emitted_snoc:
  assumes "emitted g finished out" "t < dg_len g" "t \<notin> set out" "anc g t \<subseteq> insert t (set out)"
  shows "emitted g (ts_insert t finished) (out @ [t])"
  using assms members_insert [of "dg_len g" finished t] unfolding emitted_def
  by (auto simp: topo_append)

lemma emit_chunk_ok:
  assumes g: "graph_ok g" and "emitted g finished out" "ts_width (dg_len g) left" "members left \<subseteq> {..<dg_len g}"
    "members left \<inter> set out = {}" "\<forall>t \<in> members left. anc g t \<subseteq> set out \<union> members left"
  shows "\<exists>finished' out'. emit_chunk g left finished out = Some (finished', out') \<and> emitted g finished' out'
    \<and> set out' = set out \<union> members left"
  using assms(2-)
proof (induction "card (members left)" arbitrary: left finished out rule: less_induct)
  case less
  let ?ready = "filter (tx_ready g finished) (ts_iter left)"
  show ?case
  proof (cases "members left = {}")
    case True
    then have "ts_iter left = []" by (metis set_empty set_ts_iter)
    then show ?thesis using less.prems(1) True by (subst emit_chunk.simps) (simp add: reduce_best_def)
  next
    case False
    then obtain t0 where t0: "t0 \<in> members left" "\<And>t. t \<in> members left \<Longrightarrow> ts_count (dg_ancestors g ! t0) \<le> ts_count (dg_ancestors g ! t)"
      using ex_min_if_finite [of "(\<lambda>t. ts_count (dg_ancestors g ! t)) ` members left"] by (auto simp: not_less)
    then have n0: "t0 < dg_len g" using less.prems(3) by blast
    have "t = t0" if "t \<in> anc g t0" "t \<in> members left" for t
      using anc_count_less [OF g n0 that(1)] t0(2) [OF that(2)] by force
    then have "tx_ready g finished t0"
      using less.prems(5) t0(1) tx_ready_iff [OF g n0 less.prems(1)] by blast
    then have "t0 \<in> set ?ready" using t0(1) by simp
    then obtain t where t: "reduce_best (\<lambda>t b. rank (dg_feerate g ! t) (dg_feerate g ! b)) ?ready = Some t"
      using reduce_best_None [of _ ?ready] by (metis empty_iff list.set(1) option.exhaust)
    then have tl: "t \<in> members left" "tx_ready g finished t" using reduce_best_Some by fastforce+
    then have tn: "t < dg_len g" using less.prems(3) by blast
    have ta: "anc g t \<subseteq> insert t (set out)" using tx_ready_iff [OF g tn less.prems(1)] tl(2) by blast
    let ?left = "ts_subtract left (ts_singleton (dg_len g) t)"
    have ml: "members ?left = members left - {t}"
      using members_subtract [OF less.prems(2) ts_width_singleton] tn by simp
    have small: "card (members ?left) < card (members left)"
      unfolding ml by (rule card_Diff1_less) (use tl(1) in simp_all)
    have "t \<notin> set out" using less.prems(4) tl(1) by blast
    note em = emitted_snoc [OF less.prems(1) tn this ta]
    have "\<exists>finished' out'. emit_chunk g ?left (ts_insert t finished) (out @ [t]) = Some (finished', out')
        \<and> emitted g finished' out' \<and> set out' = set (out @ [t]) \<union> members ?left"
      by (rule less.hyps [OF small em]) (use less.prems tl(1) in \<open>auto simp: ml\<close>)
    then show ?thesis using t tl(1) by (subst emit_chunk.simps) (auto simp: ml)
  qed
qed

section \<open>Chunk lengths\<close>

lemma chunk_merge_lengths: "sum_list (map snd (chunk_merge cur cs)) = snd cur + sum_list (map snd cs)"
  by (induction cur cs rule: chunk_merge.induct) simp_all

lemma chunk_stack_lengths:
  "sum_list (map snd (fold (\<lambda>fr cs. chunk_merge (fr, 1) cs) xs cs)) = length xs + sum_list (map snd cs)"
  by (induction xs arbitrary: cs) (simp_all add: chunk_merge_lengths)

lemma sum_chunk_lengths: "sum_list (chunk_lengths xs) = length xs"
  unfolding chunk_lengths_def chunk_stack_def rev_map [symmetric] sum_list_rev chunk_stack_lengths by simp

fun segments :: "nat list \<Rightarrow> nat list \<Rightarrow> nat list list" where
  "segments lin [] = []"
| "segments lin (len # lens) = take len lin # segments (drop len lin) lens"

lemma concat_segments: "sum_list lens = length lin \<Longrightarrow> concat (segments lin lens) = lin"
  by (induction lin lens rule: segments.induct) auto

lemma fold_insert_members:
  "ts_width n s \<Longrightarrow> set xs \<subseteq> {..<n} \<Longrightarrow> ts_width n (fold ts_insert xs s) \<and> members (fold ts_insert xs s) = members s \<union> set xs"
  by (induction xs arbitrary: s) (auto simp: members_insert [of n])

lemma cut_chunks_segments:
  "set lin \<subseteq> {..<dg_len g} \<Longrightarrow> map (members \<circ> fst) (cut_chunks g lin lens) = map set (segments lin lens)
    \<and> (\<forall>c \<in> set (cut_chunks g lin lens). ts_width (dg_len g) (fst c))"
proof (induction g lin lens rule: cut_chunks.induct)
  case (2 g lin len lens)
  have "set (take len lin) \<subseteq> {..<dg_len g}" "set (drop len lin) \<subseteq> {..<dg_len g}"
    using 2(2) by (auto dest: in_set_takeD in_set_dropD)
  with 2(1) fold_insert_members [OF ts_width_empty, of "take len lin" "dg_len g"] show ?case by (simp add: Let_def)
qed simp

lemma drop_nth_split: "k < length xs \<Longrightarrow> xs = take k xs @ xs ! k # drop (Suc k) xs"
  by (rule id_take_nth_drop)

text \<open>
  What is left of the chunks, as the lists of their members: each depends only on what is out, on
  itself and on the chunks before it.
\<close>

definition layered :: "dep_graph \<Rightarrow> nat set \<Rightarrow> nat list list \<Rightarrow> bool" where
  "layered g A ss \<longleftrightarrow> (\<forall>xs s ys. ss = xs @ s # ys \<longrightarrow> (\<forall>t \<in> set s. anc g t \<subseteq> A \<union> set (concat xs) \<union> set s))"

lemma layeredD: "layered g A ss \<Longrightarrow> ss = xs @ s # ys \<Longrightarrow> t \<in> set s \<Longrightarrow> anc g t \<subseteq> A \<union> set (concat xs) \<union> set s"
  unfolding layered_def by (drule spec [of _ xs], drule spec [of _ s], drule spec [of _ ys]) simp

lemma layered_remove:
  assumes "layered g A (xs @ s # ys)"
  shows "layered g (A \<union> set s) (xs @ ys)"
  unfolding layered_def
proof (intro allI impI ballI)
  fix us v vs t assume eq: "xs @ ys = us @ v # vs" and t: "t \<in> set v"
  consider (left) ws where "xs = us @ v # ws" | (right) ws where "us = xs @ ws" "ys = ws @ v # vs"
  proof -
    from eq obtain ws where "xs = us @ ws \<and> ws @ ys = v # vs \<or> xs @ ws = us \<and> ys = ws @ v # vs"
      by (auto simp only: append_eq_append_conv2)
    then show thesis using that by (cases ws) auto
  qed
  then show "anc g t \<subseteq> A \<union> set s \<union> set (concat us) \<union> set v"
  proof cases
    case left
    then have "xs @ s # ys = us @ v # (ws @ s # ys)" by simp
    from layeredD [OF assms this t] show ?thesis by blast
  next
    case right
    then have "xs @ s # ys = (xs @ s # ws) @ v # vs" by simp
    from layeredD [OF assms this t] show ?thesis by (auto simp: right)
  qed
qed

lemma layered_topo:
  assumes "graph_ok g" "topo_order g (concat ss)"
  shows "layered g {} ss"
  unfolding layered_def
proof (intro allI impI ballI)
  fix xs s ys t assume ss: "ss = xs @ s # ys" and t: "t \<in> set s"
  have "topo (anc g) (concat xs @ s @ concat ys)" and all: "set (concat xs @ s @ concat ys) = {..<dg_len g}"
    using assms(2) by (simp_all add: topo_order_def ss)
  then have "\<forall>y \<in> set (concat ys). y \<notin> anc g t" using t unfolding topo_append set_append by blast
  moreover have "t < dg_len g" using t all by auto
  then have "anc g t \<subseteq> set (concat xs @ s @ concat ys)" using graph_okD(3) [OF assms(1)] all by blast
  ultimately show "anc g t \<subseteq> {} \<union> set (concat xs) \<union> set s" unfolding set_append by blast
qed

lemma chunk_ready_iff:
  assumes "graph_ok g" "ts_width (dg_len g) (fst c)" "members (fst c) \<subseteq> {..<dg_len g}" "emitted g finished out"
  shows "chunk_ready g finished c \<longleftrightarrow> (\<forall>t \<in> members (fst c). anc g t \<subseteq> set out \<union> members (fst c))"
proof -
  have "ts_is_subset (ts_subtract (dg_ancestors g ! t) (fst c)) finished \<longleftrightarrow> anc g t \<subseteq> set out \<union> members (fst c)"
    if "t \<in> members (fst c)" for t
  proof -
    have w: "ts_width (dg_len g) (dg_ancestors g ! t)" using graph_okD(1) [OF assms(1)] assms(3) that by blast
    have f: "ts_width (dg_len g) finished" "members finished = set out" using assms(4) by (simp_all add: emitted_def)
    show ?thesis
      unfolding ts_is_subset_iff [OF ts_width_ops(2) [OF w assms(2)] f(1)] members_subtract [OF w assms(2)] f(2) by blast
  qed
  then show ?thesis by (simp add: chunk_ready_def list_all_iff)
qed

lemma output_loop_ok:
  assumes g: "graph_ok g" and "map (members \<circ> fst) chunks = map set ss" "\<forall>c \<in> set chunks. ts_width (dg_len g) (fst c)"
    "emitted g finished out" "layered g (set out) ss" "set out \<union> set (concat ss) = {..<dg_len g}"
    "distinct (concat ss)" "set out \<inter> set (concat ss) = {}"
  shows "\<exists>lin. output_loop g chunks finished out = Some lin \<and> topo_order g lin"
  using assms(2-)
proof (induction "length chunks" arbitrary: chunks ss finished out)
  case 0
  then have "chunks = []" "ss = []" by simp_all
  then show ?case using 0 by (subst output_loop.simps) (simp add: emitted_def topo_order_def)
next
  case (Suc m)
  let ?ready = "filter (\<lambda>k. chunk_ready g finished (chunks ! k)) [0..<length chunks]"
  have len: "length chunks = length ss" using Suc.prems(1) by (rule map_eq_imp_length_eq)
  have mem: "members (fst (chunks ! k)) = set (ss ! k)" if "k < length ss" for k
    using arg_cong [OF Suc.prems(1), of "\<lambda>xs. xs ! k"] that len by simp
  have wid: "ts_width (dg_len g) (fst (chunks ! k))" if "k < length ss" for k using Suc.prems(2) that len by simp
  have sub: "set (ss ! k) \<subseteq> {..<dg_len g}" if "k < length ss" for k
    using Suc.prems(5) nth_mem [OF that] by auto
  have ready: "chunk_ready g finished (chunks ! k) \<longleftrightarrow> (\<forall>t \<in> set (ss ! k). anc g t \<subseteq> set out \<union> set (ss ! k))" if "k < length ss" for k
    using chunk_ready_iff [OF g wid [OF that] _ Suc.prems(3)] sub [OF that] by (simp add: mem [OF that])
  have pos: "0 < length ss" using Suc.hyps(2) len by (cases ss) simp_all
  have "ss = [] @ ss ! 0 # drop (Suc 0) ss" by (rule drop_nth_split [OF pos, unfolded take_0])
  then have "\<forall>t \<in> set (ss ! 0). anc g t \<subseteq> set out \<union> set (concat []) \<union> set (ss ! 0)"
    using layeredD [OF Suc.prems(4)] by blast
  then have "0 \<in> set ?ready" using pos ready [OF pos] len by simp
  then obtain k where k: "reduce_best (chunk_rank chunks) ?ready = Some k"
    using reduce_best_None [of _ ?ready] by (metis empty_iff list.set(1) option.exhaust)
  then have kr: "k < length ss" "chunk_ready g finished (chunks ! k)" using reduce_best_Some [OF k] len by simp_all
  note split = drop_nth_split [OF kr(1)]
  have parts: "concat ss = concat (take k ss) @ ss ! k @ concat (drop (Suc k) ss)"
    using arg_cong [OF split, of concat] by (simp only: concat_append concat.simps)
  let ?ss = "take k ss @ drop (Suc k) ss" and ?cs = "take k chunks @ drop (Suc k) chunks"
  have cc: "set (concat ss) = set (concat ?ss) \<union> set (ss ! k)" unfolding parts concat_append set_append by blast
  have dist: "distinct (concat ?ss)" "set (concat ?ss) \<inter> set (ss ! k) = {}"
    using Suc.prems(6) unfolding parts concat_append distinct_append set_append by blast+
  have "members (fst (chunks ! k)) \<subseteq> {..<dg_len g}" unfolding mem [OF kr(1)] by (rule sub [OF kr(1)])
  moreover have "members (fst (chunks ! k)) \<inter> set out = {}" unfolding mem [OF kr(1)] using Suc.prems(7) cc by blast
  moreover have "\<forall>t \<in> members (fst (chunks ! k)). anc g t \<subseteq> set out \<union> members (fst (chunks ! k))"
    unfolding mem [OF kr(1)] by (rule iffD1 [OF ready [OF kr(1)] kr(2)])
  ultimately obtain fin' out' where e: "emit_chunk g (fst (chunks ! k)) finished out = Some (fin', out')" "emitted g fin' out'"
    "set out' = set out \<union> set (ss ! k)"
    using emit_chunk_ok [OF g Suc.prems(3) wid [OF kr(1)]] unfolding mem [OF kr(1)] by metis
  have "\<exists>lin. output_loop g ?cs fin' out' = Some lin \<and> topo_order g lin"
  proof (rule Suc.hyps(1))
    show "m = length ?cs" using Suc.hyps(2) kr(1) len by simp
    show "map (members \<circ> fst) ?cs = map set ?ss"
      by (simp only: map_append take_map [symmetric] drop_map [symmetric] Suc.prems(1))
    show "\<forall>c \<in> set ?cs. ts_width (dg_len g) (fst c)" using Suc.prems(2) by (auto dest: in_set_takeD in_set_dropD)
    show "emitted g fin' out'" by (rule e(2))
    show "layered g (set out') ?ss" unfolding e(3)
      by (rule layered_remove, subst split [symmetric], rule Suc.prems(4))
    show "set out' \<union> set (concat ?ss) = {..<dg_len g}" using Suc.prems(5) cc e(3) by blast
    show "distinct (concat ?ss)" by (rule dist(1))
    show "set out' \<inter> set (concat ?ss) = {}" using Suc.prems(7) cc e(3) dist(2) by blast
  qed
  moreover have "chunks \<noteq> []" using Suc.hyps(2) by auto
  ultimately show ?case
    by (subst output_loop.simps) (simp only: k e(1) if_False option.case Option.bind.bind_lunit prod.case)
qed

section \<open>The whole pipeline\<close>

lemma output_order_ok:
  assumes "graph_ok g" "topo_order g lin"
  shows "\<exists>out. output_order g lin = Some out \<and> topo_order g out"
proof -
  let ?lens = "chunk_lengths (map (\<lambda>i. dg_feerate g ! i) lin)"
  have flat: "concat (segments lin ?lens) = lin" by (rule concat_segments) (simp add: sum_chunk_lengths)
  have lin: "set lin = {..<dg_len g}" "distinct lin" using assms(2) by (simp_all add: topo_order_def)
  note cut = cut_chunks_segments [of lin g ?lens]
  show ?thesis
    unfolding output_order_def
    by (rule output_loop_ok [OF assms(1), where ss = "segments lin ?lens"])
      (use cut lin layered_topo [OF assms(1), of "segments lin ?lens"] assms(2) flat in \<open>simp_all add: emitted_def topo_def\<close>)
qed

lemma linearize_ok:
  assumes "graph_ok g"
  shows "\<exists>lin. linearize g = Some lin \<and> topo_order g lin"
proof -
  let ?n = "dg_len g" and ?todo = "fold ts_insert [0..<dg_len g] (ts_empty (dg_len g))"
  have todo: "ts_width ?n ?todo" "members ?todo = {..<?n}"
    using fold_insert_members [OF ts_width_empty, of "[0..<?n]" ?n] by (auto simp: atLeast0LessThan)
  obtain out where out: "candidate_loop g ?todo (map (set_feerate g) (dg_ancestors g)) [] = Some out" "topo_order g out"
    using candidate_loop_ok [OF assms todo(1), of "[]" "map (set_feerate g) (dg_ancestors g)"] todo(2) by (auto simp: topo_def)
  from output_order_ok [OF assms post_linearize_ok [OF assms out(2)]] out(1) show ?thesis
    by (simp add: linearize_def Let_def)
qed

end
