(* ===== verification/DepGraph.thy ===== *)
theory DepGraph
  imports LinearProps
begin

text \<open>
  The constructor of the dependency graph: on acyclic parents the stack loop visits every
  transaction once and the ancestor sets are the reflexive transitive closure.
\<close>

section \<open>Children\<close>

lemma count_list_replicate_eq: "count_list (replicate m i) c = (if i = c then m else 0)"
  by (induction m) auto

lemma count_list_append_eq: "count_list (xs @ ys) c = count_list xs c + count_list ys c"
  by (induction xs) auto

lemma count_concat_replicate:
  "distinct xs \<Longrightarrow> count_list (concat (map (\<lambda>i. replicate (f i) i) xs)) c = (if c \<in> set xs then f c else 0)"
  by (induction xs) (auto simp: count_list_append_eq count_list_replicate_eq)

lemma fold_push:
  "\<forall>p \<in> set ps. p < length ch \<Longrightarrow> q < length ch \<Longrightarrow>
    fold (\<lambda>p ch. ch[p := ch ! p @ [i]]) ps ch ! q = ch ! q @ replicate (count_list ps q) i
    \<and> length (fold (\<lambda>p ch. ch[p := ch ! p @ [i]]) ps ch) = length ch"
proof (induction ps arbitrary: ch)
  case (Cons p ps)
  from Cons.IH [of "ch[p := ch ! p @ [i]]"] Cons.prems show ?case
    by (cases "p = q") (auto simp flip: replicate_append_same)
qed simp

lemma children_of_nth:
  assumes "q < n"
  shows "children_of n parents ! q = concat (map (\<lambda>i. replicate (count_list (parents_of n parents i) q) i) [0..<n])"
proof -
  have "fold (\<lambda>i ch. fold (\<lambda>p ch. ch[p := ch ! p @ [i]]) (parents_of n parents i) ch) xs ch ! q =
      ch ! q @ concat (map (\<lambda>i. replicate (count_list (parents_of n parents i) q) i) xs)" if "length ch = n" for xs ch
    using that
  proof (induction xs arbitrary: ch)
    case (Cons i xs)
    have "\<forall>p \<in> set (parents_of n parents i). p < length ch" using Cons.prems by (auto simp: parents_of_def)
    note push = fold_push [OF this, of q i]
    from Cons.IH [of "fold (\<lambda>p ch. ch[p := ch ! p @ [i]]) (parents_of n parents i) ch"] push Cons.prems assms
    show ?case by simp
  qed simp
  from this [of "replicate n []" "[0..<n]"] assms show ?thesis by (simp add: children_of_def)
qed

lemma children_of_count:
  "q < n \<Longrightarrow> c < n \<Longrightarrow> count_list (children_of n parents ! q) c = count_list (parents_of n parents c) q"
  by (simp add: children_of_nth count_concat_replicate)

lemma children_of_set: "q < n \<Longrightarrow> set (children_of n parents ! q) = {c. c < n \<and> q \<in> set (parents_of n parents c)}"
  by (auto simp: children_of_nth set_replicate_conv_if count_list_0_iff split: if_splits)

section \<open>One round\<close>

definition relaxed :: "nat \<Rightarrow> nat \<Rightarrow> nat list \<Rightarrow> txset list \<Rightarrow> nat list \<Rightarrow> txset list \<Rightarrow> nat list \<Rightarrow> nat list \<Rightarrow> bool" where
  "relaxed n p cs ancestors pending ancestors' pending' new \<longleftrightarrow>
    length ancestors' = n \<and> length pending' = n \<and> (\<forall>c < n. ts_width n (ancestors' ! c))
    \<and> (\<forall>c < n. pending' ! c = pending ! c - count_list cs c)
    \<and> (\<forall>c < n. members (ancestors' ! c) = members (ancestors ! c) \<union> (if c \<in> set cs then members (ancestors ! p) else {}))
    \<and> distinct new \<and> set new = {c. c \<in> set cs \<and> pending ! c = count_list cs c}"

lemma relax_ok:
  assumes "\<forall>c \<in> set cs. c < n \<and> c \<noteq> p \<and> count_list cs c \<le> pending ! c" "length ancestors = n" "length pending = n" "p < n"
    "\<forall>c < n. ts_width n (ancestors ! c)"
  shows "\<exists>ancestors' pending' new. relax p cs ancestors pending ready = Some (ancestors', pending', ready @ new)
    \<and> relaxed n p cs ancestors pending ancestors' pending' new"
  using assms
proof (induction cs arbitrary: ancestors pending ready)
  case Nil
  then show ?case by (simp add: relaxed_def)
next
  case (Cons c cs)
  define a1 pd1 r1 where "a1 = ancestors[c := ts_union (ancestors ! c) (ancestors ! p)]" and "pd1 = pending[c := pending ! c - 1]"
    and "r1 = (if pending ! c - 1 = 0 then ready @ [c] else ready)"
  have c: "c < n" "c \<noteq> p" "Suc (count_list cs c) \<le> pending ! c" using Cons.prems(1) by simp_all
  have pdn: "pd1 ! d = (if d = c then pending ! c - 1 else pending ! d)" for d
    using c(1) Cons.prems(3) by (simp add: pd1_def)
  have an: "a1 ! d = (if d = c then ts_union (ancestors ! c) (ancestors ! p) else ancestors ! d)" for d
    using c(1) Cons.prems(2) by (simp add: a1_def)
  have p1: "\<forall>d \<in> set cs. d < n \<and> d \<noteq> p \<and> count_list cs d \<le> pd1 ! d"
  proof
    fix d assume d: "d \<in> set cs"
    with Cons.prems(1) have "d < n" "d \<noteq> p" "count_list (c # cs) d \<le> pending ! d" by simp_all
    then show "d < n \<and> d \<noteq> p \<and> count_list cs d \<le> pd1 ! d"
      unfolding pdn by (cases "d = c") auto
  qed
  have wc: "ts_width n (ancestors ! c)" "ts_width n (ancestors ! p)" using Cons.prems(4,5) c(1) by blast+
  have w: "\<forall>d < n. ts_width n (a1 ! d)" unfolding an using wc Cons.prems(5) by simp
  have l: "length a1 = n" "length pd1 = n" using Cons.prems(2,3) by (simp_all add: a1_def pd1_def)
  from Cons.IH [OF p1 l Cons.prems(4) w, of r1] obtain a' pd' new where IH1: "relax p cs a1 pd1 r1 = Some (a', pd', r1 @ new)"
    and IH: "relaxed n p cs a1 pd1 a' pd' new" by blast
  note IH = IH [unfolded relaxed_def, THEN conjunct1] IH [unfolded relaxed_def, THEN conjunct2]
  note IH = IH(1) conjunct1 [OF IH(2)] conjunct2 [OF IH(2)]
  note IH = IH(1,2) conjunct1 [OF IH(3)] conjunct2 [OF IH(3)]
  note IH = IH(1-3) conjunct1 [OF IH(4)] conjunct2 [OF IH(4)]
  note IH = IH(1-4) conjunct1 [OF IH(5)] conjunct2 [OF IH(5)]
  note IH = IH1 IH(1-5) conjunct1 [OF IH(6)] conjunct2 [OF IH(6)]
  let ?new = "if pending ! c - 1 = 0 then c # new else new"
  have "r1 @ new = ready @ ?new" by (simp add: r1_def)
  then have 1: "relax p (c # cs) ancestors pending ready = Some (a', pd', ready @ ?new)"
    using IH(1) c(3) pdn [of c] unfolding relax.simps Let_def a1_def [symmetric] pd1_def [symmetric] by (simp add: r1_def)
  have 2: "\<forall>d < n. pd' ! d = pending ! d - count_list (c # cs) d"
    using IH(5) unfolding pdn by simp
  have 3: "\<forall>d < n. members (a' ! d) = members (ancestors ! d) \<union> (if d \<in> set (c # cs) then members (ancestors ! p) else {})"
  proof (intro allI impI)
    fix d assume "d < n"
    then have "members (a' ! d) = members (a1 ! d) \<union> (if d \<in> set cs then members (ancestors ! p) else {})"
      using IH(6) an [of p] c(2) by simp
    then show "members (a' ! d) = members (ancestors ! d) \<union> (if d \<in> set (c # cs) then members (ancestors ! p) else {})"
      unfolding an using members_union [OF wc] by (cases "d = c") auto
  qed
  define Q where "Q d \<longleftrightarrow> pending ! d = count_list (c # cs) d" for d
  have "pd1 ! d = count_list cs d \<longleftrightarrow> Q d" if "d \<in> set cs" for d
    using c(3) pdn [of d] unfolding Q_def by (cases "d = c") (simp_all, linarith)
  then have new: "set new = {d. d \<in> set cs \<and> Q d}" unfolding IH(8) by (intro Collect_cong conj_cong refl)
  have zero: "c \<notin> set cs \<longleftrightarrow> count_list cs c = 0" by (simp add: count_list_0_iff)
  have 4: "distinct ?new \<and> set ?new = {d. d \<in> set (c # cs) \<and> Q d}"
  proof (cases "pending ! c - 1 = 0")
    case True
    then have "c \<notin> set cs" "Q c" unfolding Q_def zero using c(3) by simp_all
    then show ?thesis using True IH(7) new by auto
  next
    case False
    then have "\<not> Q c" if "c \<notin> set cs" using that unfolding Q_def zero by simp
    then show ?thesis using False IH(7) new by auto
  qed
  note 4 = 4 [unfolded Q_def]
  have "relaxed n p (c # cs) ancestors pending a' pd' ?new"
    unfolding relaxed_def by (intro conjI IH(2-4) 2 3 conjunct1 [OF 4] conjunct2 [OF 4])
  with 1 show ?case by blast
qed

section \<open>The stack loop\<close>

definition edges :: "nat \<Rightarrow> nat list list \<Rightarrow> (nat \<times> nat) set" where
  "edges n parents = {(p, c). c < n \<and> p \<in> set (parents_of n parents c)}"

definition closure :: "nat \<Rightarrow> nat list list \<Rightarrow> nat \<Rightarrow> nat set" where
  "closure n parents c = {p. (p, c) \<in> (edges n parents)\<^sup>*}"

lemma parents_of_less: "p \<in> set (parents_of n parents c) \<Longrightarrow> p < n \<and> p \<noteq> c"
  by (simp add: parents_of_def)

lemma closure_unfold:
  assumes "c < n"
  shows "closure n parents c = insert c (\<Union>p \<in> set (parents_of n parents c). closure n parents p)"
proof -
  have "(q, c) \<in> (edges n parents)\<^sup>* \<longleftrightarrow> q = c \<or> (\<exists>p \<in> set (parents_of n parents c). (q, p) \<in> (edges n parents)\<^sup>*)" for q
    using assms by (subst rtrancl_unfold) (auto simp: edges_def relcomp_unfold)
  then show ?thesis by (auto simp: closure_def)
qed

lemma closure_less: "c < n \<Longrightarrow> closure n parents c \<subseteq> {..<n}"
proof
  fix p assume "c < n" "p \<in> closure n parents c"
  then have "(p, c) \<in> (edges n parents)\<^sup>*" by (simp add: closure_def)
  then show "p \<in> {..<n}" using \<open>c < n\<close>
    by (induction rule: converse_rtrancl_induct) (auto simp: edges_def dest: parents_of_less)
qed

text \<open>The state of the loop after the positions in \<open>P\<close> were popped.\<close>

definition loop_ok :: "nat \<Rightarrow> nat list list \<Rightarrow> nat set \<Rightarrow> txset list \<Rightarrow> nat list \<Rightarrow> nat list \<Rightarrow> bool" where
  "loop_ok n parents P ancestors pending ready \<longleftrightarrow>
    length ancestors = n \<and> length pending = n \<and> P \<subseteq> {..<n} \<and> distinct ready \<and> (\<forall>c \<in> P. pending ! c = 0)
    \<and> set ready = {c. c < n \<and> c \<notin> P \<and> pending ! c = 0}
    \<and> (\<forall>c < n. ts_width n (ancestors ! c) \<and> pending ! c = length (filter (\<lambda>p. p \<notin> P) (parents_of n parents c))
        \<and> members (ancestors ! c) = insert c (\<Union>p \<in> set (parents_of n parents c) \<inter> P. closure n parents p))"

lemma length_filter_insert:
  "p \<notin> P \<Longrightarrow> length (filter (\<lambda>q. q \<notin> insert p P) xs) = length (filter (\<lambda>q. q \<notin> P) xs) - count_list xs p
    \<and> count_list xs p \<le> length (filter (\<lambda>q. q \<notin> P) xs)"
  by (induction xs) auto

lemma loop_ok_step:
  assumes ok: "loop_ok n parents P ancestors pending (ready @ [p])"
  shows "\<exists>ancestors' pending' ready'. relax p (children_of n parents ! p) ancestors pending ready = Some (ancestors', pending', ready')
    \<and> loop_ok n parents (insert p P) ancestors' pending' ready'"
proof -
  let ?cs = "children_of n parents ! p"
  have p: "p < n" "p \<notin> P" "pending ! p = 0" using ok by (auto simp: loop_ok_def)
  have len: "length ancestors = n" "length pending = n" using ok by (simp_all add: loop_ok_def)
  have st: "ts_width n (ancestors ! c)" "pending ! c = length (filter (\<lambda>p. p \<notin> P) (parents_of n parents c))"
    "members (ancestors ! c) = insert c (\<Union>p \<in> set (parents_of n parents c) \<inter> P. closure n parents p)" if "c < n" for c
    using ok that by (simp_all add: loop_ok_def)
  have cnt: "count_list ?cs c = count_list (parents_of n parents c) p" if "c < n" for c by (rule children_of_count [OF p(1) that])
  have cs: "set ?cs = {c. c < n \<and> p \<in> set (parents_of n parents c)}" by (rule children_of_set [OF p(1)])
  have le: "count_list ?cs c \<le> pending ! c" if "c < n" for c
    using length_filter_insert [OF p(2)] by (simp add: cnt [OF that] st(2) [OF that])
  have pre: "\<forall>c \<in> set ?cs. c < n \<and> c \<noteq> p \<and> count_list ?cs c \<le> pending ! c" using cs le parents_of_less [of p n parents p] by auto
  have wid: "\<forall>c < n. ts_width n (ancestors ! c)" using st(1) by blast
  from relax_ok [OF pre len p(1) wid, of ready] obtain a' pd' new where r1: "relax p ?cs ancestors pending ready = Some (a', pd', ready @ new)"
    and r: "relaxed n p ?cs ancestors pending a' pd' new" by blast
  have r2: "length a' = n" "length pd' = n" and r4: "\<And>c. c < n \<Longrightarrow> ts_width n (a' ! c)"
    and r5: "\<And>c. c < n \<Longrightarrow> pd' ! c = pending ! c - count_list ?cs c"
    and r6: "\<And>c. c < n \<Longrightarrow> members (a' ! c) = members (ancestors ! c) \<union> (if c \<in> set ?cs then members (ancestors ! p) else {})"
    and r7: "distinct new" "set new = {c. c \<in> set ?cs \<and> pending ! c = count_list ?cs c}"
    using r unfolding relaxed_def by simp_all
  have "set (parents_of n parents p) \<subseteq> P" using st(2) [OF p(1)] p(3) by (auto simp: filter_empty_conv)
  then have full: "members (ancestors ! p) = closure n parents p"
    using st(3) [OF p(1)] closure_unfold [OF p(1), of parents] by (simp add: inf_absorb1)
  have pend: "pd' ! c = length (filter (\<lambda>q. q \<notin> insert p P) (parents_of n parents c))" if "c < n" for c
    using r5 [OF that] length_filter_insert [OF p(2), of "parents_of n parents c"] by (simp only: cnt [OF that] st(2) [OF that])
  have mem: "members (a' ! c) = insert c (\<Union>q \<in> set (parents_of n parents c) \<inter> insert p P. closure n parents q)" if "c < n" for c
  proof (cases "p \<in> set (parents_of n parents c)")
    case True
    then have "c \<in> set ?cs" using cs that by simp
    then show ?thesis using True r6 [OF that] by (simp add: st(3) [OF that] full Un_commute)
  next
    case False
    then have "c \<notin> set ?cs" using cs by simp
    then show ?thesis using False r6 [OF that] by (simp add: st(3) [OF that])
  qed
  have old: "set (ready @ [p]) = {c. c < n \<and> c \<notin> P \<and> pending ! c = 0}" "distinct (ready @ [p])" "P \<subseteq> {..<n}" "\<forall>c \<in> P. pending ! c = 0"
    using ok unfolding loop_ok_def by blast+
  have zero: "c \<notin> set ?cs" if "c < n" "pending ! c = 0" for c using le [OF that(1)] that(2) by (simp add: count_list_0_iff)
  have "c \<in> set (ready @ new) \<longleftrightarrow> c < n \<and> c \<notin> insert p P \<and> pd' ! c = 0" for c
  proof (cases "c < n \<and> pending ! c \<noteq> 0")
    case True
    then have "c \<notin> set (ready @ [p])" "c \<notin> insert p P" using old(1,4) p(3) by auto
    moreover have "c \<in> set ?cs \<and> pending ! c = count_list ?cs c \<longleftrightarrow> pd' ! c = 0"
      using True r5 [of c] le [of c] count_list_0_iff [of ?cs c] by auto
    ultimately show ?thesis using True r7(2) by simp
  next
    case False
    then have "c \<notin> set new" using zero r7(2) cs by auto
    moreover have "pd' ! c = 0" if "c < n" using False r5 [OF that] that by simp
    moreover have "c \<in> set ready \<longleftrightarrow> c < n \<and> c \<notin> insert p P"
      using False old(1,2) by auto
    ultimately show ?thesis by auto
  qed
  then have ready: "set (ready @ new) = {c. c < n \<and> c \<notin> insert p P \<and> pd' ! c = 0}" by blast
  have "set ready \<inter> set new = {}" using zero old(1) r7(2) by auto
  then have dist: "distinct (ready @ new)" using old(2) r7(1) by simp
  have popped: "\<forall>c \<in> insert p P. pd' ! c = 0" using r5 old(3,4) p by auto
  have "loop_ok n parents (insert p P) a' pd' (ready @ new)"
    unfolding loop_ok_def using r2 r4 pend mem ready dist popped old(3) p(1) by simp
  with r1 show ?thesis by blast
qed

lemma ready_loop_ok:
  assumes acyclic: "acyclic (edges n parents)" and "loop_ok n parents P ancestors pending ready"
  shows "\<exists>ancestors'. ready_loop (children_of n parents) ancestors pending ready = Some ancestors' \<and> length ancestors' = n
    \<and> (\<forall>c < n. ts_width n (ancestors' ! c) \<and> members (ancestors' ! c) = closure n parents c)"
  using assms(2)
proof (induction "n - card P" arbitrary: P ancestors pending ready rule: less_induct)
  case less
  have sub: "P \<subseteq> {..<n}" using less.prems by (simp add: loop_ok_def)
  show ?case
  proof (cases ready rule: rev_cases)
    case Nil
    have "finite (edges n parents)"
      by (rule finite_subset [of _ "{..<n} \<times> {..<n}"]) (auto simp: edges_def dest: parents_of_less)
    then have wf: "wf (edges n parents)" using acyclic by (rule finite_acyclic_wf)
    have "c < n \<longrightarrow> c \<in> P" for c
    proof (induction c rule: wf_induct [OF wf])
      case (1 c)
      then have "set (parents_of n parents c) \<subseteq> P" if "c < n" using that by (auto simp: edges_def dest: parents_of_less)
      then have "pending ! c = 0" if "c < n" using that less.prems by (auto simp: loop_ok_def filter_empty_conv)
      then show ?case using less.prems Nil by (auto simp: loop_ok_def)
    qed
    then have "set (parents_of n parents c) \<inter> P = set (parents_of n parents c)" for c by (auto dest: parents_of_less)
    then have "members (ancestors ! c) = closure n parents c" if "c < n" for c
      using less.prems that closure_unfold [OF that] by (simp add: loop_ok_def)
    then show ?thesis using less.prems Nil by (subst ready_loop.simps) (simp add: loop_ok_def)
  next
    case (snoc rest p)
    obtain a' pd' r' where step: "relax p (children_of n parents ! p) ancestors pending rest = Some (a', pd', r')"
      "loop_ok n parents (insert p P) a' pd' r'"
      using loop_ok_step [OF less.prems [unfolded snoc]] by blast
    have p: "p < n" "p \<notin> P" using less.prems snoc by (auto simp: loop_ok_def)
    have fin: "finite P" using sub finite_subset by blast
    have "insert p P \<subseteq> {..<n}" using sub p(1) by simp
    then have "card (insert p P) \<le> n" using card_mono [of "{..<n}" "insert p P"] by simp
    then have "n - card (insert p P) < n - card P" using p(2) fin by simp
    from less.hyps [OF this step(2)] step(1) snoc show ?thesis
      by (subst ready_loop.simps) (simp add: Let_def)
  qed
qed

section \<open>Descendants\<close>

lemma fold_insert_at:
  assumes "i < n" "\<forall>a < n. ts_width n (d ! a)" "length d = n" "\<forall>a \<in> set as. a < n"
  shows "length (fold (\<lambda>a d. d[a := ts_insert i (d ! a)]) as d) = n
    \<and> (\<forall>b < n. ts_width n (fold (\<lambda>a d. d[a := ts_insert i (d ! a)]) as d ! b)
        \<and> members (fold (\<lambda>a d. d[a := ts_insert i (d ! a)]) as d ! b) = members (d ! b) \<union> (if b \<in> set as then {i} else {}))"
  using assms(2-)
proof (induction as arbitrary: d)
  case (Cons a as)
  let ?d = "d[a := ts_insert i (d ! a)]"
  have a: "a < n" "ts_width n (d ! a)" using Cons.prems by simp_all
  have nth: "?d ! b = (if b = a then ts_insert i (d ! a) else d ! b)" for b using a Cons.prems(2) by simp
  have "\<forall>b < n. ts_width n (?d ! b)" unfolding nth using Cons.prems(1) by simp
  from Cons.IH [OF this] Cons.prems(2,3) have IH: "length (fold (\<lambda>a d. d[a := ts_insert i (d ! a)]) as ?d) = n
    \<and> (\<forall>b < n. ts_width n (fold (\<lambda>a d. d[a := ts_insert i (d ! a)]) as ?d ! b)
        \<and> members (fold (\<lambda>a d. d[a := ts_insert i (d ! a)]) as ?d ! b) = members (?d ! b) \<union> (if b \<in> set as then {i} else {}))"
    by simp
  have "members (?d ! b) = members (d ! b) \<union> (if b = a then {i} else {})" for b
    unfolding nth using members_insert [OF a(2) assms(1)] by simp
  with IH show ?case by auto
qed simp

lemma fold_descendants:
  assumes "\<forall>(i, s) \<in> set prs. i < n \<and> members s \<subseteq> {..<n}" "\<forall>a < n. ts_width n (d ! a)" "length d = n"
  shows "length (fold (\<lambda>(i, s) d. fold (\<lambda>a d. d[a := ts_insert i (d ! a)]) (ts_iter s) d) prs d) = n
    \<and> (\<forall>b < n. ts_width n (fold (\<lambda>(i, s) d. fold (\<lambda>a d. d[a := ts_insert i (d ! a)]) (ts_iter s) d) prs d ! b)
      \<and> members (fold (\<lambda>(i, s) d. fold (\<lambda>a d. d[a := ts_insert i (d ! a)]) (ts_iter s) d) prs d ! b)
        = members (d ! b) \<union> {i. \<exists>s. (i, s) \<in> set prs \<and> b \<in> members s})"
  using assms
proof (induction prs arbitrary: d)
  case (Cons pr prs)
  obtain i s where pr: "pr = (i, s)" by (cases pr)
  let ?d = "fold (\<lambda>a d. d[a := ts_insert i (d ! a)]) (ts_iter s) d"
  have "i < n" "\<forall>a \<in> set (ts_iter s). a < n" using Cons.prems(1) by (auto simp: pr)
  note one = fold_insert_at [OF this(1) Cons.prems(2,3) this(2)]
  have "\<forall>(i, s) \<in> set prs. i < n \<and> members s \<subseteq> {..<n}" using Cons.prems(1) by simp
  from Cons.IH [OF this, of ?d] one show ?case by (auto simp: pr)
qed simp

lemma descendants_of_ok:
  assumes "length ancestors = n" "\<forall>c < n. members (ancestors ! c) \<subseteq> {..<n}"
  shows "length (descendants_of n ancestors) = n \<and> (\<forall>b < n. ts_width n (descendants_of n ancestors ! b)
    \<and> members (descendants_of n ancestors ! b) = {i. i < n \<and> b \<in> members (ancestors ! i)})"
proof -
  have "\<forall>(i, s) \<in> set (enumerate 0 ancestors). i < n \<and> members s \<subseteq> {..<n}"
    using assms(2) unfolding assms(1) [symmetric] by (auto simp: in_set_enumerate_eq) (meson lessThan_iff subsetD)
  from fold_descendants [OF this, of "replicate n (ts_empty n)"] show ?thesis
    unfolding descendants_of_def using assms(1) by (auto simp: in_set_enumerate_eq)
qed

section \<open>The constructor\<close>

lemma initial_loop_ok:
  "loop_ok n parents {} (map (ts_singleton n) [0..<n]) (map (\<lambda>i. length (parents_of n parents i)) [0..<n])
    (filter (\<lambda>i. map (\<lambda>i. length (parents_of n parents i)) [0..<n] ! i = 0) [0..<n])"
  by (auto simp: loop_ok_def)

lemma dep_graph_new_ok:
  assumes "length feerate \<le> length parents" "acyclic (edges (length feerate) parents)"
  shows "\<exists>g. dep_graph_new feerate parents = Some g \<and> dg_feerate g = feerate
    \<and> length (dg_ancestors g) = length feerate \<and> length (dg_descendants g) = length feerate
    \<and> (\<forall>c < length feerate. ts_width (length feerate) (dg_ancestors g ! c) \<and> ts_width (length feerate) (dg_descendants g ! c)
      \<and> anc g c = closure (length feerate) parents c
      \<and> desc g c = {i. i < length feerate \<and> c \<in> closure (length feerate) parents i})"
proof -
  let ?n = "length feerate"
  obtain a where a: "ready_loop (children_of ?n parents) (map (ts_singleton ?n) [0..<?n])
      (map (\<lambda>i. length (parents_of ?n parents i)) [0..<?n])
      (filter (\<lambda>i. map (\<lambda>i. length (parents_of ?n parents i)) [0..<?n] ! i = 0) [0..<?n]) = Some a" "length a = ?n"
    "\<forall>c < ?n. ts_width ?n (a ! c) \<and> members (a ! c) = closure ?n parents c"
    using ready_loop_ok [OF assms(2) initial_loop_ok] by blast
  have "\<forall>c < ?n. members (a ! c) \<subseteq> {..<?n}" using a(3) closure_less by simp
  from descendants_of_ok [OF a(2) this] a have d: "length (descendants_of ?n a) = ?n"
    "\<forall>c < ?n. ts_width ?n (descendants_of ?n a ! c)
      \<and> members (descendants_of ?n a ! c) = {i. i < ?n \<and> c \<in> closure ?n parents i}" by auto
  show ?thesis
    using a d assms(1) by (intro exI [of _ "\<lparr>dg_feerate = feerate, dg_ancestors = a, dg_descendants = descendants_of ?n a\<rparr>"])
      (simp add: dep_graph_new_def Let_def)
qed

lemma graph_ok_closure:
  assumes acyclic: "acyclic (edges n parents)" and n: "dg_len g = n"
    and len: "length (dg_ancestors g) = n" "length (dg_descendants g) = n"
    and sets: "\<forall>c < n. ts_width n (dg_ancestors g ! c) \<and> ts_width n (dg_descendants g ! c)
      \<and> anc g c = closure n parents c \<and> desc g c = {i. i < n \<and> c \<in> closure n parents i}"
  shows "graph_ok g"
proof -
  have anti: "i = j" if "(i, j) \<in> (edges n parents)\<^sup>*" "(j, i) \<in> (edges n parents)\<^sup>*" for i j
    using acyclic_impl_antisym_rtrancl [OF acyclic] that by (auto simp: antisym_def)
  have trans: "closure n parents j \<subseteq> closure n parents i \<and> (i \<in> closure n parents j \<longrightarrow> i = j)"
    if "j \<in> closure n parents i" for i j
    using that by (auto simp: closure_def intro: anti)
  have "j < n" if "j \<in> closure n parents i" "i < n" for i j using closure_less that by blast
  then have sub: "\<forall>i < n. \<forall>j \<in> anc g i. anc g j \<subseteq> anc g i \<and> (i \<in> anc g j \<longrightarrow> i = j)" using sets trans by simp
  have self: "i \<in> closure n parents i" for i by (simp add: closure_def)
  show ?thesis unfolding graph_ok_def n using len sets sub self closure_less by auto
qed

text \<open>C10. On acyclic parents the constructor of the dependency graph returns, without counting below
  zero, and its ancestor and descendant sets are exactly the reflexive transitive closure of the
  in-range parent relation and its converse.\<close>

theorem dep_graph_new_closure:
  assumes "length feerate \<le> length parents" "acyclic (edges (length feerate) parents)"
  shows "\<exists>g. dep_graph_new feerate parents = Some g \<and> dg_feerate g = feerate
    \<and> (\<forall>c < length feerate. members (dg_ancestors g ! c) = {p. (p, c) \<in> (edges (length feerate) parents)\<^sup>*}
      \<and> members (dg_descendants g ! c) = {d. d < length feerate \<and> (c, d) \<in> (edges (length feerate) parents)\<^sup>*})"
  using dep_graph_new_ok [OF assms] by (auto simp: closure_def)

lemma chain_acyclic: "acyclic (edges 3 [[2], [0], []])"
proof (rule acyclicI_order [of _ "\<lambda>i. if i = 2 then 2 else if i = 0 then 1 else (0::nat)"])
  fix a b assume "(a, b) \<in> edges 3 [[2], [0], []]"
  then have "b = 0 \<and> a = 2 \<or> b = 1 \<and> a = 0"
    by (cases "b = 0"; cases "b = 1"; cases "b = 2") (auto simp: edges_def parents_of_def)
  then show "(if b = 2 then 2 else if b = 0 then 1 else 0) < (if a = 2 then 2 else if a = 0 then 1 else (0::nat))" by auto
qed

lemma dep_graph_new_closure_witness:
  "\<exists>g. dep_graph_new [ff_new 100 10, ff_new 900 10, ff_new 50 10] [[2], [0], []] = Some g
    \<and> (2, 1) \<in> (edges 3 [[2], [0], []])\<^sup>* \<and> 2 \<in> members (dg_ancestors g ! 1)"
proof -
  let ?E = "edges 3 [[2], [0], []]"
  have "(2, 0) \<in> ?E" "(0, 1) \<in> ?E" by (simp_all add: edges_def parents_of_def)
  then have "(2, 1) \<in> ?E\<^sup>*" by (meson rtrancl.rtrancl_refl rtrancl.rtrancl_into_rtrancl)
  then show ?thesis
    using dep_graph_new_closure [of "[ff_new 100 10, ff_new 900 10, ff_new 50 10]" "[[2], [0], []]"] chain_acyclic
    by (auto simp: numeral_3_eq_3)
qed

text \<open>C8. Linearisation of an acyclic cluster returns, and its result is a permutation of the
  cluster in which no transaction comes after one of its descendants: every ancestor of a
  transaction is placed before it.\<close>

theorem linearize_topological:
  assumes "length feerate \<le> length parents" "acyclic (edges (length feerate) parents)"
  shows "\<exists>g lin. dep_graph_new feerate parents = Some g \<and> linearize g = Some lin
    \<and> distinct lin \<and> set lin = {..<length feerate}
    \<and> sorted_wrt (\<lambda>a b. (b, a) \<notin> (edges (length feerate) parents)\<^sup>*) lin"
proof -
  let ?n = "length feerate"
  obtain g where g: "dep_graph_new feerate parents = Some g" "dg_feerate g = feerate"
    "length (dg_ancestors g) = ?n" "length (dg_descendants g) = ?n"
    "\<forall>c < ?n. ts_width ?n (dg_ancestors g ! c) \<and> ts_width ?n (dg_descendants g ! c)
      \<and> anc g c = closure ?n parents c \<and> desc g c = {i. i < ?n \<and> c \<in> closure ?n parents i}"
    using dep_graph_new_ok [OF assms] by blast
  have n: "dg_len g = ?n" using g(2) by (simp add: dg_len_def)
  obtain lin where lin: "linearize g = Some lin" "distinct lin" "set lin = {..<?n}" "topo (anc g) lin"
    using linearize_ok [OF graph_ok_closure [OF assms(2) n g(3,4,5)]] n by (auto simp: topo_order_def)
  have "(b, a) \<notin> (edges ?n parents)\<^sup>*" if "a \<in> set lin" "b \<notin> anc g a" for a b
    using that g(5) lin(3) by (simp add: closure_def)
  then have "sorted_wrt (\<lambda>a b. (b, a) \<notin> (edges ?n parents)\<^sup>*) lin"
    by (intro sorted_wrt_mono_rel [OF _ lin(4) [unfolded topo_def]])
  with g(1) lin(1-3) show ?thesis by simp
qed

lemma linearize_topological_witness:
  "\<exists>g. dep_graph_new [ff_new 100 10, ff_new 900 10, ff_new 50 10] [[2], [0], []] = Some g
    \<and> linearize g = Some [2, 0, 1]"
proof -
  let ?E = "edges 3 [[2], [0], []]" and ?fs = "[ff_new 100 10, ff_new 900 10, ff_new 50 10]"
  have n: "length ?fs = 3" "3 \<le> length [[2], [0], [] :: nat list]" by simp_all
  obtain g lin where g: "dep_graph_new ?fs [[2], [0], []] = Some g"
    "linearize g = Some lin" "distinct lin" "set lin = {..<3}" "sorted_wrt (\<lambda>a b. (b, a) \<notin> ?E\<^sup>*) lin"
    using linearize_topological [of ?fs "[[2], [0], []]", unfolded n(1), OF n(2) chain_acyclic] by (elim exE conjE)
  have E: "(2, 0) \<in> ?E" "(0, 1) \<in> ?E" by (simp_all add: edges_def parents_of_def)
  then have E': "(2, 0) \<in> ?E\<^sup>*" "(0, 1) \<in> ?E\<^sup>*" "(2, 1) \<in> ?E\<^sup>*"
    using r_into_rtrancl [of "(2, 0)" ?E] rtrancl_into_rtrancl [of 2 0 ?E 1] by blast+
  have "length lin = 3" using distinct_card [OF g(3)] g(4) by simp
  then obtain a b c where lin: "lin = [a, b, c]" by (auto simp: numeral_3_eq_3 length_Suc_conv)
  have "{..<3} = {0, 1, 2 :: nat}" by auto
  then have "{a, b, c} = {0, 1, 2}" using g(4) unfolding lin by simp
  then have abc: "a \<in> {0, 1, 2}" "b \<in> {0, 1, 2}" "c \<in> {0, 1, 2}" "distinct [a, b, c]" using g(3) unfolding lin by blast+
  have "(b, a) \<notin> ?E\<^sup>*" "(c, a) \<notin> ?E\<^sup>*" "(c, b) \<notin> ?E\<^sup>*" using g(5) lin by simp_all
  moreover have sub: "{(2, 0), (0, 1), (2, 1)} \<subseteq> ?E\<^sup>*" using E' by blast
  ultimately have "(b, a) \<notin> {(2, 0), (0, 1), (2, 1)}" "(c, a) \<notin> {(2, 0), (0, 1), (2, 1)}" "(c, b) \<notin> {(2, 0), (0, 1), (2, 1)}"
    by (meson subsetD)+
  with abc have "lin = [2, 0, 1]" unfolding lin by (elim insertE emptyE) simp_all
  with g show ?thesis by simp
qed

end
