(* ===== verification/Chunks.thy ===== *)
theory Chunks
  imports Linearize Complex_Main
begin

text \<open>
  Chunking of a linearisation (\<open>chunk_lengths\<close>): while the sums stay clear of the saturation
  bounds, the chunks are the ones of the concave majorant of the cumulative fee diagram.
\<close>

section \<open>Exact rates\<close>

definition fees :: "fee_frac list \<Rightarrow> int" where
  "fees xs = sum_list (map ff_fee xs)"

definition sizes :: "fee_frac list \<Rightarrow> int" where
  "sizes xs = sum_list (map (\<lambda>f. uint (ff_size f)) xs)"

definition rate :: "fee_frac list \<Rightarrow> real" where
  "rate xs = of_int (fees xs) / of_int (sizes xs)"

text \<open>Positive sizes, and totals for which no saturating operation saturates.\<close>

definition exact :: "fee_frac list \<Rightarrow> bool" where
  "exact xs \<longleftrightarrow> (\<forall>f \<in> set xs. 0 < ff_size f) \<and> sum_list (map (\<lambda>f. \<bar>ff_fee f\<bar>) xs) < 2 ^ 63 \<and> sizes xs < 2 ^ 64"

lemma fees_append [simp]: "fees (xs @ ys) = fees xs + fees ys"
  by (simp add: fees_def)

lemma sizes_append [simp]: "sizes (xs @ ys) = sizes xs + sizes ys"
  by (simp add: sizes_def)

lemma sizes_nonneg [simp]: "0 \<le> sizes xs"
  by (induction xs) (simp_all add: sizes_def)

lemma fees_abs_nonneg [simp]: "0 \<le> sum_list (map (\<lambda>f. \<bar>ff_fee f\<bar>) xs)"
  by (induction xs) simp_all

lemma exact_append: "exact (xs @ ys) \<Longrightarrow> exact xs \<and> exact ys"
  using fees_abs_nonneg [of xs] fees_abs_nonneg [of ys] sizes_nonneg [of xs] sizes_nonneg [of ys]
  unfolding exact_def by (auto simp del: fees_abs_nonneg sizes_nonneg)

lemma abs_fees_le: "\<bar>fees xs\<bar> \<le> sum_list (map (\<lambda>f. \<bar>ff_fee f\<bar>) xs)"
  by (induction xs) (auto simp: fees_def)

lemma sizes_pos: "exact xs \<Longrightarrow> xs \<noteq> [] \<Longrightarrow> 0 < sizes xs"
proof (cases xs)
  case (Cons f ys)
  assume "exact xs"
  then have "0 < uint (ff_size f)" by (simp add: exact_def Cons word_less_def)
  then show ?thesis using sizes_nonneg [of ys] by (simp add: sizes_def Cons)
qed simp

definition totals :: "fee_frac \<Rightarrow> fee_frac list \<Rightarrow> bool" where
  "totals f xs \<longleftrightarrow> ff_fee f = fees xs \<and> uint (ff_size f) = sizes xs"

lemma sat128_id: "\<bar>x\<bar> < 2 ^ 127 \<Longrightarrow> sat128 x = x"
  by (simp add: sat128_def)

lemma totals_add:
  assumes "totals a xs" "totals b ys" "exact (ys @ xs)"
  shows "totals (ff_add a b) (ys @ xs)"
proof -
  have "\<bar>fees xs + fees ys\<bar> < 2 ^ 63" using abs_fees_le [of "ys @ xs"] assms(3) by (simp add: exact_def add.commute)
  then have "\<bar>fees xs + fees ys\<bar> < 2 ^ 127" by simp
  then have f: "sat128 (fees xs + fees ys) = fees xs + fees ys" by (rule sat128_id)
  have "uint (ff_size a) + uint (ff_size b) < 2 ^ 64" using assms by (simp add: exact_def totals_def)
  then have "int (unat (ff_size a) + unat (ff_size b)) < int (2 ^ 64)" by simp
  then have "unat (ff_size a) + unat (ff_size b) < 2 ^ 64" by (simp only: of_nat_less_iff)
  then have "unat (sat_add (ff_size a) (ff_size b)) = unat (ff_size a) + unat (ff_size b)"
    by (simp add: unat_sat_add)
  then have "uint (sat_add (ff_size a) (ff_size b)) = uint (ff_size a) + uint (ff_size b)"
    unfolding uint_nat by (simp only: of_nat_add)
  with f show ?thesis using assms by (simp add: totals_def ff_add_def)
qed

lemma cross_exact:
  assumes "totals a xs" "totals b ys" "exact xs" "exact ys"
  shows "cross a b = (fees xs * sizes ys, fees ys * sizes xs)"
proof -
  have "\<bar>fees xs * sizes ys\<bar> < 2 ^ 127" if "exact xs" "exact ys" for xs ys
  proof -
    have "\<bar>fees xs\<bar> < 2 ^ 63" using abs_fees_le [of xs] that(1) by (simp add: exact_def)
    moreover have "\<bar>sizes ys\<bar> < 2 ^ 64" using that(2) by (simp add: exact_def)
    ultimately have "\<bar>fees xs\<bar> * \<bar>sizes ys\<bar> < 2 ^ 63 * 2 ^ 64" by (intro mult_strict_mono') simp_all
    then show ?thesis by (simp add: abs_mult)
  qed
  then show ?thesis using assms by (simp add: cross_def totals_def sat128_id)
qed

lemma higher_rate_exact:
  assumes "totals a xs" "totals b ys" "exact xs" "exact ys" "xs \<noteq> []" "ys \<noteq> []"
  shows "higher_rate a b \<longleftrightarrow> rate ys < rate xs"
proof -
  have "fees ys * sizes xs < fees xs * sizes ys \<longleftrightarrow>
      (of_int (fees ys * sizes xs) :: real) < of_int (fees xs * sizes ys)" by (simp only: of_int_less_iff)
  also have "\<dots> \<longleftrightarrow> rate ys < rate xs"
    using sizes_pos [OF assms(3,5)] sizes_pos [OF assms(4,6)]
    by (simp add: rate_def divide_simps mult.commute)
  finally show ?thesis by (simp add: higher_rate_def cross_exact [OF assms(1-4)])
qed

section \<open>Mediants\<close>

lemma mediant:
  fixes a b s t :: real
  assumes "0 < s" "0 < t" "a / s \<le> b / t"
  shows "a / s \<le> (a + b) / (s + t)" "(a + b) / (s + t) \<le> b / t"
  using assms by (simp_all add: divide_simps algebra_simps)

lemma rate_mediant:
  assumes "exact (xs @ ys)" "xs \<noteq> []" "ys \<noteq> []" "rate xs \<le> rate ys"
  shows "rate xs \<le> rate (xs @ ys)" "rate (xs @ ys) \<le> rate ys"
  using mediant [of "of_int (sizes xs)" "of_int (sizes ys)" "of_int (fees xs)" "of_int (fees ys)"] assms
    sizes_pos [of xs] sizes_pos [of ys] exact_append [OF assms(1)]
  by (simp_all add: rate_def)

text \<open>A prefix below the whole leaves a suffix above it, and conversely.\<close>

lemma rate_suffix:
  assumes "exact (xs @ ys)" "xs \<noteq> []" "ys \<noteq> []"
  shows "rate xs \<le> rate (xs @ ys) \<longleftrightarrow> rate (xs @ ys) \<le> rate ys"
  using assms sizes_pos [of xs] sizes_pos [of ys] exact_append [OF assms(1)]
  by (simp add: rate_def divide_simps algebra_simps add_pos_pos)

definition best :: "fee_frac list \<Rightarrow> bool" where
  "best xs \<longleftrightarrow> xs \<noteq> [] \<and> (\<forall>ys zs. xs = ys @ zs \<longrightarrow> ys \<noteq> [] \<longrightarrow> rate ys \<le> rate xs)"

lemma best_merge:
  assumes "best xs" "best ys" "exact (xs @ ys)" "rate xs < rate ys"
  shows "best (xs @ ys)"
  unfolding best_def
proof (intro conjI allI impI)
  show "xs @ ys \<noteq> []" using assms(1) by (simp add: best_def)
  have ne: "xs \<noteq> []" "ys \<noteq> []" using assms(1,2) by (simp_all add: best_def)
  note m = rate_mediant [OF assms(3) ne less_imp_le [OF assms(4)]]
  fix us vs assume eq: "xs @ ys = us @ vs" and us: "us \<noteq> []"
  from eq consider (left) ws where "xs = us @ ws" | (right) ws where "us = xs @ ws" "ys = ws @ vs"
    by (auto simp: append_eq_append_conv2)
  then show "rate us \<le> rate (xs @ ys)"
  proof cases
    case left
    then have "rate us \<le> rate xs" using assms(1) us by (auto simp: best_def)
    with m(1) show ?thesis by simp
  next
    case right
    show ?thesis
    proof (cases "ws = [] \<or> vs = []")
      case True
      then show ?thesis using right m(1) eq by auto
    next
      case False
      have ex: "exact ys" "exact (us @ vs)" using exact_append [OF assms(3)] assms(3) eq by simp_all
      have "rate ws \<le> rate ys" using assms(2) False right(2) by (auto simp: best_def)
      then have "rate ys \<le> rate vs" using rate_suffix [of ws vs] ex(1) right(2) False by simp
      then have "rate (us @ vs) \<le> rate vs" using m(2) eq by simp
      then show ?thesis using rate_suffix [OF ex(2) us] False eq by simp
    qed
  qed
qed

section \<open>The stack\<close>

definition stack_ok :: "(fee_frac \<times> nat) list \<Rightarrow> fee_frac list list \<Rightarrow> bool" where
  "stack_ok st segs \<longleftrightarrow> list_all2 (\<lambda>(f, len) seg. totals f seg \<and> len = length seg \<and> best seg) st segs
    \<and> sorted_wrt (\<lambda>a b. rate a \<le> rate b) segs"

lemma chunk_merge_ok:
  assumes "stack_ok st segs" "totals f seg" "best seg" "exact (concat (rev segs) @ seg)"
  shows "\<exists>segs'. stack_ok (chunk_merge (f, length seg) st) segs' \<and> concat (rev segs') = concat (rev segs) @ seg"
  using assms
proof (induction st arbitrary: segs f seg)
  case Nil
  then show ?case by (intro exI [of _ "[seg]"]) (simp add: stack_ok_def)
next
  case (Cons c st)
  obtain g len prev segs0 where c: "c = (g, len)" "segs = prev # segs0" "totals g prev" "len = length prev" "best prev"
    "stack_ok st segs0" "\<forall>b \<in> set segs0. rate prev \<le> rate b"
    using Cons.prems(1) by (cases c) (auto simp: stack_ok_def list_all2_Cons1)
  have ex: "exact (concat (rev segs0) @ prev @ seg)" using Cons.prems(4) c(2) by simp
  then have ex2: "exact (prev @ seg)" "exact prev" "exact seg" using exact_append by blast+
  have ne: "prev \<noteq> []" "seg \<noteq> []" using Cons.prems(3) c(5) by (simp_all add: best_def)
  have hr: "higher_rate f g \<longleftrightarrow> rate prev < rate seg"
    by (rule higher_rate_exact [OF Cons.prems(2) c(3) ex2(3,2) ne(2,1)])
  show ?case
  proof (cases "higher_rate f g")
    case True
    then have b: "best (prev @ seg)" using best_merge [OF c(5) Cons.prems(3) ex2(1)] hr by simp
    from Cons.IH [OF c(6) totals_add [OF Cons.prems(2) c(3) ex2(1)] b ex] True show ?thesis
      by (simp add: c(1,2,4) add.commute)
  next
    case False
    then have "rate seg \<le> rate prev" using hr by simp
    moreover have "rate seg \<le> rate b" if "b \<in> set segs0" for b using calculation c(7) that order_trans by blast
    ultimately have "stack_ok ((f, length seg) # c # st) (seg # segs)"
      using Cons.prems(1-3) by (simp add: stack_ok_def c(2))
    then show ?thesis using False by (intro exI [of _ "seg # segs"]) (simp add: c(1))
  qed
qed

lemma chunk_stack_ok:
  assumes "exact (done_part @ xs)" "stack_ok st segs" "concat (rev segs) = done_part"
  shows "\<exists>segs'. stack_ok (fold (\<lambda>fr chunks. chunk_merge (fr, 1) chunks) xs st) segs' \<and> concat (rev segs') = done_part @ xs"
  using assms
proof (induction xs arbitrary: done_part st segs)
  case Nil
  then show ?case by auto
next
  case (Cons f xs)
  have one: "totals f [f]" "best [f]" by (auto simp: totals_def fees_def sizes_def best_def append_eq_Cons_conv Cons_eq_append_conv)
  have ex: "exact ((done_part @ [f]) @ xs)" using Cons.prems(1) by simp
  then have "exact (concat (rev segs) @ [f])" using exact_append Cons.prems(3) by blast
  from chunk_merge_ok [OF Cons.prems(2) one this] obtain segs'
    where "stack_ok (chunk_merge (f, 1) st) segs'" "concat (rev segs') = done_part @ [f]"
    using Cons.prems(3) by auto
  from Cons.IH [OF ex this] show ?case by simp
qed

text \<open>C9. Chunking a linearisation whose totals stay below the saturation bounds cuts it into non-empty
  chunks of non-increasing fee rate, and no prefix of a chunk has a higher rate than the whole chunk:
  the chunks are the steps of the concave majorant of the fee diagram, as exact rational rates.\<close>

theorem chunk_lengths_majorant:
  assumes "exact in_order"
  shows "\<exists>segs. map length segs = chunk_lengths in_order \<and> concat segs = in_order \<and> [] \<notin> set segs
    \<and> sorted_wrt (\<lambda>a b. rate b \<le> rate a) segs
    \<and> (\<forall>seg \<in> set segs. \<forall>k. 0 < k \<and> k \<le> length seg \<longrightarrow> rate (take k seg) \<le> rate seg)"
proof -
  have "stack_ok [] []" by (simp add: stack_ok_def)
  with assms obtain segs where segs: "stack_ok (chunk_stack in_order) segs" "concat (rev segs) = in_order"
    using chunk_stack_ok [of "[]" in_order "[]" "[]"] by (auto simp: chunk_stack_def)
  have lens: "map snd st = map length segs" if "list_all2 (\<lambda>(f, len) seg. totals f seg \<and> len = length seg \<and> best seg) st segs" for st segs
    using that by (induction rule: list_all2_induct) auto
  have "best seg" if "seg \<in> set segs" for seg
    using segs(1) that unfolding stack_ok_def by (fastforce simp: list_all2_conv_all_nth in_set_conv_nth)
  then have "seg \<noteq> [] \<and> (\<forall>k. 0 < k \<and> k \<le> length seg \<longrightarrow> rate (take k seg) \<le> rate seg)" if "seg \<in> set segs" for seg
    using that unfolding best_def by (metis append_take_drop_id take_eq_Nil not_gr_zero)
  moreover have "map length (rev segs) = chunk_lengths in_order"
    using segs(1) lens [of "chunk_stack in_order" segs] by (simp add: stack_ok_def chunk_lengths_def rev_map [symmetric])
  moreover have "sorted_wrt (\<lambda>a b. rate b \<le> rate a) (rev segs)" using segs(1) by (simp add: stack_ok_def sorted_wrt_rev)
  ultimately show ?thesis using segs(2) by (intro exI [of _ "rev segs"]) auto
qed

lemma chunk_lengths_majorant_witness:
  "\<exists>segs. map length segs = [2, 1] \<and> concat segs = [ff_new 100 10, ff_new 900 10, ff_new 50 10]
    \<and> sorted_wrt (\<lambda>a b. rate b \<le> rate a) segs"
proof -
  let ?l = "[ff_new 100 10, ff_new 900 10, ff_new 50 10]"
  have ex: "exact ?l" by (simp add: exact_def sizes_def ff_new_def)
  have "chunk_lengths ?l = [2, 1]"
    by (simp add: chunk_lengths_def chunk_stack_def higher_rate_def cross_def sat128_def ff_new_def ff_add_def sat_add_def)
  then obtain segs where "map length segs = [2, 1]" "concat segs = ?l" "sorted_wrt (\<lambda>a b. rate b \<le> rate a) segs"
    using chunk_lengths_majorant [OF ex] by (elim exE conjE) simp
  then show ?thesis by (intro exI [of _ segs] conjI)
qed

end
