(* ===== verification/Spec2Isabelle.thy ===== *)
theory Spec2Isabelle
  imports Compact ScriptNum Merkle Errors Btc CondStack ScriptCode Sigops Precompute Job Crypto Interp InterpProps Verify NoPanic VerifyProps Trust Chain Header BlockRules Facts BlockProps Policy Signet Orphanage OrphanProps OrphanRun DepGraph Chunks
begin

text \<open>Root.\<close>

end
